(* ===== verification/Prelude.thy ===== *)
theory Prelude
  imports Main "HOL-Library.Word" "HOL-Library.Char_ord" "HOL-Library.List_Lexorder"
    "HOL-Library.Sublist" "HOL-Library.AList"
begin

text \<open>
  Shared vocabulary of the development.

  \<^item> Rust strings are UTF-8 byte sequences; they are modelled as \<open>string\<close>, one \<open>char\<close> per
    byte, so that \<open>length\<close> is Rust's \<open>len\<close> and the order of strings is Rust's bytewise order.
  \<^item> \<open>Result<T, E>\<close> is the sum type \<open>'e + 't\<close>; \<open>bindE\<close> is the \<open>?\<close> operator.
  \<^item> \<open>BTreeMap<String, V>\<close> is an association list with strictly increasing keys (\<open>bt\<close>).
  \<^item> \<open>HashMap<String, V>\<close> is an association list with distinct keys in any order (\<open>hm\<close>).
  \<^item> \<open>u64\<close>, \<open>u32\<close> and \<open>u8\<close> are machine words; \<open>+\<close> wraps as in a release build.
\<close>

named_theorems str_simps \<open>facts on splitting, joining and stripping strings\<close>
named_theorems map_simps \<open>lookup after update on the two map representations\<close>

type_synonym u64 = "64 word"
type_synonym u32 = "32 word"
type_synonym u8 = "8 word"

section \<open>Results\<close>

definition bindE :: "'e + 'a \<Rightarrow> ('a \<Rightarrow> 'e + 'b) \<Rightarrow> 'e + 'b" where
  "bindE r f = (case r of Inl e \<Rightarrow> Inl e | Inr a \<Rightarrow> f a)"

lemma bindE_simps [simp]: "bindE (Inl e) f = Inl e" "bindE (Inr a) f = f a"
  by (simp_all add: bindE_def)

lemma bindE_eq_Inr: "bindE r f = Inr b \<longleftrightarrow> (\<exists>a. r = Inr a \<and> f a = Inr b)"
  by (cases r) auto

definition is_ok :: "'e + 'a \<Rightarrow> bool" where
  "is_ok r = (case r of Inl _ \<Rightarrow> False | Inr _ \<Rightarrow> True)"

lemma is_ok_simps [simp]: "is_ok (Inl e) = False" "is_ok (Inr a) = True"
  by (simp_all add: is_ok_def)

lemma is_ok_iff: "is_ok r \<longleftrightarrow> (\<exists>a. r = Inr a)"
  by (cases r) auto

section \<open>Strings\<close>

text \<open>\<open>str::split(c)\<close>: the pieces between the separators, never an empty list.\<close>

fun split_on :: "char \<Rightarrow> string \<Rightarrow> string list" where
  "split_on c [] = [[]]"
| "split_on c (x # xs) =
     (if x = c then [] # split_on c xs
      else (x # hd (split_on c xs)) # tl (split_on c xs))"

fun join_with :: "char \<Rightarrow> string list \<Rightarrow> string" where
  "join_with c [] = []"
| "join_with c [s] = s"
| "join_with c (s # t # ts) = s @ c # join_with c (t # ts)"

lemma split_on_nonempty [simp]: "split_on c s \<noteq> []"
  by (cases s) auto

lemma join_with_Cons: "ss \<noteq> [] \<Longrightarrow> join_with c (s # ss) = s @ c # join_with c ss"
  by (cases ss) auto

lemma join_with_Cons_char:
  "ss \<noteq> [] \<Longrightarrow> join_with c ((x # hd ss) # tl ss) = x # join_with c ss"
  by (cases ss; cases "tl ss") auto

lemma join_split [simp, str_simps]: "join_with c (split_on c s) = s"
  by (induction c s rule: split_on.induct) (auto simp: join_with_Cons join_with_Cons_char)

lemma split_on_no_sep [str_simps]: "c \<notin> set s \<Longrightarrow> split_on c s = [s]"
  by (induction s) auto

lemma split_on_append [str_simps]: "split_on c (s @ c # t) = split_on c s @ split_on c t"
  by (induction s) auto

lemma split_on_pieces: "p \<in> set (split_on c s) \<Longrightarrow> c \<notin> set p"
proof (induction s arbitrary: p)
  case (Cons x xs)
  have "hd (split_on c xs) \<in> set (split_on c xs)" by simp
  moreover have "q \<in> set (split_on c xs)" if "q \<in> set (tl (split_on c xs))" for q
    using that by (rule list.set_sel(2) [rotated]) simp
  ultimately show ?case using Cons by (auto split: if_splits)
qed simp

lemma split_join [str_simps]:
  "ss \<noteq> [] \<Longrightarrow> \<forall>s \<in> set ss. c \<notin> set s \<Longrightarrow> split_on c (join_with c ss) = ss"
proof (induction c ss rule: join_with.induct)
  case (3 c s t ts)
  then show ?case by (simp add: split_on_append split_on_no_sep del: join_with.simps(3))
     (simp add: split_on_append split_on_no_sep)
qed (auto simp: split_on_no_sep)

lemma join_append [str_simps]:
  "ss \<noteq> [] \<Longrightarrow> ts \<noteq> [] \<Longrightarrow> join_with c (ss @ ts) = join_with c ss @ c # join_with c ts"
  by (induction c ss rule: join_with.induct) (auto simp: join_with_Cons)

lemma split_on_eq_single: "split_on c s = [p] \<longleftrightarrow> s = p \<and> c \<notin> set p"
proof
  assume "split_on c s = [p]"
  then show "s = p \<and> c \<notin> set p"
    using join_split [of c s] split_on_pieces [of p c s] by simp
qed (simp add: split_on_no_sep)

text \<open>\<open>str::strip_prefix\<close>, \<open>starts_with\<close> and \<open>ends_with\<close>.\<close>

definition strip_prefix :: "string \<Rightarrow> string \<Rightarrow> string option" where
  "strip_prefix p s = (if take (length p) s = p then Some (drop (length p) s) else None)"

definition starts_with :: "string \<Rightarrow> string \<Rightarrow> bool" where
  "starts_with p s \<longleftrightarrow> take (length p) s = p"

definition ends_with :: "string \<Rightarrow> string \<Rightarrow> bool" where
  "ends_with p s \<longleftrightarrow> drop (length s - length p) s = p"

lemma take_eq_prefix: "take (length p) s = p \<longleftrightarrow> (\<exists>r. s = p @ r)"
proof
  assume "take (length p) s = p"
  then have "s = p @ drop (length p) s" using append_take_drop_id [of "length p" s] by simp
  then show "\<exists>r. s = p @ r" ..
qed auto

lemma strip_prefix_eq_Some [str_simps]: "strip_prefix p s = Some r \<longleftrightarrow> s = p @ r"
proof -
  have "take (length p) s = p \<and> drop (length p) s = r \<longleftrightarrow> s = p @ r"
    by (metis append_take_drop_id append_eq_conv_conj)
  then show ?thesis by (auto simp: strip_prefix_def)
qed

lemma strip_prefix_append [simp]: "strip_prefix p (p @ r) = Some r"
  by (simp add: strip_prefix_def)

lemma strip_prefix_eq_None [str_simps]: "strip_prefix p s = None \<longleftrightarrow> \<not> starts_with p s"
  by (simp add: strip_prefix_def starts_with_def)

lemma starts_with_iff [str_simps]: "starts_with p s \<longleftrightarrow> (\<exists>r. s = p @ r)"
  by (simp add: starts_with_def take_eq_prefix)

lemma ends_with_iff [str_simps]: "ends_with p s \<longleftrightarrow> (\<exists>r. s = r @ p)"
proof
  assume "ends_with p s"
  then have "s = take (length s - length p) s @ p"
    using append_take_drop_id [of "length s - length p" s] by (simp add: ends_with_def)
  then show "\<exists>r. s = r @ p" ..
qed (auto simp: ends_with_def)

text \<open>\<open>str::contains(&str)\<close>.\<close>

fun contains_str :: "string \<Rightarrow> string \<Rightarrow> bool" where
  "contains_str p [] = (p = [])"
| "contains_str p (c # cs) = (starts_with p (c # cs) \<or> contains_str p cs)"

lemma contains_str_iff: "contains_str p s \<longleftrightarrow> sublist p s"
proof (induction s)
  case (Cons c cs)
  show ?case
    by (simp add: Cons starts_with_iff sublist_Cons_right prefix_def)
qed simp

text \<open>
  \<open>str::replace\<close> for a non-empty pattern: leftmost, non-overlapping matches. The empty pattern
  matches at every character boundary: before each byte that is not a UTF-8 continuation byte,
  and at the end.
\<close>

definition is_continuation :: "char \<Rightarrow> bool" where
  "is_continuation c \<longleftrightarrow> (let n = (of_char c :: nat) in 128 \<le> n \<and> n < 192)"

function replace_str :: "string \<Rightarrow> string \<Rightarrow> string \<Rightarrow> string" where
  "replace_str p t [] = (if p = [] then t else [])"
| "replace_str p t (c # cs) =
     (if p = [] then (if is_continuation c then [c] else t @ [c]) @ replace_str p t cs
      else if starts_with p (c # cs)
      then t @ replace_str p t (drop (length p - 1) cs)
      else c # replace_str p t cs)"
  by pat_completeness auto
termination
  by (relation "measure (\<lambda>(p, t, s). length s)") auto

declare replace_str.simps(2) [simp del]

text \<open>\<open>s.chars().count()\<close>: the bytes that start a character.\<close>

definition char_count :: "string \<Rightarrow> nat" where
  "char_count s = length (filter (\<lambda>c. \<not> is_continuation c) s)"

text \<open>ASCII classes, on bytes.\<close>

definition is_ascii_digit :: "char \<Rightarrow> bool" where
  "is_ascii_digit c \<longleftrightarrow> CHR ''0'' \<le> c \<and> c \<le> CHR ''9''"

definition is_ascii_lowercase :: "char \<Rightarrow> bool" where
  "is_ascii_lowercase c \<longleftrightarrow> CHR ''a'' \<le> c \<and> c \<le> CHR ''z''"

definition is_ascii_alphabetic :: "char \<Rightarrow> bool" where
  "is_ascii_alphabetic c \<longleftrightarrow> is_ascii_lowercase c \<or> (CHR ''A'' \<le> c \<and> c \<le> CHR ''Z'')"

definition is_ascii_alphanumeric :: "char \<Rightarrow> bool" where
  "is_ascii_alphanumeric c \<longleftrightarrow> is_ascii_alphabetic c \<or> is_ascii_digit c"

definition is_ascii_hexdigit :: "char \<Rightarrow> bool" where
  "is_ascii_hexdigit c \<longleftrightarrow> is_ascii_digit c \<or> (CHR ''a'' \<le> c \<and> c \<le> CHR ''f'')
     \<or> (CHR ''A'' \<le> c \<and> c \<le> CHR ''F'')"

lemmas ascii_defs = is_ascii_digit_def is_ascii_lowercase_def is_ascii_alphabetic_def
  is_ascii_alphanumeric_def is_ascii_hexdigit_def

text \<open>The classes spelled out, for the specifications.\<close>

definition digits :: "char set" where
  "digits = set ''0123456789''"

definition letters :: "char set" where
  "letters = set ''abcdefghijklmnopqrstuvwxyzABCDEFGHIJKLMNOPQRSTUVWXYZ''"

definition hex_digits :: "char set" where
  "hex_digits = digits \<union> set ''abcdefABCDEF''"

lemma ascii_classes:
  "is_ascii_digit c \<longleftrightarrow> c \<in> digits" "is_ascii_alphabetic c \<longleftrightarrow> c \<in> letters" "is_ascii_hexdigit c \<longleftrightarrow> c \<in> hex_digits"
proof -
  have "\<forall>c. is_ascii_digit c \<longleftrightarrow> c \<in> digits" "\<forall>c. is_ascii_alphabetic c \<longleftrightarrow> c \<in> letters"
      "\<forall>c. is_ascii_hexdigit c \<longleftrightarrow> c \<in> hex_digits" by code_simp+
  then show "is_ascii_digit c \<longleftrightarrow> c \<in> digits" "is_ascii_alphabetic c \<longleftrightarrow> c \<in> letters"
      "is_ascii_hexdigit c \<longleftrightarrow> c \<in> hex_digits" by blast+
qed

text \<open>Decimal rendering of an unsigned integer (\<open>Display\<close> of \<open>u64\<close>, \<open>u32\<close>, \<open>usize\<close>).\<close>

fun show_nat :: "nat \<Rightarrow> string" where
  "show_nat n = (if n < 10 then [char_of (48 + n)] else show_nat (n div 10) @ [char_of (48 + n mod 10)])"

declare show_nat.simps [simp del]

text \<open>
  \<open>str::parse\<close> for an unsigned integer of the given bound: an optional \<open>+\<close>, then at least one
  digit; \<open>None\<close> on anything else and on overflow.
\<close>

definition digits_value :: "string \<Rightarrow> nat" where
  "digits_value ds = foldl (\<lambda>n d. n * 10 + (of_char d - 48)) 0 ds"

definition parse_uint :: "nat \<Rightarrow> string \<Rightarrow> nat option" where
  "parse_uint bound s =
     (let ds = (if s \<noteq> [] \<and> hd s = CHR ''+'' then tl s else s) in
      if ds \<noteq> [] \<and> list_all is_ascii_digit ds \<and> digits_value ds < bound
      then Some (digits_value ds) else None)"

text \<open>
  \<open>{:?}\<close> of a string. ASCII is escaped as \<open>str::escape_debug\<close> does; bytes of a non-ASCII
  character are printed as they are (Rust escapes the non-printable ones among those characters).
\<close>

definition hex_digit :: "nat \<Rightarrow> char" where
  "hex_digit n = ''0123456789abcdef'' ! n"

fun show_hex :: "nat \<Rightarrow> string" where
  "show_hex n = (if n < 16 then [hex_digit n] else show_hex (n div 16) @ [hex_digit (n mod 16)])"

declare show_hex.simps [simp del]

definition escape_debug :: "char \<Rightarrow> string" where
  "escape_debug c = (let n = (of_char c :: nat) in
     if n = 0 then [CHR 0x5C, CHR ''0'']
     else if n = 9 then [CHR 0x5C, CHR ''t'']
     else if n = 13 then [CHR 0x5C, CHR ''r'']
     else if n = 10 then [CHR 0x5C, CHR ''n'']
     else if n = 34 \<or> n = 92 then [CHR 0x5C, c]
     else if n < 32 \<or> n = 127 then [CHR 0x5C, CHR ''u'', CHR 0x7B] @ show_hex n @ [CHR 0x7D]
     else [c])"

definition debug_str :: "string \<Rightarrow> string" where
  "debug_str s = [CHR 0x22] @ concat (map escape_debug s) @ [CHR 0x22]"

section \<open>Ordered maps: \<open>BTreeMap\<close> and \<open>serde_json::Map\<close>\<close>

type_synonym 'v bt = "(string \<times> 'v) list"

definition bt_wf :: "'v bt \<Rightarrow> bool" where
  "bt_wf m \<longleftrightarrow> sorted_wrt (<) (map fst m)"

fun bt_insert :: "string \<Rightarrow> 'v \<Rightarrow> 'v bt \<Rightarrow> 'v bt" where
  "bt_insert k v [] = [(k, v)]"
| "bt_insert k v ((k', v') # m) =
     (if k < k' then (k, v) # (k', v') # m
      else if k = k' then (k, v) # m
      else (k', v') # bt_insert k v m)"

abbreviation bt_get :: "'v bt \<Rightarrow> string \<Rightarrow> 'v option" where
  "bt_get \<equiv> map_of"

definition bt_remove :: "string \<Rightarrow> 'v bt \<Rightarrow> 'v bt" where
  "bt_remove k m = filter (\<lambda>(k', _). k' \<noteq> k) m"

definition bt_contains_key :: "'v bt \<Rightarrow> string \<Rightarrow> bool" where
  "bt_contains_key m k \<longleftrightarrow> bt_get m k \<noteq> None"

lemma bt_wf_Nil [simp]: "bt_wf []"
  by (simp add: bt_wf_def)

lemma bt_wf_Cons: "bt_wf ((k, v) # m) \<longleftrightarrow> (\<forall>k' \<in> fst ` set m. k < k') \<and> bt_wf m"
  by (auto simp: bt_wf_def)

lemma bt_get_insert [simp, map_simps]:
  "bt_get (bt_insert k v m) = (bt_get m)(k \<mapsto> v)"
  by (induction k v m rule: bt_insert.induct) (auto simp: fun_eq_iff)

lemma keys_bt_insert: "fst ` set (bt_insert k v m) = insert k (fst ` set m)"
  by (induction k v m rule: bt_insert.induct) auto

lemma bt_wf_insert [simp]: "bt_wf m \<Longrightarrow> bt_wf (bt_insert k v m)"
proof (induction k v m rule: bt_insert.induct)
  case (2 k v k' v' m)
  consider "k < k'" | "k = k'" | "k' < k" by fastforce
  then show ?case
    using 2 by cases (auto simp: bt_wf_Cons keys_bt_insert)
qed (simp add: bt_wf_def)

lemma bt_wf_distinct: "bt_wf m \<Longrightarrow> distinct (map fst m)"
  by (induction m) (fastforce simp: bt_wf_Cons)+

text \<open>A well-formed ordered map is determined by its lookups.\<close>

lemma bt_set_conv: "bt_wf m \<Longrightarrow> (k, v) \<in> set m \<longleftrightarrow> bt_get m k = Some v"
  by (simp add: bt_wf_distinct)

lemma bt_ext:
  assumes "bt_wf m" "bt_wf m'" "bt_get m = bt_get m'"
  shows "m = m'"
  using assms
proof (induction m arbitrary: m')
  case Nil
  then show ?case by (cases m') (auto simp: fun_eq_iff split: if_splits)
next
  case (Cons kv m)
  obtain k v where kv: "kv = (k, v)" by fastforce
  have "bt_get m' k = Some v" by (simp add: kv flip: Cons.prems(3))
  then obtain kv' n where m': "m' = kv' # n" by (cases m') auto
  obtain k' v' where kv': "kv' = (k', v')" by fastforce
  have mem: "(x, y) \<in> set (kv # m) \<longleftrightarrow> (x, y) \<in> set m'" for x y
    using Cons.prems by (simp only: bt_set_conv)
  have low: "\<forall>x \<in> fst ` set m. k < x" "\<forall>x \<in> fst ` set n. k' < x"
    using Cons.prems by (simp_all add: kv m' kv' bt_wf_Cons)
  have "k = k'"
    using mem [of k v] mem [of k' v'] low by (force simp: kv m' kv')
  then have "v = v'" using Cons.prems by (auto simp: kv m' kv' fun_eq_iff split: if_splits)
  have "k \<notin> fst ` set m" "k \<notin> fst ` set n" using low \<open>k = k'\<close> by auto
  then have "bt_get m = bt_get n"
    using Cons.prems \<open>k = k'\<close> \<open>v = v'\<close>
    by (auto simp: kv m' kv' fun_eq_iff map_of_eq_None_iff split: if_splits) (metis map_of_eq_None_iff)
  with Cons kv m' kv' \<open>k = k'\<close> \<open>v = v'\<close> show ?case by (simp add: bt_wf_Cons)
qed

lemma bt_wf_remove [simp]: "bt_wf m \<Longrightarrow> bt_wf (bt_remove k m)"
  by (induction m) (auto simp: bt_wf_Cons bt_remove_def)

lemma bt_get_remove [simp, map_simps]: "bt_get (bt_remove k m) = (bt_get m)(k := None)"
  by (induction m) (auto simp: bt_remove_def fun_eq_iff)

lemma map_of_rev: "distinct (map fst kvs) \<Longrightarrow> map_of (rev kvs) = map_of kvs"
  by (rule map_of_inject_set [THEN iffD2]) (simp_all add: rev_map [symmetric])

section \<open>Unordered maps: \<open>HashMap\<close> and \<open>DashMap\<close>\<close>

type_synonym 'v hm = "(string \<times> 'v) list"

definition hm_wf :: "'v hm \<Rightarrow> bool" where
  "hm_wf m \<longleftrightarrow> distinct (map fst m)"

abbreviation hm_get :: "'v hm \<Rightarrow> string \<Rightarrow> 'v option" where
  "hm_get \<equiv> map_of"

definition hm_insert :: "string \<Rightarrow> 'v \<Rightarrow> 'v hm \<Rightarrow> 'v hm" where
  "hm_insert k v m = AList.update k v m"

definition hm_remove :: "string \<Rightarrow> 'v hm \<Rightarrow> 'v hm" where
  "hm_remove k m = AList.delete k m"

lemma hm_get_remove [simp, map_simps]: "hm_get (hm_remove k m) = (hm_get m)(k := None)"
  by (simp add: hm_remove_def delete_conv')

lemma hm_wf_Nil [simp]: "hm_wf []"
  by (simp add: hm_wf_def)

lemma hm_wf_remove [simp]: "hm_wf m \<Longrightarrow> hm_wf (hm_remove k m)"
  by (simp add: hm_wf_def hm_remove_def distinct_delete)

section \<open>The map interface\<close>

text \<open>
  What the components rely on: a lookup after an insert, and the invariant. Inserting a list of
  entries one by one (\<open>collect\<close>, \<open>apply\<close>, \<open>seed\<close>) then has one law for both representations:
  the last entry for a key wins.
\<close>

locale string_map =
  fixes insert_at :: "string \<Rightarrow> 'v \<Rightarrow> 'm \<Rightarrow> 'm"
    and lookup :: "'m \<Rightarrow> string \<Rightarrow> 'v option"
    and wf :: "'m \<Rightarrow> bool"
  assumes lookup_insert: "lookup (insert_at k v m) = (lookup m)(k \<mapsto> v)"
    and wf_insert: "wf m \<Longrightarrow> wf (insert_at k v m)"
begin

lemma lookup_insert_all:
  "lookup (fold (\<lambda>(k, v). insert_at k v) kvs m) = lookup m ++ map_of (rev kvs)"
proof (induction kvs arbitrary: m)
  case (Cons kv kvs)
  obtain k v where "kv = (k, v)" by fastforce
  with Cons show ?case
    by (auto simp: lookup_insert fun_eq_iff map_add_def split: option.splits)
qed simp

lemma wf_fold_insert: "wf m \<Longrightarrow> wf (fold (\<lambda>(k, v). insert_at k v) kvs m)"
  by (induction kvs arbitrary: m) (auto simp: wf_insert)

lemma lookup_insert_all_untouched:
  "k \<notin> fst ` set kvs \<Longrightarrow> lookup (fold (\<lambda>(k, v). insert_at k v) kvs m) k = lookup m k"
  by (simp add: lookup_insert_all map_add_dom_app_simps(3) dom_map_of_conv_image_fst)

lemma lookup_insert_all_last:
  "lookup (fold (\<lambda>(k, v). insert_at k v) (kvs @ [(k, v)]) m) k = Some v"
  by (simp add: lookup_insert)

end

interpretation bt: string_map bt_insert bt_get bt_wf
  by unfold_locales simp_all

interpretation hm: string_map hm_insert hm_get hm_wf
  by unfold_locales (simp_all add: hm_insert_def update_conv' hm_wf_def distinct_update)

declare hm.lookup_insert [simp, map_simps] hm.wf_insert [simp]

definition bt_insert_all :: "(string \<times> 'v) list \<Rightarrow> 'v bt \<Rightarrow> 'v bt" where
  "bt_insert_all kvs m = fold (\<lambda>(k, v). bt_insert k v) kvs m"

abbreviation bt_of :: "(string \<times> 'v) list \<Rightarrow> 'v bt" where
  "bt_of kvs \<equiv> bt_insert_all kvs []"

definition hm_insert_all :: "(string \<times> 'v) list \<Rightarrow> 'v hm \<Rightarrow> 'v hm" where
  "hm_insert_all kvs m = fold (\<lambda>(k, v). hm_insert k v) kvs m"

lemma insert_all_Nil [simp]: "bt_insert_all [] m = m" "hm_insert_all [] m = m"
  by (simp_all add: bt_insert_all_def hm_insert_all_def)

lemma insert_all_Cons [simp]:
  "bt_insert_all ((k, v) # kvs) m = bt_insert_all kvs (bt_insert k v m)"
  "hm_insert_all ((k, v) # kvs) m = hm_insert_all kvs (hm_insert k v m)"
  by (simp_all add: bt_insert_all_def hm_insert_all_def)

lemma wf_insert_all [simp]:
  "bt_wf m \<Longrightarrow> bt_wf (bt_insert_all kvs m)" "hm_wf m \<Longrightarrow> hm_wf (hm_insert_all kvs m)"
  by (simp_all add: bt_insert_all_def hm_insert_all_def bt.wf_fold_insert hm.wf_fold_insert)

lemma get_insert_all [map_simps]:
  "bt_get (bt_insert_all kvs m) = bt_get m ++ map_of (rev kvs)"
  "hm_get (hm_insert_all kvs m) = hm_get m ++ map_of (rev kvs)"
  by (simp_all add: bt_insert_all_def hm_insert_all_def bt.lookup_insert_all hm.lookup_insert_all)

lemma bt_of_wf_id: "bt_wf kvs \<Longrightarrow> bt_of kvs = kvs"
  by (rule bt_ext) (simp_all add: get_insert_all map_of_rev bt_wf_distinct)

text \<open>Sorting the entries of an unordered map loses nothing, whatever order they came in.\<close>

lemma bt_of_hm: "hm_wf m \<Longrightarrow> bt_get (bt_of m) = hm_get m"
  by (simp add: get_insert_all map_of_rev hm_wf_def)

lemma bt_of_hm_cong:
  "hm_wf m \<Longrightarrow> hm_wf m' \<Longrightarrow> hm_get m = hm_get m' \<Longrightarrow> bt_of m = bt_of m'"
  by (rule bt_ext) (simp_all add: bt_of_hm)

end
