(* ===== verification/Json.thy ===== *)
theory Json
  imports Prelude
begin

text \<open>
  JSON values as \<open>serde_json::Value\<close> has them (built without \<open>preserve_order\<close>: \<open>Map\<close> is a
  \<open>BTreeMap\<close>), the accessors the program calls on them, and the record \<open>platform\<close> of everything
  the program calls that is not in the repository.

  Numbers keep serde\_json's three internal representations. A finite IEEE-754 double is kept as
  its 64-bit pattern; comparison and conversion from integers are written out on the pattern.
\<close>

section \<open>Doubles\<close>

type_synonym f64 = "64 word"

definition f64_exp :: "f64 \<Rightarrow> nat" where
  "f64_exp b = (unat b div 2 ^ 52) mod 2 ^ 11"

definition f64_frac :: "f64 \<Rightarrow> nat" where
  "f64_frac b = unat b mod 2 ^ 52"

definition f64_is_nan :: "f64 \<Rightarrow> bool" where
  "f64_is_nan b \<longleftrightarrow> f64_exp b = 2047 \<and> f64_frac b \<noteq> 0"

definition f64_is_finite :: "f64 \<Rightarrow> bool" where
  "f64_is_finite b \<longleftrightarrow> f64_exp b \<noteq> 2047"

text \<open>
  The order of two non-NaN doubles is the order of their sign-magnitude readings: the magnitude
  bits are monotone in the value, and both zeros read as 0.
\<close>

definition f64_key :: "f64 \<Rightarrow> int" where
  "f64_key b = (let m = int (unat b mod 2 ^ 63) in if unat b < 2 ^ 63 then m else - m)"

definition f64_lt :: "f64 \<Rightarrow> f64 \<Rightarrow> bool" where
  "f64_lt a b \<longleftrightarrow> \<not> f64_is_nan a \<and> \<not> f64_is_nan b \<and> f64_key a < f64_key b"

definition f64_eq :: "f64 \<Rightarrow> f64 \<Rightarrow> bool" where
  "f64_eq a b \<longleftrightarrow> \<not> f64_is_nan a \<and> \<not> f64_is_nan b \<and> f64_key a = f64_key b"

text \<open>
  The number a double stands for, in units of the least subnormal, \<open>2\<close> to the power \<open>-1074\<close>: the
  fraction where the exponent field is 0, otherwise the fraction with its hidden bit, shifted by one
  less than the exponent field.
\<close>

definition magnitude_value :: "nat \<Rightarrow> int" where
  "magnitude_value m = (let e = m div 2 ^ 52; f = int (m mod 2 ^ 52) in
     if e = 0 then f else (2 ^ 52 + f) * 2 ^ (e - 1))"

definition f64_value :: "f64 \<Rightarrow> int" where
  "f64_value b = (if unat b < 2 ^ 63 then 1 else - 1) * magnitude_value (unat b mod 2 ^ 63)"

lemma magnitude_value_parts:
  "f < 2 ^ 52 \<Longrightarrow> magnitude_value (e * 2 ^ 52 + f) = (if e = 0 then int f else (2 ^ 52 + int f) * 2 ^ (e - 1))"
  by (simp add: magnitude_value_def Let_def)

lemma magnitude_value_Suc: "magnitude_value m < magnitude_value (Suc m)"
proof -
  define e f where "e = m div 2 ^ 52" and "f = m mod 2 ^ 52"
  have m: "m = e * 2 ^ 52 + f" "f < 2 ^ 52" by (simp_all add: e_def f_def)
  show ?thesis
  proof (cases "Suc f < 2 ^ 52")
    case True
    then have "magnitude_value (Suc m) = (if e = 0 then int (Suc f) else (2 ^ 52 + int (Suc f)) * 2 ^ (e - 1))"
      using magnitude_value_parts [of "Suc f" e] m(1) by simp
    then show ?thesis using magnitude_value_parts [OF m(2), of e] m(1) by simp
  next
    case False
    then have f: "f = 2 ^ 52 - 1" using m(2) by simp
    then have s: "magnitude_value (Suc m) = 2 ^ 52 * 2 ^ e"
      using magnitude_value_parts [of 0 "Suc e"] m(1) by simp
    have "int f < 2 ^ 52" using f by simp
    then have "(2 ^ 52 + int f) * 2 ^ d < 2 ^ 53 * 2 ^ d" for d by simp
    then show ?thesis using magnitude_value_parts [OF m(2), of e] m(1) s f by (cases e) simp_all
  qed
qed

lemma magnitude_value_less: "magnitude_value m < magnitude_value n \<longleftrightarrow> m < n"
  by (rule strict_mono_less) (simp add: strict_mono_Suc_iff magnitude_value_Suc)

lemma magnitude_value_0: "magnitude_value 0 = 0"
  by (simp add: magnitude_value_def)

lemma magnitude_value_pos: "0 < m \<Longrightarrow> 0 < magnitude_value m"
  using magnitude_value_less [of 0 m] by (simp add: magnitude_value_0)

text \<open>The comparisons on patterns are those of the numbers.\<close>

lemma signed_magnitude_less:
  "(if p then int m else - int m) < (if q then int n else - int n) \<longleftrightarrow>
   (if p then 1 else - 1) * magnitude_value m < (if q then 1 else - 1) * magnitude_value n"
  using magnitude_value_pos [of m] magnitude_value_pos [of n] magnitude_value_less [of m n] magnitude_value_less [of n m]
  by (cases "m = 0"; cases "n = 0") (auto simp: magnitude_value_0)

lemma f64_key_value:
  "f64_key a < f64_key b \<longleftrightarrow> f64_value a < f64_value b" "f64_key a = f64_key b \<longleftrightarrow> f64_value a = f64_value b"
proof -
  have less: "f64_key a < f64_key b \<longleftrightarrow> f64_value a < f64_value b" for a b
    unfolding f64_key_def f64_value_def Let_def by (rule signed_magnitude_less)
  show "f64_key a < f64_key b \<longleftrightarrow> f64_value a < f64_value b" by (rule less)
  show "f64_key a = f64_key b \<longleftrightarrow> f64_value a = f64_value b"
    using less [of a b] less [of b a] by linarith
qed

text \<open>\<open>n as f64\<close> for an unsigned integer: round to nearest, ties to even.\<close>

fun bit_length :: "nat \<Rightarrow> nat" where
  "bit_length n = (if n = 0 then 0 else Suc (bit_length (n div 2)))"

declare bit_length.simps [simp del]

definition f64_bits_of_nat :: "nat \<Rightarrow> nat" where
  "f64_bits_of_nat n = (if n = 0 then 0 else
     (let e = bit_length n - 1 in
      if e \<le> 52 then (1023 + e) * 2 ^ 52 + (n * 2 ^ (52 - e) - 2 ^ 52)
      else (let d = 2 ^ (e - 52); q = n div d; r = n mod d;
                q' = (if d < 2 * r \<or> (2 * r = d \<and> odd q) then q + 1 else q)
            in (1023 + e) * 2 ^ 52 + (q' - 2 ^ 52))))"

definition f64_of_u64 :: "u64 \<Rightarrow> f64" where
  "f64_of_u64 n = of_nat (f64_bits_of_nat (unat n))"

definition f64_of_i64 :: "64 word \<Rightarrow> f64" where
  "f64_of_i64 n = (if 0 \<le> sint n then of_nat (f64_bits_of_nat (nat (sint n)))
     else of_nat (2 ^ 63 + f64_bits_of_nat (nat (- sint n))))"

section \<open>Values\<close>

datatype jnum = PosInt u64 | NegInt "64 word" | Float f64

datatype json =
    JNull
  | JBool bool
  | JNumber jnum
  | JString string
  | JArray "json list"
  | JObject "(string \<times> json) list"

type_synonym jmap = "json bt"

definition as_object :: "json \<Rightarrow> jmap option" where
  "as_object v = (case v of JObject m \<Rightarrow> Some m | _ \<Rightarrow> None)"

definition as_array :: "json \<Rightarrow> json list option" where
  "as_array v = (case v of JArray xs \<Rightarrow> Some xs | _ \<Rightarrow> None)"

definition as_str :: "json \<Rightarrow> string option" where
  "as_str v = (case v of JString s \<Rightarrow> Some s | _ \<Rightarrow> None)"

definition as_u64 :: "json \<Rightarrow> u64 option" where
  "as_u64 v = (case v of JNumber (PosInt n) \<Rightarrow> Some n | _ \<Rightarrow> None)"

definition as_f64 :: "json \<Rightarrow> f64 option" where
  "as_f64 v = (case v of
       JNumber (PosInt n) \<Rightarrow> Some (f64_of_u64 n)
     | JNumber (NegInt n) \<Rightarrow> Some (f64_of_i64 n)
     | JNumber (Float b) \<Rightarrow> Some b
     | _ \<Rightarrow> None)"

definition is_object :: "json \<Rightarrow> bool" where
  "is_object v = (case v of JObject _ \<Rightarrow> True | _ \<Rightarrow> False)"

definition is_string :: "json \<Rightarrow> bool" where
  "is_string v = (case v of JString _ \<Rightarrow> True | _ \<Rightarrow> False)"

definition is_number :: "json \<Rightarrow> bool" where
  "is_number v = (case v of JNumber _ \<Rightarrow> True | _ \<Rightarrow> False)"

definition is_boolean :: "json \<Rightarrow> bool" where
  "is_boolean v = (case v of JBool _ \<Rightarrow> True | _ \<Rightarrow> False)"

text \<open>\<open>Value::get(key)\<close>: \<open>None\<close> on anything but an object.\<close>

definition jget :: "json \<Rightarrow> string \<Rightarrow> json option" where
  "jget v k = (case v of JObject m \<Rightarrow> bt_get m k | _ \<Rightarrow> None)"

lemmas json_accessors = as_object_def as_array_def as_str_def as_u64_def as_f64_def
  is_object_def is_string_def is_number_def is_boolean_def jget_def

lemma as_object_eq_Some [simp]: "as_object v = Some m \<longleftrightarrow> v = JObject m"
  by (auto simp: as_object_def split: json.splits)

lemma as_object_eq_None: "as_object v = None \<longleftrightarrow> \<not> is_object v"
  by (simp add: as_object_def is_object_def split: json.splits)

lemma as_array_eq_Some [simp]: "as_array v = Some xs \<longleftrightarrow> v = JArray xs"
  by (auto simp: as_array_def split: json.splits)

lemma as_str_eq_Some [simp]: "as_str v = Some s \<longleftrightarrow> v = JString s"
  by (auto simp: as_str_def split: json.splits)

lemma as_u64_eq_Some [simp]: "as_u64 v = Some n \<longleftrightarrow> v = JNumber (PosInt n)"
  by (auto simp: as_u64_def split: json.splits jnum.splits)

lemma json_constructor_accessors [simp]:
  "as_object (JObject m) = Some m" "as_array (JArray xs) = Some xs" "as_str (JString s) = Some s"
  "is_object (JObject m)" "\<not> is_object JNull" "\<not> is_object (JBool b)" "\<not> is_object (JNumber n)"
  "\<not> is_object (JString s)" "\<not> is_object (JArray xs)"
  by (simp_all add: json_accessors)

text \<open>The number of nodes of a value: the measure of the walks over a layout.\<close>

fun jsize :: "json \<Rightarrow> nat" where
  "jsize (JArray xs) = Suc (sum_list (map jsize xs))"
| "jsize (JObject m) = Suc (sum_list (map (\<lambda>kv. jsize (snd kv)) m))"
| "jsize _ = 1"

lemma jsize_pos [simp]: "0 < jsize v"
  by (cases v) auto

lemma jsize_get: "bt_get m k = Some v \<Longrightarrow> jsize v < jsize (JObject m)"
  by (induction m) (auto split: if_splits)

lemma jsize_get2:
  "bt_get m k = Some v \<Longrightarrow> bt_get m k' = Some v' \<Longrightarrow> k \<noteq> k' \<Longrightarrow> jsize v + jsize v' < jsize (JObject m)"
proof (induction m)
  case (Cons kv m)
  obtain a b where "kv = (a, b)" by fastforce
  with Cons show ?case
    using jsize_get [of m k v] jsize_get [of m k' v'] by (auto split: if_splits)
qed simp

text \<open>Every object of a value, at any depth, has strictly increasing keys.\<close>

fun json_wf :: "json \<Rightarrow> bool" where
  "json_wf (JArray xs) = list_all json_wf xs"
| "json_wf (JObject m) = (bt_wf m \<and> list_all (\<lambda>kv. json_wf (snd kv)) m)"
| "json_wf (JNumber (NegInt n)) = (sint n < 0)"
| "json_wf (JNumber (Float b)) = f64_is_finite b"
| "json_wf _ = True"

text \<open>
  \<open>==\<close> on values: numbers are equal when they have the same representation and are equal in it,
  which for doubles is equality of numbers, not of patterns.
\<close>

fun jnum_eq :: "jnum \<Rightarrow> jnum \<Rightarrow> bool" where
  "jnum_eq (PosInt m) (PosInt n) = (m = n)"
| "jnum_eq (NegInt m) (NegInt n) = (m = n)"
| "jnum_eq (Float a) (Float b) = f64_eq a b"
| "jnum_eq _ _ = False"

fun json_eq :: "json \<Rightarrow> json \<Rightarrow> bool" where
  "json_eq JNull JNull = True"
| "json_eq (JBool a) (JBool b) = (a = b)"
| "json_eq (JNumber m) (JNumber n) = jnum_eq m n"
| "json_eq (JString s) (JString t) = (s = t)"
| "json_eq (JArray xs) (JArray ys) = list_all2 json_eq xs ys"
| "json_eq (JObject m) (JObject n) = list_all2 (\<lambda>p q. fst p = fst q \<and> json_eq (snd p) (snd q)) m n"
| "json_eq _ _ = False"

text \<open>The same as a relation, with doubles compared as the numbers they stand for.\<close>

inductive same_value :: "json \<Rightarrow> json \<Rightarrow> bool" where
  same_null: "same_value JNull JNull"
| same_bool: "same_value (JBool b) (JBool b)"
| same_string: "same_value (JString s) (JString s)"
| same_unsigned: "same_value (JNumber (PosInt n)) (JNumber (PosInt n))"
| same_negative: "same_value (JNumber (NegInt n)) (JNumber (NegInt n))"
| same_double: "\<not> f64_is_nan a \<Longrightarrow> \<not> f64_is_nan b \<Longrightarrow> f64_value a = f64_value b
    \<Longrightarrow> same_value (JNumber (Float a)) (JNumber (Float b))"
| same_array: "list_all2 same_value xs ys \<Longrightarrow> same_value (JArray xs) (JArray ys)"
| same_object: "list_all2 (\<lambda>p q. fst p = fst q \<and> same_value (snd p) (snd q)) m n
    \<Longrightarrow> same_value (JObject m) (JObject n)"

inductive_simps same_value_simps:
  "same_value JNull w" "same_value (JBool b) w" "same_value (JString s) w" "same_value (JNumber n) w"
  "same_value (JArray xs) w" "same_value (JObject m) w"

lemma json_eq_same_value: "json_eq v w \<longleftrightarrow> same_value v w"
proof (induction v w rule: json_eq.induct)
  case (3 m n)
  then show ?case
    by (cases m; cases n) (auto simp: same_value_simps f64_eq_def f64_key_value(2))
next
  case (5 xs ys)
  then have "list_all2 json_eq xs ys \<longleftrightarrow> list_all2 same_value xs ys" by (intro list.rel_cong refl) simp
  then show ?case by (simp add: same_value_simps)
next
  case (6 m n)
  then have "list_all2 (\<lambda>p q. fst p = fst q \<and> json_eq (snd p) (snd q)) m n \<longleftrightarrow>
      list_all2 (\<lambda>p q. fst p = fst q \<and> same_value (snd p) (snd q)) m n"
    by (intro list.rel_cong refl) simp
  then show ?case by (simp add: same_value_simps)
qed (auto simp: same_value_simps)

text \<open>\<open>jnat\<close> builds the literals the program writes.\<close>

definition jnat :: "nat \<Rightarrow> json" where
  "jnat n = JNumber (PosInt (of_nat n))"

section \<open>Code outside the repository\<close>

text \<open>
  \<^item> \<open>to_vec\<close>, \<open>from_slice\<close>: serde\_json's printer and parser (\<open>Inl\<close> carries the error text);
  \<^item> \<open>from_slice_typed T\<close>: the same parser driving the reader of a type \<open>T\<close> directly; \<open>Inr\<close> gives the
    value that reader sees, \<open>Inl\<close> a syntax error or a repeated field of \<open>T\<close>;
  \<^item> \<open>other_struct T v\<close>: serde reads a struct \<open>T\<close> from a map; for any other shape of \<open>v\<close> this says
    which map, if any, serde treats \<open>v\<close> as;
  \<^item> \<open>other_tag T v\<close>: the same for an enum tag that is not a string;
  \<^item> \<open>de_error T v\<close>: serde's error text when reading a \<open>T\<close> from \<open>v\<close> fails;
  \<^item> \<open>show_f64\<close>: \<open>Display\<close> of a double;
  \<^item> \<open>sha256\<close>: the digest of the \<open>sha2\<close> crate.
\<close>

record platform =
  to_vec :: "json \<Rightarrow> string"
  from_slice :: "string \<Rightarrow> string + json"
  from_slice_typed :: "string \<Rightarrow> string \<Rightarrow> string + json"
  other_struct :: "string \<Rightarrow> json \<Rightarrow> jmap option"
  other_tag :: "string \<Rightarrow> json \<Rightarrow> string option"
  de_error :: "string \<Rightarrow> json \<Rightarrow> string"
  show_f64 :: "f64 \<Rightarrow> string"
  sha256 :: "string \<Rightarrow> u8 list"

text \<open>
  What the program relies on. serde\_json documents that printing and parsing a value gives the
  value back, except that floats may lose their last bit (no \<open>float_roundtrip\<close> feature) and that
  nesting beyond 127 levels is refused; a SHA-256 digest has 32 bytes.
\<close>

fun jdepth :: "json \<Rightarrow> nat" where
  "jdepth (JArray xs) = Suc (foldr (\<lambda>v n. max (jdepth v) n) xs 0)"
| "jdepth (JObject m) = Suc (foldr (\<lambda>kv n. max (jdepth (snd kv)) n) m 0)"
| "jdepth _ = 0"

fun no_floats :: "json \<Rightarrow> bool" where
  "no_floats (JArray xs) = list_all no_floats xs"
| "no_floats (JObject m) = list_all (\<lambda>kv. no_floats (snd kv)) m"
| "no_floats (JNumber (Float b)) = False"
| "no_floats _ = True"

text \<open>On values without doubles \<open>==\<close> is equality.\<close>

lemma same_value_no_floats: "same_value v w \<Longrightarrow> no_floats v \<Longrightarrow> v = w"
proof (induction rule: same_value.induct)
  case (same_array xs ys)
  then show ?case by (auto simp: list_all2_conv_all_nth list_all_length intro!: nth_equalityI)
next
  case (same_object m n)
  then show ?case by (auto simp: list_all2_conv_all_nth list_all_length prod_eq_iff intro!: nth_equalityI)
qed simp_all

lemma same_value_refl: "no_floats v \<Longrightarrow> same_value v v"
proof (induction v rule: no_floats.induct)
  case (1 xs)
  then show ?case by (auto intro!: same_array simp: list_all2_same list_all_iff)
next
  case (2 m)
  then show ?case by (auto intro!: same_object simp: list_all2_same list_all_iff)
qed (simp_all add: same_value_simps)

definition wire_safe :: "json \<Rightarrow> bool" where
  "wire_safe v \<longleftrightarrow> json_wf v \<and> no_floats v \<and> jdepth v \<le> 127"

definition json_text_ok :: "platform \<Rightarrow> bool" where
  "json_text_ok P \<longleftrightarrow> (\<forall>v. wire_safe v \<longrightarrow>
     from_slice P (to_vec P v) = Inr v \<and> (\<forall>T. from_slice_typed P T (to_vec P v) = Inr v))"

definition sha256_ok :: "platform \<Rightarrow> bool" where
  "sha256_ok P \<longleftrightarrow> (\<forall>s. length (sha256 P s) = 32)"

end
