(* ===== verification/Errors.thy ===== *)
theory Errors
  imports Json
begin

text \<open>
  \<open>errors.rs\<close>: the closed taxonomy of wire error codes and the protocol crate's error type, with
  the renaming rules of serde that fix the wire spelling of an enum's variants.
\<close>

section \<open>serde's \<open>rename_all\<close> rules\<close>

definition to_ascii_lowercase :: "char \<Rightarrow> char" where
  "to_ascii_lowercase c = (if CHR ''A'' \<le> c \<and> c \<le> CHR ''Z'' then char_of (of_char c + (32 :: int)) else c)"

definition to_ascii_uppercase :: "char \<Rightarrow> char" where
  "to_ascii_uppercase c = (if is_ascii_lowercase c then char_of (of_char c - (32 :: int)) else c)"

definition is_ascii_uppercase :: "char \<Rightarrow> bool" where
  "is_ascii_uppercase c \<longleftrightarrow> CHR ''A'' \<le> c \<and> c \<le> CHR ''Z''"

fun snake_tail :: "string \<Rightarrow> string" where
  "snake_tail [] = []"
| "snake_tail (c # cs) =
     (if is_ascii_uppercase c then [CHR ''_'', to_ascii_lowercase c] else [c]) @ snake_tail cs"

definition snake_case :: "string \<Rightarrow> string" where
  "snake_case s = (case s of [] \<Rightarrow> [] | c # cs \<Rightarrow> to_ascii_lowercase c # snake_tail cs)"

definition screaming_snake_case :: "string \<Rightarrow> string" where
  "screaming_snake_case s = map to_ascii_uppercase (snake_case s)"

definition kebab_case :: "string \<Rightarrow> string" where
  "kebab_case s = map (\<lambda>c. if c = CHR ''_'' then CHR ''-'' else c) (snake_case s)"

lemmas rename_defs = snake_case_def screaming_snake_case_def kebab_case_def
  to_ascii_lowercase_def to_ascii_uppercase_def is_ascii_uppercase_def is_ascii_lowercase_def

section \<open>Error codes\<close>

datatype ErrorCode =
    AuthDenied | WriteForbidden | SceneNotFound | BundleFetchFailed | BundleIncompatible
  | VersionGap | VersionMismatch | UnknownPath | InvalidValue | RateLimit
  | TestSessionExpired | Internal

fun default_recoverable :: "ErrorCode \<Rightarrow> bool" where
  "default_recoverable WriteForbidden = True"
| "default_recoverable BundleFetchFailed = True"
| "default_recoverable VersionGap = True"
| "default_recoverable UnknownPath = True"
| "default_recoverable InvalidValue = True"
| "default_recoverable RateLimit = True"
| "default_recoverable AuthDenied = False"
| "default_recoverable SceneNotFound = False"
| "default_recoverable BundleIncompatible = False"
| "default_recoverable VersionMismatch = False"
| "default_recoverable TestSessionExpired = False"
| "default_recoverable Internal = False"

fun as_wire_str :: "ErrorCode \<Rightarrow> string" where
  "as_wire_str AuthDenied = ''AUTH_DENIED''"
| "as_wire_str WriteForbidden = ''WRITE_FORBIDDEN''"
| "as_wire_str SceneNotFound = ''SCENE_NOT_FOUND''"
| "as_wire_str BundleFetchFailed = ''BUNDLE_FETCH_FAILED''"
| "as_wire_str BundleIncompatible = ''BUNDLE_INCOMPATIBLE''"
| "as_wire_str VersionGap = ''VERSION_GAP''"
| "as_wire_str VersionMismatch = ''VERSION_MISMATCH''"
| "as_wire_str UnknownPath = ''UNKNOWN_PATH''"
| "as_wire_str InvalidValue = ''INVALID_VALUE''"
| "as_wire_str RateLimit = ''RATE_LIMIT''"
| "as_wire_str TestSessionExpired = ''TEST_SESSION_EXPIRED''"
| "as_wire_str Internal = ''INTERNAL''"

text \<open>The identifiers of the variants, which the derived implementations rename.\<close>

fun error_code_ident :: "ErrorCode \<Rightarrow> string" where
  "error_code_ident AuthDenied = ''AuthDenied''"
| "error_code_ident WriteForbidden = ''WriteForbidden''"
| "error_code_ident SceneNotFound = ''SceneNotFound''"
| "error_code_ident BundleFetchFailed = ''BundleFetchFailed''"
| "error_code_ident BundleIncompatible = ''BundleIncompatible''"
| "error_code_ident VersionGap = ''VersionGap''"
| "error_code_ident VersionMismatch = ''VersionMismatch''"
| "error_code_ident UnknownPath = ''UnknownPath''"
| "error_code_ident InvalidValue = ''InvalidValue''"
| "error_code_ident RateLimit = ''RateLimit''"
| "error_code_ident TestSessionExpired = ''TestSessionExpired''"
| "error_code_ident Internal = ''Internal''"

definition error_codes :: "ErrorCode list" where
  "error_codes = [AuthDenied, WriteForbidden, SceneNotFound, BundleFetchFailed, BundleIncompatible,
     VersionGap, VersionMismatch, UnknownPath, InvalidValue, RateLimit, TestSessionExpired, Internal]"

lemma error_codes_complete [simp]: "c \<in> set error_codes"
  by (cases c) (simp_all add: error_codes_def)

text \<open>The derived \<open>Serialize\<close> and \<open>Deserialize\<close>, from the renamed identifiers.\<close>

definition ser_error_code :: "ErrorCode \<Rightarrow> string" where
  "ser_error_code c = screaming_snake_case (error_code_ident c)"

definition de_error_code :: "string \<Rightarrow> ErrorCode option" where
  "de_error_code s = find (\<lambda>c. ser_error_code c = s) error_codes"

text \<open>The derived spelling is the one \<open>as_wire_str\<close> writes out by hand.\<close>

lemma ser_error_code_wire: "ser_error_code c = as_wire_str c"
proof -
  have "list_all (\<lambda>c. ser_error_code c = as_wire_str c) error_codes"
    by code_simp
  then show ?thesis by (simp add: list_all_iff)
qed

lemma de_error_code_wire: "de_error_code (as_wire_str c) = Some c"
  by (cases c) (simp_all add: de_error_code_def ser_error_code_wire error_codes_def)

lemma as_wire_str_inj: "as_wire_str c = as_wire_str d \<Longrightarrow> c = d"
  by (metis de_error_code_wire option.inject)

lemma de_error_code_eq_Some: "de_error_code s = Some c \<longleftrightarrow> s = as_wire_str c"
  by (auto simp: de_error_code_wire)
    (auto simp: de_error_code_def find_Some_iff ser_error_code_wire)

section \<open>The protocol crate's errors\<close>

datatype LumencastError =
    LJson string
  | LInvalidEnvelope string
  | LVersionMismatch u64
  | LSequenceGap u64 u64
  | LInvalidValue ErrorCode string "string option"

definition invalid_value :: "string \<Rightarrow> LumencastError" where
  "invalid_value message = LInvalidValue InvalidValue message None"

definition invalid_value_at :: "string \<Rightarrow> string \<Rightarrow> LumencastError" where
  "invalid_value_at path message = LInvalidValue InvalidValue message (Some path)"

text \<open>\<open>Display\<close>, as the \<open>#[error(...)]\<close> attributes give it.\<close>

fun show_lumencast_error :: "LumencastError \<Rightarrow> string" where
  "show_lumencast_error (LJson e) = ''invalid JSON: '' @ e"
| "show_lumencast_error (LInvalidEnvelope e) = ''invalid envelope: '' @ e"
| "show_lumencast_error (LVersionMismatch got) =
     ''version mismatch: expected v=1, got v='' @ show_nat (unat got)"
| "show_lumencast_error (LSequenceGap expected got) =
     ''sequence gap: expected seq='' @ show_nat (unat expected) @ '', got seq='' @ show_nat (unat got)"
| "show_lumencast_error (LInvalidValue _ message _) = ''invalid value: '' @ message"

end
