(* ===== verification/Leaf_Path.thy ===== *)
theory Leaf_Path
  imports Errors
begin

text \<open>
  \<open>leaf_path.rs\<close>: dot-separated leaf paths, their validation, namespaces, the prefix test that the
  role checks use, and placeholder substitution. A \<open>LeafPath\<close> is its string.
\<close>

section \<open>Namespaces\<close>

datatype Namespace = Inputs | System | Test | Schema | User

definition namespace_of :: "string \<Rightarrow> Namespace" where
  "namespace_of path = (case strip_prefix ''__'' path of
      Some rest \<Rightarrow>
        (let head = hd (split_on CHR ''.'' rest) in
         if head = ''inputs'' then Inputs
         else if head = ''system'' then System
         else if head = ''test'' then Test
         else if head = ''schema'' then Schema
         else User)
    | None \<Rightarrow> User)"

section \<open>Validation\<close>

type_synonym LeafPath = string

definition invalid_path :: "string \<Rightarrow> LumencastError" where
  "invalid_path msg = LInvalidValue InvalidValue (''invalid leaf path: '' @ msg) None"

definition is_ident_byte :: "char \<Rightarrow> bool" where
  "is_ident_byte b \<longleftrightarrow> is_ascii_alphanumeric b \<or> b = CHR ''_''"

definition is_identifier :: "string \<Rightarrow> bool" where
  "is_identifier seg = (case seg of
      [] \<Rightarrow> False
    | first # bytes \<Rightarrow>
        (if \<not> (is_ascii_alphabetic first \<or> first = CHR ''_'') then False
         else list_all is_ident_byte bytes))"

definition is_index :: "string \<Rightarrow> bool" where
  "is_index seg \<longleftrightarrow> seg \<noteq> [] \<and> list_all is_ascii_digit seg"

definition is_segment_token :: "string \<Rightarrow> bool" where
  "is_segment_token seg \<longleftrightarrow> is_index seg \<or> is_identifier seg"

definition is_scope_placeholder :: "string \<Rightarrow> bool" where
  "is_scope_placeholder seg \<longleftrightarrow>
     starts_with ''{'' seg \<and> ends_with ''}'' seg \<and> 2 \<le> length seg"

text \<open>The loop over \<open>s.split('.').enumerate()\<close>, with the index of the first segment given.\<close>

fun validate_segments :: "nat \<Rightarrow> string list \<Rightarrow> LumencastError + unit" where
  "validate_segments i [] = Inr ()"
| "validate_segments i (segment # rest) =
     (if segment = [] then Inl (invalid_path ''empty segment (consecutive dots)'')
      else if is_scope_placeholder segment then
        (let inner = take (length segment - 2) (drop 1 segment) in
         if inner = [] \<or> \<not> list_all is_ident_byte inner
         then Inl (invalid_path ''scope placeholder must wrap a non-empty identifier'')
         else validate_segments (Suc i) rest)
      else if i = 0 \<and> starts_with ''__'' segment then
        (let head = drop 2 segment in
         if head = [] \<or> \<not> is_identifier head
         then Inl (invalid_path ''reserved namespace head is invalid'')
         else validate_segments (Suc i) rest)
      else if \<not> is_segment_token segment
      then Inl (invalid_path (''invalid segment: '' @ debug_str segment))
      else validate_segments (Suc i) rest)"

definition validate_path :: "string \<Rightarrow> LumencastError + unit" where
  "validate_path s =
     (if s = [] then Inl (invalid_path ''empty leaf path'')
      else validate_segments 0 (split_on CHR ''.'' s))"

definition leaf_path_parse :: "string \<Rightarrow> LumencastError + LeafPath" where
  "leaf_path_parse s = bindE (validate_path s) (\<lambda>_. Inr s)"

section \<open>Prefixes and placeholders\<close>

definition starts_with_prefix :: "LeafPath \<Rightarrow> string \<Rightarrow> bool" where
  "starts_with_prefix path pre =
     (if path = pre then True
      else (case strip_prefix pre path of
              Some rest \<Rightarrow> starts_with ''.'' rest
            | None \<Rightarrow> False))"

definition has_scope :: "LeafPath \<Rightarrow> bool" where
  "has_scope path \<longleftrightarrow> CHR ''{'' \<in> set path"

definition needle :: "string \<Rightarrow> string" where
  "needle name = ''{'' @ name @ ''}''"

definition substitute :: "LeafPath \<Rightarrow> (string \<times> string) list \<Rightarrow> LeafPath" where
  "substitute path bindings =
     fold (\<lambda>(name, replacement) out. replace_str (needle name) replacement out) bindings path"

section \<open>What the parser accepts\<close>

text \<open>
  The segments the loop lets through, with the code's own tests on bytes: a placeholder around
  identifier bytes, a reserved head (only in first position), an array index, or an identifier.
\<close>

definition placeholder_seg :: "string \<Rightarrow> bool" where
  "placeholder_seg seg \<longleftrightarrow> (\<exists>n. seg = needle n \<and> n \<noteq> [] \<and> list_all is_ident_byte n)"

definition valid_seg :: "bool \<Rightarrow> string \<Rightarrow> bool" where
  "valid_seg first seg \<longleftrightarrow>
     placeholder_seg seg
     \<or> (if first \<and> starts_with ''__'' seg then is_identifier (drop 2 seg)
        else is_segment_token seg)"

definition valid_path :: "string \<Rightarrow> bool" where
  "valid_path s \<longleftrightarrow>
     valid_seg True (hd (split_on CHR ''.'' s))
     \<and> list_all (valid_seg False) (tl (split_on CHR ''.'' s))"

lemma ident_byte_not_special [simp]:
  "\<not> is_ident_byte CHR ''.''" "\<not> is_ident_byte CHR ''{''" "\<not> is_ident_byte CHR ''}''"
  "\<not> is_ident_byte CHR ''$''"
  by (simp_all add: is_ident_byte_def ascii_defs less_eq_char_def)

lemma identifier_bytes: "is_identifier seg \<Longrightarrow> list_all is_ident_byte seg \<and> seg \<noteq> []"
  by (auto simp: is_identifier_def is_ident_byte_def is_ascii_alphanumeric_def
      split: list.splits if_splits)

lemma index_bytes: "is_index seg \<Longrightarrow> list_all is_ident_byte seg \<and> seg \<noteq> []"
  by (auto simp: is_index_def is_ident_byte_def is_ascii_alphanumeric_def elim: list.pred_mono_strong)

lemma token_bytes: "is_segment_token seg \<Longrightarrow> list_all is_ident_byte seg \<and> seg \<noteq> []"
  using identifier_bytes index_bytes by (auto simp: is_segment_token_def)

lemma scope_placeholder_iff: "is_scope_placeholder seg \<longleftrightarrow> (\<exists>n. seg = needle n)"
proof
  assume "is_scope_placeholder seg"
  then have "\<exists>r. seg = CHR ''{'' # r" "\<exists>q. seg = q @ ''}''" "2 \<le> length seg"
    by (simp_all add: is_scope_placeholder_def starts_with_iff ends_with_iff)
  then obtain r q where "seg = CHR ''{'' # r" "seg = q @ ''}''" "2 \<le> length seg" by blast
  then show "\<exists>n. seg = needle n"
    by (cases q) (auto simp: needle_def)
qed (auto simp: is_scope_placeholder_def needle_def starts_with_iff ends_with_iff)

lemma needle_parts [simp]:
  "length (needle n) = Suc (Suc (length n))" "drop (Suc 0) (needle n) = n @ ''}''"
  by (simp_all add: needle_def)

lemma needle_not_token: "\<not> is_segment_token (needle n)" "\<not> starts_with ''__'' (needle n)"
  using token_bytes [of "needle n"] by (auto simp: needle_def starts_with_iff)

lemma needle_inject [simp]: "needle m = needle n \<longleftrightarrow> m = n"
  by (simp add: needle_def)

lemma needle_nonempty [simp]: "needle n \<noteq> []" "[] \<noteq> needle n"
  by (simp_all add: needle_def)

lemma validate_segments_step:
  "is_ok (validate_segments i (seg # segs)) \<longleftrightarrow> valid_seg (i = 0) seg \<and> is_ok (validate_segments (Suc i) segs)"
proof (cases "is_scope_placeholder seg")
  case True
  then obtain n where n: "seg = needle n" by (auto simp: scope_placeholder_iff)
  have "valid_seg (i = 0) seg \<longleftrightarrow> n \<noteq> [] \<and> list_all is_ident_byte n"
    by (auto simp: valid_seg_def placeholder_seg_def n needle_not_token)
  with True show ?thesis unfolding n by simp
next
  case False
  then have "\<not> placeholder_seg seg" by (auto simp: placeholder_seg_def scope_placeholder_iff)
  with False show ?thesis
    using token_bytes [of seg] identifier_bytes [of "drop 2 seg"]
    by (auto simp: valid_seg_def Let_def starts_with_iff)
qed

lemma validate_segments_later:
  "is_ok (validate_segments (Suc i) segs) \<longleftrightarrow> list_all (valid_seg False) segs"
proof (induction segs arbitrary: i)
  case (Cons seg segs)
  then show ?case by (simp add: validate_segments_step del: validate_segments.simps)
qed simp

lemma validate_path_ok: "is_ok (validate_path s) \<longleftrightarrow> valid_path s"
proof (cases "s = []")
  case True
  then show ?thesis
    by (simp add: validate_path_def valid_path_def valid_seg_def placeholder_seg_def
        is_segment_token_def is_index_def is_identifier_def starts_with_def)
next
  case False
  obtain seg segs where "split_on CHR ''.'' s = seg # segs"
    by (cases "split_on CHR ''.'' s") auto
  with False show ?thesis
    by (simp add: validate_path_def valid_path_def validate_segments_step validate_segments_later
        del: validate_segments.simps)
qed

lemma leaf_path_parse_ok: "leaf_path_parse s = Inr p \<longleftrightarrow> valid_path s \<and> p = s"
  using validate_path_ok [of s] by (cases "validate_path s") (auto simp: leaf_path_parse_def)

lemma leaf_path_parse_valid [simp]: "valid_path s \<Longrightarrow> leaf_path_parse s = Inr s"
  by (simp add: leaf_path_parse_ok)

lemma leaf_path_parse_invalid: "\<not> valid_path s \<Longrightarrow> \<exists>m. leaf_path_parse s = Inl (invalid_path m)"
proof -
  have seg: "validate_segments i segs = Inl e \<Longrightarrow> \<exists>m. e = invalid_path m" for i segs e
    by (induction i segs rule: validate_segments.induct) (auto simp: Let_def split: if_splits)
  assume "\<not> valid_path s"
  then obtain e where e: "validate_path s = Inl e"
    using validate_path_ok [of s] by (cases "validate_path s") auto
  then have "\<exists>m. e = invalid_path m"
    by (auto simp: validate_path_def split: if_splits dest: seg)
  with e show ?thesis by (auto simp: leaf_path_parse_def)
qed

lemma valid_seg_weaken: "valid_seg True seg \<Longrightarrow> valid_seg False seg"
proof -
  have "is_segment_token seg" if "starts_with ''__'' seg" "is_identifier (drop 2 seg)"
    using that identifier_bytes [OF that(2)]
    by (auto simp: starts_with_iff is_segment_token_def is_identifier_def is_ident_byte_def)
  then show "valid_seg True seg \<Longrightarrow> valid_seg False seg"
    by (auto simp: valid_seg_def split: if_splits)
qed

lemma valid_path_segs: "valid_path s \<Longrightarrow> seg \<in> set (split_on CHR ''.'' s) \<Longrightarrow> valid_seg False seg"
  by (cases "split_on CHR ''.'' s")
    (auto simp: valid_path_def list_all_iff dest: valid_seg_weaken)

section \<open>Substitution, segment by segment\<close>

lemma starts_with_before_sep:
  "c \<notin> set p \<Longrightarrow> starts_with p (s @ c # r) \<longleftrightarrow> starts_with p s"
proof (induction p arbitrary: s)
  case (Cons x p)
  then show ?case by (cases s) (auto simp: starts_with_def)
qed (simp add: starts_with_def)

lemma replace_str_sep:
  assumes "c \<notin> set p" "p \<noteq> []"
  shows "replace_str p t (s @ c # r) = replace_str p t s @ c # replace_str p t r"
  using assms
proof (induction p t s rule: replace_str.induct)
  case (1 p t)
  then have "\<not> starts_with p (c # r)" by (cases p) (auto simp: starts_with_def)
  with 1 show ?case by (simp add: replace_str.simps(2))
next
  case (2 p t x cs)
  note sw = starts_with_before_sep [OF 2(4), of "x # cs" r, simplified]
  show ?case
  proof (cases "starts_with p (x # cs)")
    case True
    then obtain u where "x # cs = p @ u" by (auto simp: starts_with_iff)
    then have "length p + length u = Suc (length cs)" by (metis length_Cons length_append)
    then have "length p - 1 \<le> length cs" by simp
    with True 2 sw show ?thesis by (simp add: replace_str.simps(2))
  next
    case False
    with 2 sw show ?thesis by (simp add: replace_str.simps(2))
  qed
qed

lemma replace_str_join:
  assumes "c \<notin> set p" "p \<noteq> []" "ss \<noteq> []"
  shows "replace_str p t (join_with c ss) = join_with c (map (replace_str p t) ss)"
  using assms
proof (induction c ss rule: join_with.induct)
  case (3 c s u us)
  then show ?case by (simp add: replace_str_sep)
qed simp_all

lemma replace_str_no_match: "\<not> contains_str p s \<Longrightarrow> replace_str p t s = s"
proof (induction s)
  case (Cons c cs)
  then show ?case by (cases p) (auto simp: replace_str.simps(2) starts_with_def)
qed simp

lemma replace_str_self: "p \<noteq> [] \<Longrightarrow> replace_str p t p = t"
  by (cases p) (simp_all add: replace_str.simps(2) starts_with_def)

lemma contains_needle_bytes:
  "list_all is_ident_byte s \<Longrightarrow> \<not> contains_str (needle n) s"
proof
  assume ok: "list_all is_ident_byte s" and "contains_str (needle n) s"
  then have "set (needle n) \<subseteq> set s" by (simp add: contains_str_iff set_mono_sublist)
  then have "is_ident_byte CHR ''{''" using ok by (auto simp: needle_def list_all_iff)
  then show False by simp
qed

lemma contains_needle_needle:
  assumes "list_all is_ident_byte m" "list_all is_ident_byte n"
  shows "contains_str (needle n) (needle m) \<longleftrightarrow> m = n"
proof
  assume "contains_str (needle n) (needle m)"
  then have "\<exists>a b. needle m = a @ needle n @ b" by (simp add: contains_str_iff sublist_def)
  then obtain a b where eq: "CHR ''{'' # m @ ''}'' = a @ CHR ''{'' # n @ CHR ''}'' # b"
    by (simp add: needle_def) blast
  have nb: "CHR ''{'' \<notin> set (m @ ''}'')" "CHR ''}'' \<notin> set m" "CHR ''}'' \<notin> set n"
    using assms by (auto simp: list_all_iff)
  have "a = []"
  proof (cases a)
    case (Cons x xs)
    with eq have "m @ ''}'' = xs @ CHR ''{'' # n @ CHR ''}'' # b" by simp
    then have "CHR ''{'' \<in> set (m @ ''}'')" by (metis in_set_conv_decomp)
    with nb show ?thesis by blast
  qed
  with eq have "m @ CHR ''}'' # [] = n @ CHR ''}'' # b" by simp
  with nb show "m = n" by (simp add: append_Cons_eq_iff)
qed (simp add: contains_str_iff)

lemma replace_needle_seg:
  assumes "valid_seg False seg" "list_all is_ident_byte n"
  shows "replace_str (needle n) t seg = (if seg = needle n then t else seg)"
proof (cases "placeholder_seg seg")
  case True
  then obtain m where "seg = needle m" "list_all is_ident_byte m"
    by (auto simp: placeholder_seg_def)
  with assms show ?thesis
    by (auto simp: replace_str_self contains_needle_needle replace_str_no_match)
next
  case False
  with assms have "list_all is_ident_byte seg"
    using token_bytes by (auto simp: valid_seg_def)
  then show ?thesis
    using contains_needle_bytes [of seg n]
    by (auto simp: replace_str_no_match contains_str_iff)
qed

section \<open>The grammar of leaf paths\<close>

text \<open>
  The grammar, written out over character sets and independently of the parser's helpers. Segments
  are separated by dots. The first one is no plain identifier when it begins with two underscores:
  it is then a reserved head, which has an identifier behind them.
\<close>

inductive ident :: "string \<Rightarrow> bool" where
  ident_start: "c \<in> letters \<union> {CHR ''_''} \<Longrightarrow> ident [c]"
| ident_more: "ident w \<Longrightarrow> c \<in> letters \<union> digits \<union> {CHR ''_''} \<Longrightarrow> ident (w @ [c])"

inductive leaf_segment :: "bool \<Rightarrow> string \<Rightarrow> bool" where
  seg_index: "ds \<noteq> [] \<Longrightarrow> set ds \<subseteq> digits \<Longrightarrow> leaf_segment first ds"
| seg_ident: "ident w \<Longrightarrow> \<not> (first \<and> take 2 w = ''__'') \<Longrightarrow> leaf_segment first w"
| seg_reserved: "ident w \<Longrightarrow> leaf_segment True (''__'' @ w)"
| seg_scope: "w \<noteq> [] \<Longrightarrow> set w \<subseteq> letters \<union> digits \<union> {CHR ''_''} \<Longrightarrow> leaf_segment first (''{'' @ w @ ''}'')"

inductive leaf_grammar :: "string \<Rightarrow> bool" where
  path_first: "leaf_segment True w \<Longrightarrow> leaf_grammar w"
| path_more: "leaf_grammar p \<Longrightarrow> leaf_segment False w \<Longrightarrow> leaf_grammar (p @ ''.'' @ w)"

lemma is_ident_byte_class: "is_ident_byte c \<longleftrightarrow> c \<in> letters \<union> digits \<union> {CHR ''_''}"
  by (auto simp: is_ident_byte_def is_ascii_alphanumeric_def ascii_classes)

lemma ident_iff: "ident w \<longleftrightarrow> is_identifier w"
proof
  show "ident w \<Longrightarrow> is_identifier w"
    by (induction rule: ident.induct)
      (auto simp: is_identifier_def ascii_classes is_ident_byte_class split: list.splits if_splits)
  show "is_identifier w \<Longrightarrow> ident w"
  proof (induction w rule: rev_induct)
    case (snoc c w)
    show ?case
    proof (cases w)
      case Nil
      with snoc.prems show ?thesis
        by (auto simp: is_identifier_def ascii_classes intro: ident_start split: if_splits)
    next
      case (Cons a v)
      with snoc.prems have "is_identifier w" "is_ident_byte c"
        by (auto simp: is_identifier_def split: if_splits)
      with snoc.IH show ?thesis by (intro ident_more) (simp_all add: is_ident_byte_class)
    qed
  qed (simp add: is_identifier_def)
qed

lemma leaf_segment_iff: "leaf_segment first w \<longleftrightarrow> valid_seg first w"
proof -
  have two: "starts_with ''__'' w \<longleftrightarrow> take 2 w = ''__''"
    by (cases w; cases "tl w") (auto simp: starts_with_def)
  have reserved: "(\<exists>v. w = ''__'' @ v \<and> is_identifier v) \<longleftrightarrow> starts_with ''__'' w \<and> is_identifier (drop 2 w)"
    by (auto simp: starts_with_iff)
  have index: "is_index w \<Longrightarrow> \<not> starts_with ''__'' w"
    by (auto simp: is_index_def starts_with_iff ascii_defs less_eq_char_def)
  have "leaf_segment first w \<longleftrightarrow> is_index w \<or> is_identifier w \<and> \<not> (first \<and> starts_with ''__'' w)
      \<or> first \<and> (\<exists>v. w = ''__'' @ v \<and> is_identifier v) \<or> placeholder_seg w"
    unfolding leaf_segment.simps [of first w] two
    by (auto simp: ident_iff is_index_def placeholder_seg_def needle_def list_all_iff ascii_classes subset_iff
        is_ident_byte_class)
  then show ?thesis using index unfolding reserved valid_seg_def is_segment_token_def by auto
qed

lemma valid_seg_no_dot: "valid_seg first w \<Longrightarrow> CHR ''.'' \<notin> set w"
proof -
  have bytes: "list_all is_ident_byte v \<Longrightarrow> CHR ''.'' \<notin> set v" for v by (auto simp: list_all_iff)
  assume "valid_seg first w"
  then have "valid_seg False w" using valid_seg_weaken by (cases first) auto
  then show ?thesis
    using bytes token_bytes [of w] by (auto simp: valid_seg_def placeholder_seg_def needle_def dest: bytes)
qed

lemma leaf_grammar_iff: "leaf_grammar s \<longleftrightarrow> valid_path s"
proof
  show "leaf_grammar s \<Longrightarrow> valid_path s"
  proof (induction rule: leaf_grammar.induct)
    case (path_first w)
    then have "valid_seg True w" by (simp add: leaf_segment_iff)
    then show ?case using valid_seg_no_dot [of True w] by (simp add: valid_path_def split_on_no_sep)
  next
    case (path_more p w)
    then have "valid_seg False w" by (simp add: leaf_segment_iff)
    then show ?case using valid_seg_no_dot [of False w] path_more.IH
      by (simp add: valid_path_def split_on_append split_on_no_sep)
  qed
  have "segs \<noteq> [] \<Longrightarrow> valid_seg True (hd segs) \<Longrightarrow> list_all (valid_seg False) (tl segs) \<Longrightarrow>
      leaf_grammar (join_with CHR ''.'' segs)" for segs
  proof (induction segs rule: rev_induct)
    case (snoc w segs)
    then show ?case
      by (cases "segs = []") (auto simp: leaf_segment_iff join_append intro: path_first path_more [simplified])
  qed simp
  from this [of "split_on CHR ''.'' s"] show "valid_path s \<Longrightarrow> leaf_grammar s"
    by (simp add: valid_path_def)
qed

section \<open>Properties\<close>

text \<open>
  C25. \<open>LeafPath::parse\<close> decides exactly the grammar \<open>leaf_grammar\<close>: it returns the string unchanged when
  the grammar derives it, and otherwise fails with an \<open>INVALID_VALUE\<close> error that names no path.
\<close>
theorem leaf_path_parse_grammar:
  "case leaf_path_parse s of
     Inr p \<Rightarrow> leaf_grammar s \<and> p = s
   | Inl e \<Rightarrow> \<not> leaf_grammar s \<and> (\<exists>m. e = LInvalidValue InvalidValue m None)"
proof (cases "valid_path s")
  case False
  then obtain m where "leaf_path_parse s = Inl (invalid_path m)"
    using leaf_path_parse_invalid by blast
  with False show ?thesis by (simp add: invalid_path_def leaf_grammar_iff)
qed (simp add: leaf_grammar_iff)

text \<open>
  The documentation of the type says less and more: that a placeholder wraps an identifier, and that
  every identifier is a segment. The parser takes a placeholder that begins with a digit, and
  refuses a first segment with two underscores and no identifier behind them.
\<close>
theorem leaf_path_doc_divergence:
  "leaf_path_parse ''{1}'' = Inr ''{1}'' \<and> \<not> ident ''1''" "\<not> is_ok (leaf_path_parse ''__1'') \<and> ident ''__1''"
proof -
  show "leaf_path_parse ''{1}'' = Inr ''{1}'' \<and> \<not> ident ''1''" unfolding ident_iff by code_simp
  show "\<not> is_ok (leaf_path_parse ''__1'') \<and> ident ''__1''" unfolding ident_iff by code_simp
qed

text \<open>
  The string test \<open>starts_with_prefix\<close> behind every role check is the prefix relation on
  segments: \<open>players.0\<close> covers \<open>players.0.score\<close> and never \<open>players.01\<close>.
\<close>
theorem starts_with_prefix_segments:
  "starts_with_prefix path pre \<longleftrightarrow> prefix (split_on CHR ''.'' pre) (split_on CHR ''.'' path)"
proof
  assume "starts_with_prefix path pre"
  then consider "path = pre" | r where "path = pre @ CHR ''.'' # r"
    by (auto simp: starts_with_prefix_def strip_prefix_eq_Some starts_with_iff
        split: if_splits option.splits)
  then show "prefix (split_on CHR ''.'' pre) (split_on CHR ''.'' path)"
    by cases (simp_all add: split_on_append)
next
  assume "prefix (split_on CHR ''.'' pre) (split_on CHR ''.'' path)"
  then obtain zs where zs: "split_on CHR ''.'' path = split_on CHR ''.'' pre @ zs"
    by (auto simp: prefix_def)
  have path: "path = join_with CHR ''.'' (split_on CHR ''.'' pre @ zs)"
    by (simp flip: zs)
  show "starts_with_prefix path pre"
  proof (cases "zs = []")
    case True
    with path show ?thesis by (simp add: starts_with_prefix_def)
  next
    case False
    with path have "path = pre @ CHR ''.'' # join_with CHR ''.'' zs" by (simp add: join_append)
    then show ?thesis by (simp add: starts_with_prefix_def starts_with_def)
  qed
qed

text \<open>
  Substituting one binding in a valid path replaces exactly the segments that are that
  placeholder and leaves every other segment alone.
\<close>
theorem substitute_segments:
  assumes "valid_path path" "list_all is_ident_byte name"
  shows "substitute path [(name, replacement)] =
    join_with CHR ''.'' (map (\<lambda>seg. if seg = needle name then replacement else seg)
      (split_on CHR ''.'' path))"
proof -
  have "CHR ''.'' \<notin> set (needle name)"
    using assms(2) by (auto simp: needle_def list_all_iff)
  then have "substitute path [(name, replacement)] =
      join_with CHR ''.'' (map (replace_str (needle name) replacement) (split_on CHR ''.'' path))"
    using replace_str_join [of "CHR ''.''" "needle name" "split_on CHR ''.'' path" replacement]
    by (simp add: substitute_def)
  also have "map (replace_str (needle name) replacement) (split_on CHR ''.'' path) =
      map (\<lambda>seg. if seg = needle name then replacement else seg) (split_on CHR ''.'' path)"
    using assms by (intro map_cong) (auto simp: replace_needle_seg valid_path_segs)
  finally show ?thesis .
qed

lemma ident_bytes_example: "list_all is_ident_byte ''player''"
  by code_simp

lemma path_example: "valid_path ''{player}.score''"
proof -
  have "is_ok (validate_path ''{player}.score'')" by code_simp
  then show ?thesis by (simp only: validate_path_ok)
qed

theorem substitute_segments_witness:
  "substitute ''{player}.score'' [(''player'', ''players.0'')] = ''players.0.score''"
  using substitute_segments [OF path_example ident_bytes_example, of "''players.0''"]
  by (simp add: needle_def)

end
