(* ===== verification/Wire_Types.thy ===== *)
theory Wire_Types
  imports Leaf_Path "HOL-Library.Monad_Syntax"
begin

text \<open>
  \<open>types.rs\<close>: the primitive types of the wire, with the \<open>Serialize\<close> and \<open>Deserialize\<close>
  implementations that \<open>derive\<close> gives them. \<open>ser_T\<close> builds the JSON value of a \<open>T\<close>; \<open>de_T P v\<close>
  reads a \<open>T\<close> from a value and is \<open>None\<close> where serde reports an error. A struct ignores unknown
  fields; an absent or null field of type \<open>Option\<close> is \<open>None\<close>; \<open>None\<close> is not written.
\<close>

section \<open>Derived readers and writers\<close>

definition obj :: "(string \<times> json) list \<Rightarrow> json" where
  "obj kvs = JObject (bt_of kvs)"

definition opt_field :: "string \<Rightarrow> ('a \<Rightarrow> json) \<Rightarrow> 'a option \<Rightarrow> (string \<times> json) list" where
  "opt_field k f x = (case x of None \<Rightarrow> [] | Some a \<Rightarrow> [(k, f a)])"

definition de_fields :: "platform \<Rightarrow> string \<Rightarrow> json \<Rightarrow> jmap option" where
  "de_fields P T v = (case v of JObject m \<Rightarrow> Some m | _ \<Rightarrow> other_struct P T v)"

definition de_req :: "jmap \<Rightarrow> string \<Rightarrow> (json \<Rightarrow> 'a option) \<Rightarrow> 'a option" where
  "de_req m k d = Option.bind (bt_get m k) d"

definition de_option :: "(json \<Rightarrow> 'a option) \<Rightarrow> json option \<Rightarrow> 'a option option" where
  "de_option d x = (case x of
      None \<Rightarrow> Some None
    | Some v \<Rightarrow> (if v = JNull then Some None else map_option Some (d v)))"

definition de_opt :: "jmap \<Rightarrow> string \<Rightarrow> (json \<Rightarrow> 'a option) \<Rightarrow> 'a option option" where
  "de_opt m k d = de_option d (bt_get m k)"

fun de_list :: "(json \<Rightarrow> 'a option) \<Rightarrow> json list \<Rightarrow> 'a list option" where
  "de_list d [] = Some []"
| "de_list d (v # vs) = do { x \<leftarrow> d v; xs \<leftarrow> de_list d vs; Some (x # xs) }"

definition de_vec :: "(json \<Rightarrow> 'a option) \<Rightarrow> json \<Rightarrow> 'a list option" where
  "de_vec d v = Option.bind (as_array v) (de_list d)"

definition de_bool :: "json \<Rightarrow> bool option" where
  "de_bool v = (case v of JBool b \<Rightarrow> Some b | _ \<Rightarrow> None)"

definition de_u32 :: "json \<Rightarrow> u32 option" where
  "de_u32 v = (case v of JNumber (PosInt n) \<Rightarrow> (if unat n < 2 ^ 32 then Some (ucast n) else None) | _ \<Rightarrow> None)"

definition ser_u32 :: "u32 \<Rightarrow> json" where
  "ser_u32 n = JNumber (PosInt (ucast n))"

definition ser_f64 :: "f64 \<Rightarrow> json" where
  "ser_f64 x = (if f64_is_finite x then JNumber (Float x) else JNull)"

definition ser_u64 :: "u64 \<Rightarrow> json" where
  "ser_u64 n = JNumber (PosInt n)"

definition de_str :: "json \<Rightarrow> string option" where
  "de_str v = as_str v"

text \<open>The tag of an enum: a string, or what serde takes for one.\<close>

definition de_tag :: "platform \<Rightarrow> string \<Rightarrow> json \<Rightarrow> string option" where
  "de_tag P T v = (case v of JString s \<Rightarrow> Some s | _ \<Rightarrow> other_tag P T v)"

named_theorems serde_simps \<open>reading back what a derived writer wrote\<close>

lemma bt_get_obj [serde_simps]: "bt_get (bt_of kvs) = map_of (rev kvs)"
  by (simp add: get_insert_all)

lemma de_fields_obj [serde_simps]: "de_fields P T (obj kvs) = Some (bt_of kvs)"
  by (simp add: de_fields_def obj_def)

lemma opt_field_simps [serde_simps]:
  "opt_field k f None = []" "opt_field k f (Some a) = [(k, f a)]"
  by (simp_all add: opt_field_def)

lemma map_of_opt_field [serde_simps]:
  "map_of (opt_field k f x) k' = (if k = k' then map_option f x else None)"
  "rev (opt_field k f x) = opt_field k f x"
  by (auto simp: opt_field_def split: option.splits)

lemma map_add_opt_field [serde_simps]:
  "m k = None \<Longrightarrow> (m ++ map_of (opt_field k f x)) k = map_option f x"
  "k' \<noteq> k \<Longrightarrow> (m ++ map_of (opt_field k f x)) k' = m k'"
  by (auto simp: opt_field_def split: option.splits)

lemma de_option_map [serde_simps]:
  "(\<And>a. x = Some a \<Longrightarrow> d (f a) = Some a \<and> f a \<noteq> JNull) \<Longrightarrow> de_option d (map_option f x) = Some x"
  by (cases x) (auto simp: de_option_def)

lemma de_list_map: "\<forall>x \<in> set xs. d (f x) = Some x \<Longrightarrow> de_list d (map f xs) = Some xs"
  by (induction xs) auto

lemma de_list_Some: "de_list d vs = Some xs \<Longrightarrow> x \<in> set xs \<Longrightarrow> \<exists>v \<in> set vs. d v = Some x"
  by (induction vs arbitrary: xs) (auto split: Option.bind_splits)

lemma de_vec_map [serde_simps]:
  "\<forall>x \<in> set xs. d (f x) = Some x \<Longrightarrow> de_vec d (JArray (map f xs)) = Some xs"
  by (simp add: de_vec_def de_list_map)

lemma de_prims [serde_simps]:
  "de_bool (JBool b) = Some b" "de_str (JString s) = Some s" "as_u64 (ser_u64 n) = Some n"
  "de_tag P T (JString s) = Some s" "ser_u64 n \<noteq> JNull" "ser_u32 m \<noteq> JNull"
  by (simp_all add: de_bool_def de_str_def ser_u64_def ser_u32_def de_tag_def)

lemma unat_u32_less: "unat (n :: u32) < 2 ^ 32"
  using unsigned_less [of n, where ?'a = nat] by simp

lemma unat_ucast_u32: "unat (ucast (n :: u32) :: u64) = unat n"
  using unat_u32_less [of n] by (simp add: unsigned_ucast_eq take_bit_nat_eq_self_iff)

lemma ucast_u64_u32: "ucast (ucast (n :: u32) :: u64) = n"
  by (simp add: word_unat_eq_iff unsigned_ucast_eq take_bit_word_eq_self)

lemma de_ser_u32 [serde_simps]: "de_u32 (ser_u32 n) = Some n"
  using unat_u32_less [of n] by (simp add: de_u32_def ser_u32_def unat_ucast_u32 ucast_u64_u32)

lemma de_ser_f64 [serde_simps]:
  "f64_is_finite x \<Longrightarrow> as_f64 (ser_f64 x) = Some x \<and> ser_f64 x \<noteq> JNull"
  by (simp add: ser_f64_def as_f64_def)

section \<open>Identifiers\<close>

type_synonym Token = string
type_synonym SceneId = string
type_synonym SceneVersion = string
type_synonym SessionId = string

definition show_token :: "Token \<Rightarrow> string" where
  "show_token t = ''Token(<redacted>)''"

definition is_well_formed :: "SceneVersion \<Rightarrow> bool" where
  "is_well_formed s = (case strip_prefix ''sha256:'' s of
      None \<Rightarrow> False
    | Some rest \<Rightarrow> length rest = 64 \<and> list_all is_ascii_hexdigit rest)"

section \<open>Patches, causes and transitions\<close>

datatype Easing = Linear | EaseIn | EaseOut | EaseInOut

fun easing_ident :: "Easing \<Rightarrow> string" where
  "easing_ident Linear = ''Linear''"
| "easing_ident EaseIn = ''EaseIn''"
| "easing_ident EaseOut = ''EaseOut''"
| "easing_ident EaseInOut = ''EaseInOut''"

definition easings :: "Easing list" where
  "easings = [Linear, EaseIn, EaseOut, EaseInOut]"

definition ser_easing :: "Easing \<Rightarrow> json" where
  "ser_easing e = JString (kebab_case (easing_ident e))"

definition de_easing :: "platform \<Rightarrow> json \<Rightarrow> Easing option" where
  "de_easing P v = Option.bind (de_tag P ''Easing'' v)
     (\<lambda>s. find (\<lambda>e. kebab_case (easing_ident e) = s) easings)"

datatype TransitionSpec =
    Tween "u32 option" "Easing option"
  | Spring "f64 option" "f64 option"
  | Snap

fun ser_transition_spec :: "TransitionSpec \<Rightarrow> json" where
  "ser_transition_spec (Tween duration_ms easing) =
     obj ([(''kind'', JString ''tween'')] @ opt_field ''duration_ms'' ser_u32 duration_ms
       @ opt_field ''easing'' ser_easing easing)"
| "ser_transition_spec (Spring stiffness damping) =
     obj ([(''kind'', JString ''spring'')] @ opt_field ''stiffness'' ser_f64 stiffness
       @ opt_field ''damping'' ser_f64 damping)"
| "ser_transition_spec Snap = obj [(''kind'', JString ''snap'')]"

definition de_transition_spec :: "platform \<Rightarrow> json \<Rightarrow> TransitionSpec option" where
  "de_transition_spec P v = do {
     m \<leftarrow> de_fields P ''TransitionSpec'' v;
     kind \<leftarrow> de_req m ''kind'' (de_tag P ''TransitionSpec'');
     if kind = ''tween'' then do {
       duration_ms \<leftarrow> de_opt m ''duration_ms'' de_u32;
       easing \<leftarrow> de_opt m ''easing'' (de_easing P);
       Some (Tween duration_ms easing) }
     else if kind = ''spring'' then do {
       stiffness \<leftarrow> de_opt m ''stiffness'' as_f64;
       damping \<leftarrow> de_opt m ''damping'' as_f64;
       Some (Spring stiffness damping) }
     else if kind = ''snap'' then Some Snap
     else None }"

record Patch =
  patch_path :: LeafPath
  patch_value :: json
  patch_transition :: "TransitionSpec option"

definition patch_new :: "LeafPath \<Rightarrow> json \<Rightarrow> Patch" where
  "patch_new path v = \<lparr>patch_path = path, patch_value = v, patch_transition = None\<rparr>"

definition with_transition :: "LeafPath \<Rightarrow> json \<Rightarrow> TransitionSpec \<Rightarrow> Patch" where
  "with_transition path v transition =
     \<lparr>patch_path = path, patch_value = v, patch_transition = Some transition\<rparr>"

definition is_value_legal :: "Patch \<Rightarrow> bool" where
  "is_value_legal p \<longleftrightarrow> \<not> is_object (patch_value p)"

definition check_leaf_value :: "json \<Rightarrow> string + unit" where
  "check_leaf_value v =
     (if is_object v then Inl ''leaf value MUST NOT be a JSON object'' else Inr ())"

definition de_leaf_path :: "json \<Rightarrow> LeafPath option" where
  "de_leaf_path v = Option.bind (de_str v)
     (\<lambda>s. case leaf_path_parse s of Inr p \<Rightarrow> Some p | Inl _ \<Rightarrow> None)"

definition ser_patch :: "Patch \<Rightarrow> json" where
  "ser_patch p = obj ([(''path'', JString (patch_path p)), (''value'', patch_value p)]
     @ opt_field ''transition'' ser_transition_spec (patch_transition p))"

definition de_patch :: "platform \<Rightarrow> json \<Rightarrow> Patch option" where
  "de_patch P v = do {
     m \<leftarrow> de_fields P ''Patch'' v;
     path \<leftarrow> de_req m ''path'' de_leaf_path;
     val \<leftarrow> de_req m ''value'' Some;
     transition \<leftarrow> de_opt m ''transition'' (de_transition_spec P);
     Some \<lparr>patch_path = path, patch_value = val, patch_transition = transition\<rparr> }"

record Cause =
  cause_source :: string
  cause_input_id :: "string option"

definition ser_cause :: "Cause \<Rightarrow> json" where
  "ser_cause c = obj ([(''source'', JString (cause_source c))]
     @ opt_field ''input_id'' JString (cause_input_id c))"

definition de_cause :: "platform \<Rightarrow> json \<Rightarrow> Cause option" where
  "de_cause P v = do {
     m \<leftarrow> de_fields P ''Cause'' v;
     source \<leftarrow> de_req m ''source'' de_str;
     input_id \<leftarrow> de_opt m ''input_id'' de_str;
     Some \<lparr>cause_source = source, cause_input_id = input_id\<rparr> }"

record SceneTransition =
  scene_transition_kind :: string
  scene_transition_duration_ms :: "u32 option"

definition ser_scene_transition :: "SceneTransition \<Rightarrow> json" where
  "ser_scene_transition t = obj ([(''kind'', JString (scene_transition_kind t))]
     @ opt_field ''duration_ms'' ser_u32 (scene_transition_duration_ms t))"

definition de_scene_transition :: "platform \<Rightarrow> json \<Rightarrow> SceneTransition option" where
  "de_scene_transition P v = do {
     m \<leftarrow> de_fields P ''SceneTransition'' v;
     kind \<leftarrow> de_req m ''kind'' de_str;
     duration_ms \<leftarrow> de_opt m ''duration_ms'' de_u32;
     Some \<lparr>scene_transition_kind = kind, scene_transition_duration_ms = duration_ms\<rparr> }"

section \<open>Reading back\<close>

text \<open>What \<open>derive\<close> can read back: a double must be finite, a path must be a parsed one.\<close>

fun transition_wf :: "TransitionSpec \<Rightarrow> bool" where
  "transition_wf (Spring stiffness damping) =
     (pred_option f64_is_finite stiffness \<and> pred_option f64_is_finite damping)"
| "transition_wf _ = True"

definition patch_wf :: "Patch \<Rightarrow> bool" where
  "patch_wf p \<longleftrightarrow> valid_path (patch_path p) \<and> pred_option transition_wf (patch_transition p)"

lemmas de_field_defs = de_req_def de_opt_def de_option_def

lemma obj_not_null [serde_simps]: "obj kvs \<noteq> JNull"
  by (simp add: obj_def)

lemma easing_ids_distinct:
  "list_all (\<lambda>e. find (\<lambda>d. kebab_case (easing_ident d) = kebab_case (easing_ident e)) easings = Some e) easings"
  by code_simp

lemma de_ser_easing [serde_simps]: "de_easing P (ser_easing e) = Some e" "ser_easing e \<noteq> JNull"
proof -
  have "e \<in> set easings" by (cases e) (simp_all add: easings_def)
  then show "de_easing P (ser_easing e) = Some e"
    using easing_ids_distinct by (simp add: de_easing_def ser_easing_def de_tag_def list_all_iff)
qed (simp add: ser_easing_def)

lemma de_ser_transition_spec [serde_simps]:
  "transition_wf t \<Longrightarrow> de_transition_spec P (ser_transition_spec t) = Some t"
  "ser_transition_spec t \<noteq> JNull"
proof -
  assume wf: "transition_wf t"
  show "de_transition_spec P (ser_transition_spec t) = Some t"
  proof (cases t)
    case (Tween d e)
    then show ?thesis
      by (cases d; cases e) (simp_all add: de_transition_spec_def de_field_defs serde_simps)
  next
    case (Spring s d)
    with wf show ?thesis
      by (cases s; cases d) (simp_all add: de_transition_spec_def de_field_defs serde_simps)
  qed (simp add: de_transition_spec_def de_field_defs serde_simps)
qed (cases t; simp add: serde_simps)

lemma de_leaf_path_iff [serde_simps]: "de_leaf_path (JString s) = (if valid_path s then Some s else None)"
  using leaf_path_parse_ok [of s] by (auto simp: de_leaf_path_def de_str_def split: sum.splits)

lemma de_leaf_path_Some: "de_leaf_path v = Some p \<Longrightarrow> valid_path p"
  by (auto simp: de_leaf_path_def leaf_path_parse_ok split: Option.bind_splits sum.splits)

lemma de_ser_patch [serde_simps]: "patch_wf p \<Longrightarrow> de_patch P (ser_patch p) = Some p"
  by (cases "patch_transition p")
    (simp_all add: de_patch_def ser_patch_def patch_wf_def de_field_defs serde_simps)

lemma de_patch_path: "de_patch P v = Some p \<Longrightarrow> valid_path (patch_path p)"
  by (auto simp: de_patch_def de_req_def split: Option.bind_splits dest: de_leaf_path_Some)

lemma de_ser_cause [serde_simps]: "de_cause P (ser_cause c) = Some c" "ser_cause c \<noteq> JNull"
  by (cases "cause_input_id c") (simp_all add: de_cause_def ser_cause_def de_field_defs serde_simps)

lemma de_ser_scene_transition [serde_simps]:
  "de_scene_transition P (ser_scene_transition t) = Some t" "ser_scene_transition t \<noteq> JNull"
  by (cases "scene_transition_duration_ms t")
    (simp_all add: de_scene_transition_def ser_scene_transition_def de_field_defs serde_simps)

end
