(* ===== verification/Frames.thy ===== *)
theory Frames
  imports Wire_Types
begin

text \<open>
  \<open>frames.rs\<close>: every frame of LSDP/1 as a record, the two tagged unions, and their derived
  readers and writers.
\<close>

section \<open>Server frames\<close>

type_synonym State = jmap

record Snapshot =
  snapshot_seq :: u64
  snapshot_scene_id :: SceneId
  snapshot_scene_version :: SceneVersion
  snapshot_state :: State
  snapshot_ts :: "string option"

record Delta =
  delta_seq :: u64
  delta_patches :: "Patch list"
  delta_ts :: "string option"
  delta_cause :: "Cause option"

record SceneChanged =
  changed_seq :: u64
  changed_scene_id :: SceneId
  changed_scene_version :: SceneVersion
  changed_ts :: "string option"
  changed_from_scene_id :: "SceneId option"
  changed_transition :: "SceneTransition option"

record ErrorFrame =
  error_seq :: u64
  error_code :: ErrorCode
  error_message :: string
  error_recoverable :: bool
  error_retry_after_ms :: "u64 option"
  error_path :: "string option"
  error_ts :: "string option"

record Pong =
  pong_nonce :: "string option"

datatype ServerFrame =
    FSnapshot Snapshot
  | FDelta Delta
  | FSceneChanged SceneChanged
  | FError ErrorFrame
  | FPong Pong

fun server_frame_seq :: "ServerFrame \<Rightarrow> u64 option" where
  "server_frame_seq (FSnapshot f) = Some (snapshot_seq f)"
| "server_frame_seq (FDelta f) = Some (delta_seq f)"
| "server_frame_seq (FSceneChanged f) = Some (changed_seq f)"
| "server_frame_seq (FError f) = Some (error_seq f)"
| "server_frame_seq (FPong _) = None"

fun server_type_str :: "ServerFrame \<Rightarrow> string" where
  "server_type_str (FSnapshot _) = ''snapshot''"
| "server_type_str (FDelta _) = ''delta''"
| "server_type_str (FSceneChanged _) = ''scene_changed''"
| "server_type_str (FError _) = ''error''"
| "server_type_str (FPong _) = ''pong''"

text \<open>The fields a frame writes after its tag.\<close>

definition snapshot_fields :: "Snapshot \<Rightarrow> (string \<times> json) list" where
  "snapshot_fields f =
     [(''seq'', ser_u64 (snapshot_seq f)), (''scene_id'', JString (snapshot_scene_id f)),
      (''scene_version'', JString (snapshot_scene_version f)),
      (''state'', JObject (snapshot_state f))]
     @ opt_field ''ts'' JString (snapshot_ts f)"

definition delta_fields :: "Delta \<Rightarrow> (string \<times> json) list" where
  "delta_fields f =
     [(''seq'', ser_u64 (delta_seq f)), (''patches'', JArray (map ser_patch (delta_patches f)))]
     @ opt_field ''ts'' JString (delta_ts f) @ opt_field ''cause'' ser_cause (delta_cause f)"

definition changed_fields :: "SceneChanged \<Rightarrow> (string \<times> json) list" where
  "changed_fields f =
     [(''seq'', ser_u64 (changed_seq f)), (''scene_id'', JString (changed_scene_id f)),
      (''scene_version'', JString (changed_scene_version f))]
     @ opt_field ''ts'' JString (changed_ts f)
     @ opt_field ''from_scene_id'' JString (changed_from_scene_id f)
     @ opt_field ''transition'' ser_scene_transition (changed_transition f)"

definition error_fields :: "ErrorFrame \<Rightarrow> (string \<times> json) list" where
  "error_fields f =
     [(''seq'', ser_u64 (error_seq f)), (''code'', JString (ser_error_code (error_code f))),
      (''message'', JString (error_message f)), (''recoverable'', JBool (error_recoverable f))]
     @ opt_field ''retry_after_ms'' ser_u64 (error_retry_after_ms f)
     @ opt_field ''path'' JString (error_path f) @ opt_field ''ts'' JString (error_ts f)"

definition pong_fields :: "Pong \<Rightarrow> (string \<times> json) list" where
  "pong_fields f = opt_field ''nonce'' JString (pong_nonce f)"

definition tagged :: "string \<Rightarrow> (string \<times> json) list \<Rightarrow> json" where
  "tagged tag kvs = obj ((''type'', JString tag) # kvs)"

fun ser_server_frame :: "ServerFrame \<Rightarrow> json" where
  "ser_server_frame (FSnapshot f) = tagged ''snapshot'' (snapshot_fields f)"
| "ser_server_frame (FDelta f) = tagged ''delta'' (delta_fields f)"
| "ser_server_frame (FSceneChanged f) = tagged ''scene_changed'' (changed_fields f)"
| "ser_server_frame (FError f) = tagged ''error'' (error_fields f)"
| "ser_server_frame (FPong f) = tagged ''pong'' (pong_fields f)"

definition de_snapshot :: "jmap \<Rightarrow> Snapshot option" where
  "de_snapshot m = do {
     seq \<leftarrow> de_req m ''seq'' as_u64;
     scene_id \<leftarrow> de_req m ''scene_id'' de_str;
     scene_version \<leftarrow> de_req m ''scene_version'' de_str;
     state \<leftarrow> de_req m ''state'' as_object;
     ts \<leftarrow> de_opt m ''ts'' de_str;
     Some \<lparr>snapshot_seq = seq, snapshot_scene_id = scene_id,
       snapshot_scene_version = scene_version, snapshot_state = state, snapshot_ts = ts\<rparr> }"

definition de_delta :: "platform \<Rightarrow> jmap \<Rightarrow> Delta option" where
  "de_delta P m = do {
     seq \<leftarrow> de_req m ''seq'' as_u64;
     patches \<leftarrow> de_req m ''patches'' (de_vec (de_patch P));
     ts \<leftarrow> de_opt m ''ts'' de_str;
     cause \<leftarrow> de_opt m ''cause'' (de_cause P);
     Some \<lparr>delta_seq = seq, delta_patches = patches, delta_ts = ts, delta_cause = cause\<rparr> }"

definition de_scene_changed :: "platform \<Rightarrow> jmap \<Rightarrow> SceneChanged option" where
  "de_scene_changed P m = do {
     seq \<leftarrow> de_req m ''seq'' as_u64;
     scene_id \<leftarrow> de_req m ''scene_id'' de_str;
     scene_version \<leftarrow> de_req m ''scene_version'' de_str;
     ts \<leftarrow> de_opt m ''ts'' de_str;
     from_scene_id \<leftarrow> de_opt m ''from_scene_id'' de_str;
     transition \<leftarrow> de_opt m ''transition'' (de_scene_transition P);
     Some \<lparr>changed_seq = seq, changed_scene_id = scene_id, changed_scene_version = scene_version,
       changed_ts = ts, changed_from_scene_id = from_scene_id, changed_transition = transition\<rparr> }"

definition de_code :: "platform \<Rightarrow> json \<Rightarrow> ErrorCode option" where
  "de_code P v = Option.bind (de_tag P ''ErrorCode'' v) de_error_code"

definition de_error_frame :: "platform \<Rightarrow> jmap \<Rightarrow> ErrorFrame option" where
  "de_error_frame P m = do {
     seq \<leftarrow> de_req m ''seq'' as_u64;
     code \<leftarrow> de_req m ''code'' (de_code P);
     message \<leftarrow> de_req m ''message'' de_str;
     recoverable \<leftarrow> de_req m ''recoverable'' de_bool;
     retry_after_ms \<leftarrow> de_opt m ''retry_after_ms'' as_u64;
     path \<leftarrow> de_opt m ''path'' de_str;
     ts \<leftarrow> de_opt m ''ts'' de_str;
     Some \<lparr>error_seq = seq, error_code = code, error_message = message,
       error_recoverable = recoverable, error_retry_after_ms = retry_after_ms,
       error_path = path, error_ts = ts\<rparr> }"

definition de_pong :: "jmap \<Rightarrow> Pong option" where
  "de_pong m = do { nonce \<leftarrow> de_opt m ''nonce'' de_str; Some \<lparr>pong_nonce = nonce\<rparr> }"

definition de_server_frame :: "platform \<Rightarrow> json \<Rightarrow> ServerFrame option" where
  "de_server_frame P v = do {
     m \<leftarrow> de_fields P ''ServerFrame'' v;
     tag \<leftarrow> de_req m ''type'' (de_tag P ''ServerFrame'');
     if tag = ''snapshot'' then map_option FSnapshot (de_snapshot m)
     else if tag = ''delta'' then map_option FDelta (de_delta P m)
     else if tag = ''scene_changed'' then map_option FSceneChanged (de_scene_changed P m)
     else if tag = ''error'' then map_option FError (de_error_frame P m)
     else if tag = ''pong'' then map_option FPong (de_pong m)
     else None }"

section \<open>Client frames\<close>

record Subscribe =
  subscribe_token :: Token
  subscribe_scene :: "SceneId option"
  subscribe_session :: "SessionId option"
  subscribe_since_sequence :: "u64 option"

record Input =
  input_patches :: "Patch list"
  input_client_msg_id :: "string option"

record Ping =
  ping_nonce :: "string option"

datatype ClientFrame =
    CSubscribe Subscribe
  | CInput Input
  | CPing Ping
  | CUnsubscribe

fun client_type_str :: "ClientFrame \<Rightarrow> string" where
  "client_type_str (CSubscribe _) = ''subscribe''"
| "client_type_str (CInput _) = ''input''"
| "client_type_str (CPing _) = ''ping''"
| "client_type_str CUnsubscribe = ''unsubscribe''"

definition subscribe_fields :: "Subscribe \<Rightarrow> (string \<times> json) list" where
  "subscribe_fields f =
     [(''token'', JString (subscribe_token f))]
     @ opt_field ''scene'' JString (subscribe_scene f)
     @ opt_field ''session'' JString (subscribe_session f)
     @ opt_field ''since_sequence'' ser_u64 (subscribe_since_sequence f)"

definition input_fields :: "Input \<Rightarrow> (string \<times> json) list" where
  "input_fields f =
     [(''patches'', JArray (map ser_patch (input_patches f)))]
     @ opt_field ''client_msg_id'' JString (input_client_msg_id f)"

definition ping_fields :: "Ping \<Rightarrow> (string \<times> json) list" where
  "ping_fields f = opt_field ''nonce'' JString (ping_nonce f)"

fun ser_client_frame :: "ClientFrame \<Rightarrow> json" where
  "ser_client_frame (CSubscribe f) = tagged ''subscribe'' (subscribe_fields f)"
| "ser_client_frame (CInput f) = tagged ''input'' (input_fields f)"
| "ser_client_frame (CPing f) = tagged ''ping'' (ping_fields f)"
| "ser_client_frame CUnsubscribe = tagged ''unsubscribe'' []"

definition de_subscribe :: "jmap \<Rightarrow> Subscribe option" where
  "de_subscribe m = do {
     token \<leftarrow> de_req m ''token'' de_str;
     scene \<leftarrow> de_opt m ''scene'' de_str;
     session \<leftarrow> de_opt m ''session'' de_str;
     since_sequence \<leftarrow> de_opt m ''since_sequence'' as_u64;
     Some \<lparr>subscribe_token = token, subscribe_scene = scene, subscribe_session = session,
       subscribe_since_sequence = since_sequence\<rparr> }"

definition de_input :: "platform \<Rightarrow> jmap \<Rightarrow> Input option" where
  "de_input P m = do {
     patches \<leftarrow> de_req m ''patches'' (de_vec (de_patch P));
     client_msg_id \<leftarrow> de_opt m ''client_msg_id'' de_str;
     Some \<lparr>input_patches = patches, input_client_msg_id = client_msg_id\<rparr> }"

definition de_ping :: "jmap \<Rightarrow> Ping option" where
  "de_ping m = do { nonce \<leftarrow> de_opt m ''nonce'' de_str; Some \<lparr>ping_nonce = nonce\<rparr> }"

definition de_client_frame :: "platform \<Rightarrow> json \<Rightarrow> ClientFrame option" where
  "de_client_frame P v = do {
     m \<leftarrow> de_fields P ''ClientFrame'' v;
     tag \<leftarrow> de_req m ''type'' (de_tag P ''ClientFrame'');
     if tag = ''subscribe'' then map_option CSubscribe (de_subscribe m)
     else if tag = ''input'' then map_option CInput (de_input P m)
     else if tag = ''ping'' then map_option CPing (de_ping m)
     else if tag = ''unsubscribe'' then Some CUnsubscribe
     else None }"

section \<open>Reading back\<close>

fun server_frame_wf :: "ServerFrame \<Rightarrow> bool" where
  "server_frame_wf (FDelta f) = list_all patch_wf (delta_patches f)"
| "server_frame_wf _ = True"

fun client_frame_wf :: "ClientFrame \<Rightarrow> bool" where
  "client_frame_wf (CInput f) = list_all patch_wf (input_patches f)"
| "client_frame_wf _ = True"

lemma de_ser_code [serde_simps]: "de_code P (JString (ser_error_code c)) = Some c"
  by (simp add: de_code_def de_tag_def ser_error_code_wire de_error_code_wire)

lemmas field_defs = snapshot_fields_def delta_fields_def changed_fields_def error_fields_def
  pong_fields_def subscribe_fields_def input_fields_def ping_fields_def

lemmas de_frame_defs = de_snapshot_def de_delta_def de_scene_changed_def de_error_frame_def
  de_pong_def de_subscribe_def de_input_def de_ping_def

text \<open>
  The tag and the envelope's version are fields like any other to the readers: a frame is read
  back from its object whatever \<open>v\<close> the object also has.
\<close>

definition with_v :: "json \<Rightarrow> json \<Rightarrow> json" where
  "with_v j v = (case v of JObject m \<Rightarrow> JObject (bt_insert ''v'' j m) | _ \<Rightarrow> v)"

lemma with_v_obj: "with_v j (obj kvs) = JObject (bt_insert ''v'' j (bt_of kvs))"
  by (simp add: with_v_def obj_def)

lemma de_ser_server_frame:
  assumes "server_frame_wf f"
  shows "de_server_frame P (with_v j (ser_server_frame f)) = Some f"
proof (cases f)
  case (FDelta d)
  with assms have "\<forall>p \<in> set (delta_patches d). de_patch P (ser_patch p) = Some p"
    by (simp add: list_all_iff de_ser_patch)
  with FDelta show ?thesis
    by (simp add: de_server_frame_def tagged_def with_v_obj de_fields_def de_frame_defs field_defs
        de_req_def de_opt_def serde_simps del: insert_all_Cons)
qed (simp_all add: de_server_frame_def tagged_def with_v_obj de_fields_def de_frame_defs field_defs
        de_req_def de_opt_def serde_simps del: insert_all_Cons)

lemma de_ser_client_frame:
  assumes "client_frame_wf f"
  shows "de_client_frame P (with_v j (ser_client_frame f)) = Some f"
proof (cases f)
  case (CInput i)
  with assms have "\<forall>p \<in> set (input_patches i). de_patch P (ser_patch p) = Some p"
    by (simp add: list_all_iff de_ser_patch)
  with CInput show ?thesis
    by (simp add: de_client_frame_def tagged_def with_v_obj de_fields_def de_frame_defs field_defs
        de_req_def de_opt_def serde_simps del: insert_all_Cons)
qed (simp_all add: de_client_frame_def tagged_def with_v_obj de_fields_def de_frame_defs field_defs
        de_req_def de_opt_def serde_simps del: insert_all_Cons)

lemma de_vec_paths:
  "de_vec (de_patch P) v = Some ps \<Longrightarrow> p \<in> set ps \<Longrightarrow> valid_path (patch_path p)"
  by (auto simp: de_vec_def de_patch_path split: Option.bind_splits dest!: de_list_Some)

text \<open>Every path that reaches the program through a frame has been parsed.\<close>

lemma de_client_frame_paths:
  "de_client_frame P v = Some (CInput i) \<Longrightarrow> p \<in> set (input_patches i) \<Longrightarrow> valid_path (patch_path p)"
  by (auto simp: de_client_frame_def de_input_def de_req_def
      split: Option.bind_splits if_splits dest: de_vec_paths)

lemma de_server_frame_paths:
  "de_server_frame P v = Some (FDelta d) \<Longrightarrow> p \<in> set (delta_patches d) \<Longrightarrow> valid_path (patch_path p)"
  by (auto simp: de_server_frame_def de_delta_def de_req_def
      split: Option.bind_splits if_splits dest: de_vec_paths)

end
