(* ===== verification/Sample_Platform.thy ===== *)
theory Sample_Platform
  imports Json
begin

text \<open>
  A concrete \<open>platform\<close> on which the assumptions about code outside the repository hold: a compact
  self-delimiting text form of JSON values with its reader, and a fixed 32-byte digest. The
  witnesses of the properties with such assumptions are evaluated on it.
\<close>

section \<open>A text form of values\<close>

fun enc_nat :: "nat \<Rightarrow> string" where
  "enc_nat n = (if n = 0 then ''.'' else char_of (48 + n mod 10) # enc_nat (n div 10))"

declare enc_nat.simps [simp del]

fun dec_nat :: "string \<Rightarrow> nat \<times> string" where
  "dec_nat [] = (0, [])"
| "dec_nat (c # s) = (if c = CHR ''.'' then (0, s)
     else (let (n, r) = dec_nat s in (of_char c - 48 + 10 * n, r)))"

fun enc_str :: "string \<Rightarrow> string" where
  "enc_str [] = ''.''"
| "enc_str (c # s) = CHR ''c'' # c # enc_str s"

fun dec_str :: "string \<Rightarrow> string \<times> string" where
  "dec_str (x # c # s) = (if x = CHR ''.'' then ([], c # s)
     else (let (t, r) = dec_str s in (c # t, r)))"
| "dec_str [x] = ([], [])"
| "dec_str [] = ([], [])"

fun enc :: "json \<Rightarrow> string" where
  "enc JNull = ''n''"
| "enc (JBool b) = (if b then ''t'' else ''f'')"
| "enc (JNumber (PosInt n)) = CHR ''p'' # enc_nat (unat n)"
| "enc (JNumber (NegInt n)) = CHR ''m'' # enc_nat (unat n)"
| "enc (JNumber (Float n)) = CHR ''d'' # enc_nat (unat n)"
| "enc (JString s) = CHR ''s'' # enc_str s"
| "enc (JArray vs) = ''['' @ concat (map enc vs) @ '']''"
| "enc (JObject m) = ''{'' @ concat (map (\<lambda>kv. CHR ''k'' # enc_str (fst kv) @ enc (snd kv)) m) @ ''}''"

fun dec_value :: "nat \<Rightarrow> string \<Rightarrow> (json \<times> string) option"
  and dec_values :: "nat \<Rightarrow> string \<Rightarrow> (json list \<times> string) option"
  and dec_members :: "nat \<Rightarrow> string \<Rightarrow> ((string \<times> json) list \<times> string) option" where
  "dec_value 0 s = None"
| "dec_value (Suc n) [] = None"
| "dec_value (Suc n) (c # r) =
     (if c = CHR ''n'' then Some (JNull, r)
      else if c = CHR ''t'' then Some (JBool True, r)
      else if c = CHR ''f'' then Some (JBool False, r)
      else if c = CHR ''p'' then Some (apfst (\<lambda>k. JNumber (PosInt (of_nat k))) (dec_nat r))
      else if c = CHR ''m'' then Some (apfst (\<lambda>k. JNumber (NegInt (of_nat k))) (dec_nat r))
      else if c = CHR ''d'' then Some (apfst (\<lambda>k. JNumber (Float (of_nat k))) (dec_nat r))
      else if c = CHR ''s'' then Some (apfst JString (dec_str r))
      else if c = CHR ''['' then map_option (apfst JArray) (dec_values n r)
      else if c = CHR ''{'' then map_option (apfst JObject) (dec_members n r)
      else None)"
| "dec_values 0 s = None"
| "dec_values (Suc n) s =
     (if s = [] then None
      else if hd s = CHR '']'' then Some ([], tl s)
      else (case dec_value n s of None \<Rightarrow> None | Some (v, r) \<Rightarrow> map_option (apfst ((#) v)) (dec_values n r)))"
| "dec_members 0 s = None"
| "dec_members (Suc n) s =
     (if s = [] then None
      else if hd s = CHR ''}'' then Some ([], tl s)
      else (let (k, q) = dec_str (tl s) in
        (case dec_value n q of None \<Rightarrow> None
         | Some (v, r) \<Rightarrow> map_option (apfst ((#) (k, v))) (dec_members n r))))"

lemma dec_nat_enc [simp]: "dec_nat (enc_nat n @ r) = (n, r)"
proof (induction n rule: enc_nat.induct)
  case (1 n)
  have "48 + n mod 10 < 256" by (simp add: less_trans [OF mod_less_divisor])
  then have digit: "of_char (char_of (48 + n mod 10) :: char) = (48 + n mod 10 :: nat)"
    by (simp add: of_char_of)
  have "char_of (48 + n mod 10) \<noteq> CHR ''.''"
  proof
    assume "char_of (48 + n mod 10) = CHR ''.''"
    then have "48 + n mod 10 = of_char CHR ''.''" using digit by simp
    then show False by simp
  qed
  then show ?case using 1 by (simp add: enc_nat.simps [of n] digit)
qed

lemma dec_str_enc [simp]: "dec_str (enc_str s @ c # r) = (s, c # r)" "dec_str (enc_str s) = (s, [])"
  by (induction s) auto

lemma enc_nonempty [simp]: "enc v \<noteq> []"
  by (induction v rule: enc.induct) auto

lemma enc_head [simp]: "hd (enc v) \<noteq> CHR '']''"
  by (induction v rule: enc.induct) auto

lemma dec_str_enc_value [simp]: "dec_str (enc_str s @ enc v @ r) = (s, enc v @ r)"
  by (cases "enc v") simp_all

lemma dec_values_enc:
  assumes "\<And>v n r. v \<in> set vs \<Longrightarrow> length (enc v) < n \<Longrightarrow> dec_value n (enc v @ r) = Some (v, r)"
    and "Suc (length (concat (map enc vs))) < n"
  shows "dec_values n (concat (map enc vs) @ CHR '']'' # r) = Some (vs, r)"
  using assms
proof (induction vs arbitrary: n)
  case Nil
  then show ?case by (cases n) auto
next
  case (Cons v vs)
  obtain k where n: "n = Suc k" using Cons.prems(2) by (cases n) auto
  have "Suc (length (concat (map enc vs))) < k"
    using Cons.prems(2) n enc_nonempty [of v] by (cases "enc v") auto
  then have "dec_values k (concat (map enc vs) @ CHR '']'' # r) = Some (vs, r)"
    using Cons.prems n by (intro Cons.IH) auto
  moreover have "dec_value k (enc v @ concat (map enc vs) @ CHR '']'' # r) =
      Some (v, concat (map enc vs) @ CHR '']'' # r)"
    using Cons.prems n by (intro Cons.prems(1)) auto
  ultimately show ?case by (simp add: n)
qed

lemma dec_members_enc:
  assumes "\<And>kv n r. kv \<in> set m \<Longrightarrow> length (enc (snd kv)) < n
      \<Longrightarrow> dec_value n (enc (snd kv) @ r) = Some (snd kv, r)"
    and "Suc (length (concat (map (\<lambda>kv. CHR ''k'' # enc_str (fst kv) @ enc (snd kv)) m))) < n"
  shows "dec_members n (concat (map (\<lambda>kv. CHR ''k'' # enc_str (fst kv) @ enc (snd kv)) m)
      @ CHR ''}'' # r) = Some (m, r)"
  using assms
proof (induction m arbitrary: n)
  case Nil
  then show ?case by (cases n) auto
next
  case (Cons kv m)
  obtain k where n: "n = Suc k" using Cons.prems(2) by (cases n) auto
  let ?rest = "concat (map (\<lambda>kv. CHR ''k'' # enc_str (fst kv) @ enc (snd kv)) m) @ CHR ''}'' # r"
  have "dec_members k ?rest = Some (m, r)"
    using Cons.prems n by (intro Cons.IH) auto
  moreover have "dec_value k (enc (snd kv) @ ?rest) = Some (snd kv, ?rest)"
    using Cons.prems n by (intro Cons.prems(1)) auto
  ultimately show ?case by (simp add: n)
qed

lemma dec_value_enc: "length (enc v) < n \<Longrightarrow> dec_value n (enc v @ r) = Some (v, r)"
proof (induction v arbitrary: n r rule: enc.induct)
  case (7 vs)
  then obtain k where "n = Suc k" by (cases n) auto
  with 7 show ?case by (simp add: dec_values_enc)
next
  case (8 m)
  then obtain k where "n = Suc k" by (cases n) auto
  with 8 show ?case by (simp add: dec_members_enc)
next
  case (6 s)
  then obtain k where "n = Suc k" by (cases n) auto
  then show ?case by (cases r) simp_all
next
  case (2 b)
  then obtain k where "n = Suc k" by (cases n) auto
  then show ?case by simp
next
  case (3 m)
  then obtain k where "n = Suc k" by (cases n) auto
  then show ?case by simp
next
  case (4 m)
  then obtain k where "n = Suc k" by (cases n) auto
  then show ?case by simp
next
  case (5 m)
  then obtain k where "n = Suc k" by (cases n) auto
  then show ?case by simp
next
  case 1
  then obtain k where "n = Suc k" by (cases n) auto
  then show ?case by simp
qed

section \<open>The sample platform\<close>

definition sample_from_slice :: "string \<Rightarrow> string + json" where
  "sample_from_slice s = (case dec_value (Suc (length s)) s of
      Some (v, []) \<Rightarrow> Inr v
    | _ \<Rightarrow> Inl ''expected value'')"

definition sample_platform :: platform where
  "sample_platform = \<lparr>to_vec = enc, from_slice = sample_from_slice,
     from_slice_typed = \<lambda>_. sample_from_slice, other_struct = \<lambda>_ _. None,
     other_tag = \<lambda>_ _. None, de_error = \<lambda>T _. ''invalid '' @ T, show_f64 = \<lambda>_. ''0'',
     sha256 = \<lambda>_. replicate 32 171\<rparr>"

lemma sample_json_text_ok: "json_text_ok sample_platform"
proof -
  have "sample_from_slice (enc v) = Inr v" for v
    using dec_value_enc [of v "Suc (length (enc v))" "[]"] by (simp add: sample_from_slice_def)
  then show ?thesis by (simp add: json_text_ok_def sample_platform_def)
qed

lemma sample_sha256_ok: "sha256_ok sample_platform"
  by (simp add: sha256_ok_def sample_platform_def)

end
