(* ===== verification/Codec.thy ===== *)
theory Codec
  imports Frames Sample_Platform
begin

text \<open>
  \<open>envelope.rs\<close> and \<open>codec.rs\<close>: whole frames to and from JSON text, with the \<open>v: 1\<close> envelope and
  the validation that follows decoding. A serde error is \<open>LJson\<close> with serde's own text.
\<close>

section \<open>The envelope\<close>

definition PROTOCOL_VERSION :: u8 where
  "PROTOCOL_VERSION = 1"

definition WEBSOCKET_SUBPROTOCOL :: string where
  "WEBSOCKET_SUBPROTOCOL = ''lsdp.v1''"

definition WEBSOCKET_SUBPROTOCOL_V1_1 :: string where
  "WEBSOCKET_SUBPROTOCOL_V1_1 = ''lsdp.v1.1''"

definition WEBSOCKET_SUBPROTOCOLS :: "string list" where
  "WEBSOCKET_SUBPROTOCOLS = [WEBSOCKET_SUBPROTOCOL_V1_1, WEBSOCKET_SUBPROTOCOL]"

definition inject_version :: "json \<Rightarrow> LumencastError + json" where
  "inject_version v = (case as_object v of
      None \<Rightarrow> Inl (LInvalidEnvelope ''frame must serialize to a JSON object'')
    | Some m \<Rightarrow> Inr (JObject (bt_insert ''v'' (JNumber (PosInt (ucast PROTOCOL_VERSION))) m)))"

definition encode_with_envelope :: "platform \<Rightarrow> json \<Rightarrow> LumencastError + string" where
  "encode_with_envelope P frame = bindE (inject_version frame) (\<lambda>v. Inr (to_vec P v))"

definition decode_with_envelope ::
    "platform \<Rightarrow> string \<Rightarrow> (json \<Rightarrow> 'a option) \<Rightarrow> string \<Rightarrow> LumencastError + 'a" where
  "decode_with_envelope P T de input = (case from_slice P input of
      Inl e \<Rightarrow> Inl (LJson e)
    | Inr raw \<Rightarrow> (case as_object raw of
        None \<Rightarrow> Inl (LInvalidEnvelope ''frame must be a JSON object'')
      | Some m \<Rightarrow> (case Option.bind (bt_get m ''v'') as_u64 of
          None \<Rightarrow> Inl (LInvalidEnvelope ''envelope missing `v` field'')
        | Some v \<Rightarrow>
            (if v \<noteq> ucast PROTOCOL_VERSION then Inl (LVersionMismatch v)
             else if \<not> bt_contains_key m ''type''
             then Inl (LInvalidEnvelope ''envelope missing `type` field'')
             else (case de raw of None \<Rightarrow> Inl (LJson (de_error P T raw)) | Some f \<Rightarrow> Inr f)))))"

section \<open>Validation\<close>

fun validate_patches :: "Patch list \<Rightarrow> LumencastError + unit" where
  "validate_patches [] = Inr ()"
| "validate_patches (p # ps) =
     (if \<not> is_value_legal p
      then Inl (invalid_value_at (patch_path p)
        (''patch at '' @ patch_path p @ '': value MUST NOT be a JSON object''))
      else validate_patches ps)"

fun validate_state :: "State \<Rightarrow> LumencastError + unit" where
  "validate_state [] = Inr ()"
| "validate_state ((path, v) # m) =
     (if is_object v
      then Inl (invalid_value
        (''snapshot state at '' @ debug_str path @ '': leaf value MUST NOT be an object''))
      else validate_state m)"

definition validate_server :: "ServerFrame \<Rightarrow> LumencastError + ServerFrame" where
  "validate_server frame = (case frame of
      FDelta d \<Rightarrow> bindE (validate_patches (delta_patches d)) (\<lambda>_. Inr frame)
    | FSnapshot s \<Rightarrow> bindE (validate_state (snapshot_state s)) (\<lambda>_. Inr frame)
    | _ \<Rightarrow> Inr frame)"

definition validate_client :: "ClientFrame \<Rightarrow> LumencastError + ClientFrame" where
  "validate_client frame = (case frame of
      CInput i \<Rightarrow>
        (if input_patches i = [] then Inl (invalid_value ''input frame patches MUST NOT be empty'')
         else bindE (validate_patches (input_patches i)) (\<lambda>_. Inr frame))
    | _ \<Rightarrow> Inr frame)"

section \<open>Entry points\<close>

definition encode_server :: "platform \<Rightarrow> ServerFrame \<Rightarrow> LumencastError + string" where
  "encode_server P frame = encode_with_envelope P (ser_server_frame frame)"

definition decode_server :: "platform \<Rightarrow> string \<Rightarrow> LumencastError + ServerFrame" where
  "decode_server P input =
     bindE (decode_with_envelope P ''ServerFrame'' (de_server_frame P) input) validate_server"

definition encode_client :: "platform \<Rightarrow> ClientFrame \<Rightarrow> LumencastError + string" where
  "encode_client P frame = encode_with_envelope P (ser_client_frame frame)"

definition decode_client :: "platform \<Rightarrow> string \<Rightarrow> LumencastError + ClientFrame" where
  "decode_client P input =
     bindE (decode_with_envelope P ''ClientFrame'' (de_client_frame P) input) validate_client"

text \<open>
  The variants on \<open>&str\<close> and \<open>String\<close>. Text is its bytes here, and \<open>to_string\<close> prints the bytes of
  \<open>to_vec\<close>, so they are the same functions.
\<close>

abbreviation encode_server_str :: "platform \<Rightarrow> ServerFrame \<Rightarrow> LumencastError + string" where
  "encode_server_str P frame \<equiv> encode_server P frame"

abbreviation decode_server_str :: "platform \<Rightarrow> string \<Rightarrow> LumencastError + ServerFrame" where
  "decode_server_str P input \<equiv> decode_server P input"

abbreviation encode_client_str :: "platform \<Rightarrow> ClientFrame \<Rightarrow> LumencastError + string" where
  "encode_client_str P frame \<equiv> encode_client P frame"

abbreviation decode_client_str :: "platform \<Rightarrow> string \<Rightarrow> LumencastError + ClientFrame" where
  "decode_client_str P input \<equiv> decode_client P input"

section \<open>Lemmas\<close>

lemma validate_patches_ok: "is_ok (validate_patches ps) \<longleftrightarrow> list_all is_value_legal ps"
  by (induction ps rule: validate_patches.induct) auto

lemma validate_patches_error:
  "validate_patches ps = Inl e \<Longrightarrow>
    \<exists>p \<in> set ps. is_object (patch_value p) \<and> (\<exists>m. e = invalid_value_at (patch_path p) m)"
  by (induction ps rule: validate_patches.induct) (auto simp: is_value_legal_def split: if_splits)

lemma validate_state_ok: "is_ok (validate_state m) \<longleftrightarrow> list_all (\<lambda>kv. \<not> is_object (snd kv)) m"
  by (induction m rule: validate_state.induct) auto

fun server_frame_legal :: "ServerFrame \<Rightarrow> bool" where
  "server_frame_legal (FDelta d) = list_all is_value_legal (delta_patches d)"
| "server_frame_legal (FSnapshot s) = list_all (\<lambda>kv. \<not> is_object (snd kv)) (snapshot_state s)"
| "server_frame_legal _ = True"

fun client_frame_legal :: "ClientFrame \<Rightarrow> bool" where
  "client_frame_legal (CInput i) = (input_patches i \<noteq> [] \<and> list_all is_value_legal (input_patches i))"
| "client_frame_legal _ = True"

lemma unit_result_cases: "r = Inr () \<longleftrightarrow> is_ok r"
  by (cases r) auto

lemma validate_server_iff: "validate_server f = Inr g \<longleftrightarrow> server_frame_legal f \<and> g = f"
  by (cases f) (auto simp: validate_server_def bindE_eq_Inr unit_result_cases
      validate_patches_ok validate_state_ok)

lemma validate_client_iff: "validate_client f = Inr g \<longleftrightarrow> client_frame_legal f \<and> g = f"
  by (cases f) (auto simp: validate_client_def bindE_eq_Inr unit_result_cases validate_patches_ok)

lemma inject_version_obj: "inject_version (obj kvs) = Inr (with_v (JNumber (PosInt 1)) (obj kvs))"
  by (simp add: inject_version_def obj_def with_v_def PROTOCOL_VERSION_def)

lemma inject_version_server:
  "inject_version (ser_server_frame f) = Inr (with_v (JNumber (PosInt 1)) (ser_server_frame f))"
  by (cases f) (simp_all add: tagged_def inject_version_obj)

lemma inject_version_client:
  "inject_version (ser_client_frame f) = Inr (with_v (JNumber (PosInt 1)) (ser_client_frame f))"
  by (cases f) (simp_all add: tagged_def inject_version_obj)

lemma decode_envelope_ok:
  "from_slice P input = Inr raw \<Longrightarrow> raw = JObject m \<Longrightarrow> bt_get m ''v'' = Some (JNumber (PosInt 1))
    \<Longrightarrow> bt_get m ''type'' \<noteq> None \<Longrightarrow> de raw = Some f \<Longrightarrow> decode_with_envelope P T de input = Inr f"
  by (simp add: decode_with_envelope_def PROTOCOL_VERSION_def bt_contains_key_def as_u64_def)

lemma decode_envelope_Inr:
  "decode_with_envelope P T de input = Inr f \<Longrightarrow>
    \<exists>m. from_slice P input = Inr (JObject m) \<and> bt_get m ''v'' = Some (JNumber (PosInt 1)) \<and>
      bt_contains_key m ''type'' \<and> de (JObject m) = Some f"
  by (auto simp: decode_with_envelope_def PROTOCOL_VERSION_def split: sum.splits option.splits
      if_splits Option.bind_splits)

section \<open>What the text layer can carry\<close>

text \<open>
  The encoders add at most three levels of nesting to a payload. A frame whose payload values are
  well-formed, free of floats and at most 124 levels deep is within the documented range of the
  JSON text layer.
\<close>

definition safe_at :: "nat \<Rightarrow> json \<Rightarrow> bool" where
  "safe_at n v \<longleftrightarrow> json_wf v \<and> no_floats v \<and> jdepth v \<le> n"

definition payload_safe :: "json \<Rightarrow> bool" where
  "payload_safe v \<longleftrightarrow> safe_at 124 v"

fun transition_safe :: "TransitionSpec \<Rightarrow> bool" where
  "transition_safe (Spring stiffness damping) = (stiffness = None \<and> damping = None)"
| "transition_safe _ = True"

definition patch_safe :: "Patch \<Rightarrow> bool" where
  "patch_safe p \<longleftrightarrow> payload_safe (patch_value p) \<and> pred_option transition_safe (patch_transition p)"

fun server_frame_safe :: "ServerFrame \<Rightarrow> bool" where
  "server_frame_safe (FDelta d) = list_all patch_safe (delta_patches d)"
| "server_frame_safe (FSnapshot s) =
     (bt_wf (snapshot_state s) \<and> list_all (\<lambda>kv. payload_safe (snd kv)) (snapshot_state s))"
| "server_frame_safe _ = True"

fun client_frame_safe :: "ClientFrame \<Rightarrow> bool" where
  "client_frame_safe (CInput i) = list_all patch_safe (input_patches i)"
| "client_frame_safe _ = True"

lemma set_bt_insert: "set (bt_insert k v m) \<subseteq> insert (k, v) (set m)"
  by (induction k v m rule: bt_insert.induct) auto

lemma set_bt_insert_all: "set (bt_insert_all kvs m) \<subseteq> set kvs \<union> set m"
proof (induction kvs arbitrary: m)
  case (Cons kv kvs)
  obtain k v where "kv = (k, v)" by fastforce
  with Cons [of "bt_insert k v m"] set_bt_insert [of k v m] show ?case by auto
qed simp

lemma foldr_max_le: "foldr (\<lambda>x n. max (f x) n) xs 0 \<le> (b :: nat) \<longleftrightarrow> (\<forall>x \<in> set xs. f x \<le> b)"
  by (induction xs) auto

lemma safe_at_mono: "safe_at n v \<Longrightarrow> n \<le> m \<Longrightarrow> safe_at m v"
  by (simp add: safe_at_def)

lemma safe_at_object:
  "safe_at (Suc n) (JObject m) \<longleftrightarrow> bt_wf m \<and> (\<forall>kv \<in> set m. safe_at n (snd kv))"
  by (auto simp: safe_at_def list_all_iff foldr_max_le)

lemma safe_at_array: "safe_at (Suc n) (JArray vs) \<longleftrightarrow> (\<forall>v \<in> set vs. safe_at n v)"
  by (auto simp: safe_at_def list_all_iff foldr_max_le)

lemma safe_at_prims [simp]:
  "safe_at n JNull" "safe_at n (JBool b)" "safe_at n (JString s)" "safe_at n (JNumber (PosInt k))"
  "safe_at n (ser_u64 i)" "safe_at n (ser_u32 j)" "safe_at n (ser_easing e)"
  by (simp_all add: safe_at_def ser_u64_def ser_u32_def ser_easing_def)

lemma safe_at_obj: "0 < n \<Longrightarrow> (\<forall>kv \<in> set kvs. safe_at (n - 1) (snd kv)) \<Longrightarrow> safe_at n (obj kvs)"
  using set_bt_insert_all [of kvs "[]"] safe_at_object [of "n - 1" "bt_of kvs"]
  by (auto simp: obj_def)

lemma safe_at_with_v:
  "0 < n \<Longrightarrow> safe_at n (obj kvs) \<Longrightarrow> safe_at n (with_v (JNumber (PosInt k)) (obj kvs))"
  using set_bt_insert [of "''v''" "JNumber (PosInt k)" "bt_of kvs"]
    safe_at_object [of "n - 1" "bt_of kvs"]
    safe_at_object [of "n - 1" "bt_insert ''v'' (JNumber (PosInt k)) (bt_of kvs)"]
  by (auto simp: obj_def with_v_def)

lemma set_opt_field: "kv \<in> set (opt_field k f x) \<longleftrightarrow> (\<exists>a. x = Some a \<and> kv = (k, f a))"
  by (auto simp: opt_field_def split: option.splits)

lemma safe_at_transition: "transition_safe t \<Longrightarrow> 0 < n \<Longrightarrow> safe_at n (ser_transition_spec t)"
  by (cases t) (auto intro!: safe_at_obj simp: set_opt_field)

lemma safe_at_patch: "patch_safe p \<Longrightarrow> safe_at 125 (ser_patch p)"
  unfolding ser_patch_def
  by (intro safe_at_obj)
    (auto simp: patch_safe_def payload_safe_def set_opt_field safe_at_transition)

lemma safe_at_patches:
  "list_all patch_safe ps \<Longrightarrow> safe_at 126 (JArray (map ser_patch ps))"
  using safe_at_array [of 125 "map ser_patch ps"] safe_at_patch by (simp add: list_all_iff)

lemma safe_at_cause: "safe_at 126 (ser_cause c)"
  unfolding ser_cause_def by (intro safe_at_obj) (auto simp: set_opt_field)

lemma safe_at_scene_transition: "safe_at 126 (ser_scene_transition t)"
  unfolding ser_scene_transition_def by (intro safe_at_obj) (auto simp: set_opt_field)

lemma safe_at_state:
  "bt_wf m \<Longrightarrow> list_all (\<lambda>kv. payload_safe (snd kv)) m \<Longrightarrow> safe_at 126 (JObject m)"
  using safe_at_object [of 125 m] safe_at_mono [of 124 _ 125]
  by (simp add: list_all_iff payload_safe_def)

lemmas safe_at_parts = safe_at_patches safe_at_cause safe_at_scene_transition safe_at_state

lemma server_wire_safe:
  assumes "server_frame_safe f"
  shows "wire_safe (with_v (JNumber (PosInt 1)) (ser_server_frame f))"
proof -
  have "safe_at 127 (with_v (JNumber (PosInt 1)) (ser_server_frame f))"
    using assms
    by (cases f) (auto simp: tagged_def field_defs set_opt_field safe_at_parts
        intro!: safe_at_with_v safe_at_obj)
  then show ?thesis by (simp add: safe_at_def wire_safe_def)
qed

lemma client_wire_safe:
  assumes "client_frame_safe f"
  shows "wire_safe (with_v (JNumber (PosInt 1)) (ser_client_frame f))"
proof -
  have "safe_at 127 (with_v (JNumber (PosInt 1)) (ser_client_frame f))"
    using assms
    by (cases f) (auto simp: tagged_def field_defs set_opt_field safe_at_parts
        intro!: safe_at_with_v safe_at_obj)
  then show ?thesis by (simp add: safe_at_def wire_safe_def)
qed

lemma ser_server_type:
  "\<exists>m. with_v j (ser_server_frame f) = JObject m \<and> bt_get m ''v'' = Some j \<and> bt_get m ''type'' \<noteq> None"
  by (cases f) (auto simp: tagged_def with_v_obj get_insert_all map_add_def
      simp del: insert_all_Cons split: option.splits)

lemma ser_client_type:
  "\<exists>m. with_v j (ser_client_frame f) = JObject m \<and> bt_get m ''v'' = Some j \<and> bt_get m ''type'' \<noteq> None"
  by (cases f) (auto simp: tagged_def with_v_obj get_insert_all map_add_def
      simp del: insert_all_Cons split: option.splits)

section \<open>The codec interface\<close>

text \<open>
  What the envelope layer needs of a frame type: its writer gives an object with a tag, its reader
  inverts the writer whatever else the object holds, and its validation accepts exactly the legal
  frames. Both directions of the wire are instances.
\<close>

locale frame_codec =
  fixes ser :: "'f \<Rightarrow> json"
    and de :: "platform \<Rightarrow> json \<Rightarrow> 'f option"
    and validate :: "'f \<Rightarrow> LumencastError + 'f"
    and wf :: "'f \<Rightarrow> bool"
    and safe :: "'f \<Rightarrow> bool"
    and legal :: "'f \<Rightarrow> bool"
    and T :: string
  assumes de_ser: "wf f \<Longrightarrow> de P (with_v j (ser f)) = Some f"
    and ser_tagged: "\<exists>m. with_v j (ser f) = JObject m \<and> bt_get m ''v'' = Some j
      \<and> bt_get m ''type'' \<noteq> None"
    and inject_ser: "inject_version (ser f) = Inr (with_v (JNumber (PosInt 1)) (ser f))"
    and ser_safe: "safe f \<Longrightarrow> wire_safe (with_v (JNumber (PosInt 1)) (ser f))"
    and validate_iff: "validate f = Inr g \<longleftrightarrow> legal f \<and> g = f"
begin

lemma envelope_roundtrip:
  assumes "json_text_ok P" "wf f" "safe f"
  shows "bindE (encode_with_envelope P (ser f)) (decode_with_envelope P T (de P)) = Inr f"
proof -
  let ?v = "with_v (JNumber (PosInt 1)) (ser f)"
  obtain m where m: "?v = JObject m" "bt_get m ''v'' = Some (JNumber (PosInt 1))"
      "bt_get m ''type'' \<noteq> None"
    using ser_tagged by blast
  have "from_slice P (to_vec P ?v) = Inr ?v"
    using assms(1) ser_safe [OF assms(3)] by (simp add: json_text_ok_def)
  then have "decode_with_envelope P T (de P) (to_vec P ?v) = Inr f"
    using m de_ser [OF assms(2), of P "JNumber (PosInt 1)"] by (intro decode_envelope_ok) auto
  then show ?thesis by (simp add: encode_with_envelope_def inject_ser)
qed

lemma encoded_validated:
  assumes "json_text_ok P" "wf f" "safe f"
  shows "bindE (encode_with_envelope P (ser f))
    (\<lambda>s. bindE (decode_with_envelope P T (de P) s) validate) = validate f"
  using envelope_roundtrip [OF assms] by (auto simp: bindE_eq_Inr)

lemma roundtrip:
  assumes "json_text_ok P" "wf f" "safe f" "legal f"
  shows "bindE (encode_with_envelope P (ser f))
    (\<lambda>s. bindE (decode_with_envelope P T (de P) s) validate) = Inr f"
  using encoded_validated [OF assms(1-3)] assms(4) by (simp add: validate_iff)

lemma decoded:
  assumes "bindE (decode_with_envelope P T (de P) s) validate = Inr f"
  shows "legal f \<and> (\<exists>m. from_slice P s = Inr (JObject m)
    \<and> bt_get m ''v'' = Some (JNumber (PosInt 1)) \<and> de P (JObject m) = Some f)"
  using assms decode_envelope_Inr [of P T "de P" s] by (auto simp: bindE_eq_Inr validate_iff)

lemma version_checked_first:
  assumes "from_slice P s = Inr (JObject m)" "bt_get m ''v'' = Some (JNumber (PosInt v))" "v \<noteq> 1"
  shows "bindE (decode_with_envelope P T (de P) s) validate = Inl (LVersionMismatch v)"
  using assms by (simp add: decode_with_envelope_def as_u64_def PROTOCOL_VERSION_def)

end

interpretation server_codec: frame_codec ser_server_frame de_server_frame validate_server
    server_frame_wf server_frame_safe server_frame_legal "''ServerFrame''"
  by unfold_locales
    (erule de_ser_server_frame server_wire_safe
      | rule ser_server_type inject_version_server validate_server_iff)+

interpretation client_codec: frame_codec ser_client_frame de_client_frame validate_client
    client_frame_wf client_frame_safe client_frame_legal "''ClientFrame''"
  by unfold_locales
    (erule de_ser_client_frame client_wire_safe
      | rule ser_client_type inject_version_client validate_client_iff)+

text \<open>The text of a frame: encoding never fails.\<close>

definition server_text :: "platform \<Rightarrow> ServerFrame \<Rightarrow> string" where
  "server_text P f = to_vec P (with_v (JNumber (PosInt 1)) (ser_server_frame f))"

definition client_text :: "platform \<Rightarrow> ClientFrame \<Rightarrow> string" where
  "client_text P f = to_vec P (with_v (JNumber (PosInt 1)) (ser_client_frame f))"

lemma encode_server_text: "encode_server P f = Inr (server_text P f)"
  by (simp add: encode_server_def encode_with_envelope_def inject_version_server server_text_def)

lemma encode_client_text: "encode_client P f = Inr (client_text P f)"
  by (simp add: encode_client_def encode_with_envelope_def inject_version_client client_text_def)

lemma decode_server_text:
  "json_text_ok P \<Longrightarrow> server_frame_wf f \<Longrightarrow> server_frame_safe f \<Longrightarrow> server_frame_legal f
    \<Longrightarrow> decode_server P (server_text P f) = Inr f"
  using server_codec.roundtrip [of P f] encode_server_text [of P f]
  by (simp add: encode_server_def decode_server_def)

lemma decode_client_text:
  "json_text_ok P \<Longrightarrow> client_frame_wf f \<Longrightarrow> client_frame_safe f \<Longrightarrow> client_frame_legal f
    \<Longrightarrow> decode_client P (client_text P f) = Inr f"
  using client_codec.roundtrip [of P f] encode_client_text [of P f]
  by (simp add: encode_client_def decode_client_def)

text \<open>The text of a frame that is not legal is refused.\<close>

lemma decode_server_illegal:
  assumes "json_text_ok P" "server_frame_wf f" "server_frame_safe f" "\<not> server_frame_legal f"
  shows "\<exists>e. decode_server P (server_text P f) = Inl e"
proof -
  have "decode_server P (server_text P f) = validate_server f"
    using server_codec.encoded_validated [OF assms(1-3)] encode_server_text [of P f]
    by (simp add: encode_server_def decode_server_def)
  then show ?thesis
    using assms(4) validate_server_iff [of f] by (cases "validate_server f") auto
qed

section \<open>Properties\<close>

text \<open>
  C15. Encoding any server frame whose values are legal leaf values and decoding the text gives the
  same frame back, through the envelope, the text layer, the derived readers and the validation.
\<close>
theorem server_frame_roundtrip:
  assumes "json_text_ok P" "server_frame_wf f" "server_frame_safe f" "server_frame_legal f"
  shows "bindE (encode_server P f) (decode_server P) = Inr f"
  using server_codec.roundtrip [OF assms] by (simp add: encode_server_def decode_server_def [abs_def])

lemma sample_patch_ok:
  "patch_wf (patch_new ''players.0.score'' (jnat 3)) \<and> patch_safe (patch_new ''players.0.score'' (jnat 3))
    \<and> is_value_legal (patch_new ''players.0.score'' (jnat 3))"
proof -
  have "is_ok (validate_path ''players.0.score'')" by code_simp
  then have "valid_path ''players.0.score''" by (simp only: validate_path_ok)
  then show ?thesis
    by (simp add: patch_new_def patch_wf_def patch_safe_def payload_safe_def jnat_def
        is_value_legal_def)
qed

theorem server_frame_roundtrip_witness:
  "bindE (encode_server sample_platform (FDelta \<lparr>delta_seq = 7,
       delta_patches = [patch_new ''players.0.score'' (jnat 3)], delta_ts = Some ''t'',
       delta_cause = Some \<lparr>cause_source = ''operator:ann'', cause_input_id = None\<rparr>\<rparr>))
     (decode_server sample_platform) =
   Inr (FDelta \<lparr>delta_seq = 7, delta_patches = [patch_new ''players.0.score'' (jnat 3)],
       delta_ts = Some ''t'',
       delta_cause = Some \<lparr>cause_source = ''operator:ann'', cause_input_id = None\<rparr>\<rparr>)"
  by (rule server_frame_roundtrip [OF sample_json_text_ok]) (simp_all add: sample_patch_ok)

text \<open>
  C16. The same round trip for client frames: \<open>subscribe\<close>, \<open>input\<close>, \<open>ping\<close> and \<open>unsubscribe\<close>.
\<close>
theorem client_frame_roundtrip:
  assumes "json_text_ok P" "client_frame_wf f" "client_frame_safe f" "client_frame_legal f"
  shows "bindE (encode_client P f) (decode_client P) = Inr f"
  using client_codec.roundtrip [OF assms] by (simp add: encode_client_def decode_client_def [abs_def])

theorem client_frame_roundtrip_witness:
  "bindE (encode_client sample_platform (CInput \<lparr>
       input_patches = [patch_new ''players.0.score'' (jnat 3)], input_client_msg_id = Some ''m1''\<rparr>))
     (decode_client sample_platform) =
   Inr (CInput \<lparr>input_patches = [patch_new ''players.0.score'' (jnat 3)],
       input_client_msg_id = Some ''m1''\<rparr>)"
  by (rule client_frame_roundtrip [OF sample_json_text_ok]) (simp_all add: sample_patch_ok)

text \<open>
  Whatever bytes arrive, an \<open>input\<close> frame that decodes has at least one patch, and each of its
  patches has a path of the grammar and a value that is not an object.
\<close>
theorem decode_client_input_legal:
  assumes "decode_client P s = Inr (CInput i)"
  shows "input_patches i \<noteq> []
    \<and> list_all (\<lambda>p. valid_path (patch_path p) \<and> \<not> is_object (patch_value p)) (input_patches i)"
proof -
  have dec: "client_frame_legal (CInput i) \<and>
      (\<exists>m. from_slice P s = Inr (JObject m) \<and> bt_get m ''v'' = Some (JNumber (PosInt 1))
        \<and> de_client_frame P (JObject m) = Some (CInput i))"
    using assms unfolding decode_client_def by (rule client_codec.decoded)
  then show ?thesis
    by (auto simp: list_all_iff is_value_legal_def dest: de_client_frame_paths)
qed

theorem decode_client_input_legal_witness:
  "list_all (\<lambda>p. valid_path (patch_path p) \<and> \<not> is_object (patch_value p))
     [patch_new ''players.0.score'' (jnat 3)]"
proof -
  let ?i = "\<lparr>input_patches = [patch_new ''players.0.score'' (jnat 3)], input_client_msg_id = None\<rparr>"
  have "bindE (encode_client sample_platform (CInput ?i)) (decode_client sample_platform) = Inr (CInput ?i)"
    using client_codec.roundtrip [OF sample_json_text_ok, of "CInput ?i"]
    by (simp add: encode_client_def decode_client_def [abs_def] sample_patch_ok)
  then obtain s where "decode_client sample_platform s = Inr (CInput ?i)"
    by (auto simp: bindE_eq_Inr)
  from decode_client_input_legal [OF this] show ?thesis by simp
qed

end
