(* ===== verification/Bundle.thy ===== *)
theory Bundle
  imports Codec
begin

text \<open>
  \<open>bundle.rs\<close>: LSML scene bundles, their parser, the static validation of the layout tree, and the
  content hash. The layout walks are the worklist loops of the source, with the top of the Rust
  stack at the head of the list.
\<close>

unbundle bit_operations_syntax

section \<open>Data\<close>

definition SUPPORTED_LSML_MAJOR :: nat where
  "SUPPORTED_LSML_MAJOR = 1"

definition placeholder_hash :: string where
  "placeholder_hash = ''sha256:'' @ replicate 64 CHR ''0''"

datatype BundleError =
    BJson string
  | BInvalid string
  | BIncompatible string
  | BHashMismatch string string

text \<open>Characters the messages use that a literal cannot hold.\<close>

definition dq :: string where "dq = [CHR 0x22]"
definition section_sign :: string where "section_sign = [CHR 0xC2, CHR 0xA7]"
definition em_dash :: string where "em_dash = [CHR 0xE2, CHR 0x80, CHR 0x94]"

fun show_bundle_error :: "BundleError \<Rightarrow> string" where
  "show_bundle_error (BJson e) = ''invalid JSON: '' @ e"
| "show_bundle_error (BInvalid e) = ''invalid bundle: '' @ e"
| "show_bundle_error (BIncompatible got) = ''incompatible LSML version: '' @ got @ '' (supported: 1.x)''"
| "show_bundle_error (BHashMismatch declared computed) =
     ''content hash mismatch: bundle declares '' @ declared @ '', computed '' @ computed"

record OperatorInput =
  op_path :: string
  op_label :: string
  op_kind :: string
  op_constraints :: "json option"
  op_writable_by :: "string list"
  op_group :: "string option"
  op_values :: "json option"

record Bundle =
  bundle_lsml :: string
  bundle_scene_id :: SceneId
  bundle_scene_version :: SceneVersion
  bundle_layout :: json
  bundle_operator_inputs :: "OperatorInput list"
  bundle_external_adapters :: "json list"
  bundle_defaults :: jmap
  bundle_assets :: "json option"
  bundle_i18n :: "json option"
  bundle_metadata :: "json option"

text \<open>\<open>skip_serializing_if = Vec::is_empty\<close> and \<open>default\<close> on a vector.\<close>

definition vec_field :: "string \<Rightarrow> ('a \<Rightarrow> json) \<Rightarrow> 'a list \<Rightarrow> (string \<times> json) list" where
  "vec_field k f xs = opt_field k (\<lambda>ys. JArray (map f ys)) (if xs = [] then None else Some xs)"

definition de_vec_default :: "jmap \<Rightarrow> string \<Rightarrow> (json \<Rightarrow> 'a option) \<Rightarrow> 'a list option" where
  "de_vec_default m k d = (case bt_get m k of None \<Rightarrow> Some [] | Some v \<Rightarrow> de_vec d v)"

definition ser_operator_input :: "OperatorInput \<Rightarrow> json" where
  "ser_operator_input op =
     obj ([(''path'', JString (op_path op)), (''label'', JString (op_label op)),
       (''type'', JString (op_kind op))]
       @ opt_field ''constraints'' (\<lambda>v. v) (op_constraints op)
       @ vec_field ''writable_by'' JString (op_writable_by op)
       @ opt_field ''group'' JString (op_group op) @ opt_field ''values'' (\<lambda>v. v) (op_values op))"

definition de_operator_input :: "platform \<Rightarrow> json \<Rightarrow> OperatorInput option" where
  "de_operator_input P v = do {
     m \<leftarrow> de_fields P ''OperatorInput'' v;
     path \<leftarrow> de_req m ''path'' de_str;
     label \<leftarrow> de_req m ''label'' de_str;
     kind \<leftarrow> de_req m ''type'' de_str;
     constraints \<leftarrow> de_opt m ''constraints'' Some;
     writable_by \<leftarrow> de_vec_default m ''writable_by'' de_str;
     group \<leftarrow> de_opt m ''group'' de_str;
     vals \<leftarrow> de_opt m ''values'' Some;
     Some \<lparr>op_path = path, op_label = label, op_kind = kind, op_constraints = constraints,
       op_writable_by = writable_by, op_group = group, op_values = vals\<rparr> }"

definition ser_bundle :: "Bundle \<Rightarrow> json" where
  "ser_bundle b =
     obj ([(''lsml'', JString (bundle_lsml b)), (''scene_id'', JString (bundle_scene_id b)),
       (''scene_version'', JString (bundle_scene_version b)), (''layout'', bundle_layout b)]
       @ vec_field ''operator_inputs'' ser_operator_input (bundle_operator_inputs b)
       @ vec_field ''external_adapters'' (\<lambda>v. v) (bundle_external_adapters b)
       @ opt_field ''defaults'' JObject (if bundle_defaults b = [] then None else Some (bundle_defaults b))
       @ opt_field ''assets'' (\<lambda>v. v) (bundle_assets b)
       @ opt_field ''i18n'' (\<lambda>v. v) (bundle_i18n b)
       @ opt_field ''metadata'' (\<lambda>v. v) (bundle_metadata b))"

definition de_bundle :: "platform \<Rightarrow> json \<Rightarrow> Bundle option" where
  "de_bundle P v = do {
     m \<leftarrow> de_fields P ''Bundle'' v;
     lsml \<leftarrow> de_req m ''lsml'' de_str;
     scene_id \<leftarrow> de_req m ''scene_id'' de_str;
     scene_version \<leftarrow> de_req m ''scene_version'' de_str;
     layout \<leftarrow> de_req m ''layout'' Some;
     operator_inputs \<leftarrow> de_vec_default m ''operator_inputs'' (de_operator_input P);
     external_adapters \<leftarrow> de_vec_default m ''external_adapters'' Some;
     defaults \<leftarrow> (case bt_get m ''defaults'' of None \<Rightarrow> Some [] | Some d \<Rightarrow> as_object d);
     assets \<leftarrow> de_opt m ''assets'' Some;
     i18n \<leftarrow> de_opt m ''i18n'' Some;
     metadata \<leftarrow> de_opt m ''metadata'' Some;
     Some \<lparr>bundle_lsml = lsml, bundle_scene_id = scene_id, bundle_scene_version = scene_version,
       bundle_layout = layout, bundle_operator_inputs = operator_inputs,
       bundle_external_adapters = external_adapters, bundle_defaults = defaults,
       bundle_assets = assets, bundle_i18n = i18n, bundle_metadata = metadata\<rparr> }"

section \<open>Node checks\<close>

definition ANIMATE_ALLOWED :: "string list" where
  "ANIMATE_ALLOWED = [''transition'', ''transform'', ''opacity'', ''filter'']"

definition PRIMITIVE_KINDS :: "string list" where
  "PRIMITIVE_KINDS =
     [''stack'', ''grid'', ''frame'', ''text'', ''image'', ''shape'', ''media'', ''repeat'']"

definition ZAB_CAPTURE_KIND :: string where
  "ZAB_CAPTURE_KIND = ''x-zab.capture''"

definition CAPTURE_VISUAL_KINDS :: "string list" where
  "CAPTURE_VISUAL_KINDS =
     [''media.webcam'', ''media.screen'', ''media.window'', ''media.file'', ''media.game'']"

definition CAPTURE_AUDIO_KINDS :: "string list" where
  "CAPTURE_AUDIO_KINDS = [''media.app_audio'', ''media.system_audio'', ''media.mic'']"

fun comma_join :: "string list \<Rightarrow> string" where
  "comma_join [] = []"
| "comma_join [s] = s"
| "comma_join (s # t # ts) = s @ '', '' @ comma_join (t # ts)"

definition get_str :: "jmap \<Rightarrow> string \<Rightarrow> string option" where
  "get_str m k = Option.bind (bt_get m k) as_str"

definition is_logical_device_ref :: "string \<Rightarrow> bool" where
  "is_logical_device_ref s =
     (if 64 < length s then False
      else (case s of
          [] \<Rightarrow> False
        | c # cs \<Rightarrow> is_ascii_lowercase c
            \<and> list_all (\<lambda>c. is_ascii_lowercase c \<or> is_ascii_digit c \<or> c = CHR ''-'') cs))"

definition check_zab_capture :: "jmap \<Rightarrow> BundleError + unit" where
  "check_zab_capture m = (case get_str m ''x-zab.sourceKind'' of
      None \<Rightarrow> Inl (BInvalid ''`x-zab.capture` MUST declare `x-zab.sourceKind` (RFC-0001)'')
    | Some source_kind \<Rightarrow>
        (let visual = source_kind \<in> set CAPTURE_VISUAL_KINDS in
         if \<not> visual \<and> source_kind \<notin> set CAPTURE_AUDIO_KINDS
         then Inl (BInvalid (''unknown `x-zab.sourceKind` '' @ debug_str source_kind
           @ '' (RFC-0001 A2 '' @ section_sign @ ''A2.2: '' @ comma_join CAPTURE_VISUAL_KINDS @ '', ''
           @ comma_join CAPTURE_AUDIO_KINDS @ '')''))
         else (case get_str m ''x-zab.deviceRef'' of
             None \<Rightarrow> Inl (BInvalid ''`x-zab.capture` MUST declare `x-zab.deviceRef` (RFC-0001)'')
           | Some device_ref \<Rightarrow>
               (if \<not> is_logical_device_ref device_ref
                then Inl (BInvalid (''`x-zab.deviceRef` '' @ debug_str device_ref
                  @ '' MUST be a logical alias matching ^[a-z][a-z0-9-]{0,63}$ '' @ em_dash
                  @ '' never a physical device id (RFC-0001)''))
                else if visual \<and> \<not> bt_contains_key m ''size''
                then Inl (BInvalid (''`x-zab.capture` of visual kind '' @ debug_str source_kind
                  @ '' MUST declare `size` (RFC-0001 Amendment 2 '' @ section_sign @ ''A2.2)''))
                else Inr ()))))"

definition check_per_kind :: "string \<Rightarrow> jmap \<Rightarrow> BundleError + unit" where
  "check_per_kind kind m =
     (if kind = ''image'' \<and> \<not> bt_contains_key m ''alt''
      then Inl (BInvalid (''`image` primitive MUST declare `alt` (LSML 1.0 '' @ section_sign @ ''13)''))
      else if kind = ''stack'' then
        (if get_str m ''direction'' \<in> {Some ''horizontal'', Some ''vertical''} then Inr ()
         else Inl (BInvalid (''`stack.direction` MUST be '' @ dq @ ''horizontal'' @ dq @ '' or ''
           @ dq @ ''vertical'' @ dq)))
      else if kind = ''grid'' \<and> \<not> bt_contains_key m ''columns''
      then Inl (BInvalid ''`grid.columns` is required'')
      else if kind = ''shape'' then
        (if get_str m ''geometry'' \<in> {Some ''rect'', Some ''circle''} then Inr ()
         else if get_str m ''geometry'' = Some ''path'' then
           (if bt_contains_key m ''pathData'' then Inr ()
            else Inl (BInvalid (''`shape` with geometry='' @ dq @ ''path'' @ dq @ '' requires `pathData`'')))
         else Inl (BInvalid (''`shape.geometry` MUST be '' @ dq @ ''rect'' @ dq @ '', '' @ dq @ ''circle''
           @ dq @ '' or '' @ dq @ ''path'' @ dq)))
      else if kind = ''media'' then
        (if get_str m ''kind_hint'' \<in> {Some ''video'', Some ''audio''} then Inr ()
         else Inl (BInvalid (''`media.kind_hint` MUST be '' @ dq @ ''video'' @ dq @ '' or '' @ dq
           @ ''audio'' @ dq)))
      else if kind = ''repeat'' \<and> \<not> bt_contains_key m ''scope''
      then Inl (BInvalid ''`repeat.scope` is required'')
      else if kind = ''repeat'' \<and> \<not> bt_contains_key m ''template''
      then Inl (BInvalid ''`repeat.template` is required'')
      else Inr ())"

fun check_animate_keys :: "string list \<Rightarrow> BundleError + unit" where
  "check_animate_keys [] = Inr ()"
| "check_animate_keys (key # keys) =
     (if key \<notin> set ANIMATE_ALLOWED
      then Inl (BInvalid (''animate.'' @ key @ '' is not animatable (allowed: ''
        @ comma_join ANIMATE_ALLOWED @ '')''))
      else check_animate_keys keys)"

definition check_animate :: "jmap \<Rightarrow> BundleError + unit" where
  "check_animate m = (case Option.bind (bt_get m ''animate'') as_object of
      Some animate \<Rightarrow> check_animate_keys (map fst animate)
    | None \<Rightarrow> Inr ())"

text \<open>The body of the validation loop for one object node, before its children are pushed.\<close>

definition check_node :: "jmap \<Rightarrow> BundleError + unit" where
  "check_node m = (case get_str m ''kind'' of
      None \<Rightarrow> Inl (BInvalid ''primitive node MUST declare a `kind` field'')
    | Some kind \<Rightarrow>
        bindE (if kind = ZAB_CAPTURE_KIND then check_zab_capture m
               else if kind \<notin> set PRIMITIVE_KINDS
               then Inl (BInvalid (''unknown primitive kind '' @ debug_str kind
                 @ '' (LSML 1.0 catalogue: '' @ comma_join PRIMITIVE_KINDS @ '')''))
               else Inr ()) (\<lambda>_.
        bindE (check_animate m) (\<lambda>_. check_per_kind kind m)))"

definition check_capture_node :: "jmap \<Rightarrow> BundleError + unit" where
  "check_capture_node m =
     (if get_str m ''kind'' = Some ZAB_CAPTURE_KIND then check_zab_capture m else Inr ())"

section \<open>The walks\<close>

definition push_children :: "jmap \<Rightarrow> json list \<Rightarrow> json list" where
  "push_children m stack =
     (let stack' = (case Option.bind (bt_get m ''children'') as_array of
          Some children \<Rightarrow> rev children @ stack
        | None \<Rightarrow> stack) in
      (case bt_get m ''template'' of Some template \<Rightarrow> template # stack' | None \<Rightarrow> stack'))"

lemma jsize_get_pair:
  "k \<noteq> k' \<Longrightarrow> (case bt_get m k of None \<Rightarrow> 0 | Some v \<Rightarrow> jsize v)
    + (case bt_get m k' of None \<Rightarrow> 0 | Some v \<Rightarrow> jsize v) < jsize (JObject m)"
  using jsize_get [of m k] jsize_get [of m k'] jsize_get2 [of m k _ k']
  by (auto split: option.splits)

lemma push_children_eq:
  "push_children m stack = (case bt_get m ''template'' of None \<Rightarrow> [] | Some t \<Rightarrow> [t])
    @ (case Option.bind (bt_get m ''children'') as_array of None \<Rightarrow> [] | Some cs \<Rightarrow> rev cs) @ stack"
  by (auto simp: push_children_def Let_def split: option.splits)

lemma jsize_children:
  "sum_list (map jsize (case Option.bind c as_array of None \<Rightarrow> [] | Some cs \<Rightarrow> rev cs))
    \<le> (case c of None \<Rightarrow> 0 | Some v \<Rightarrow> jsize v)"
  by (cases c) (auto simp: as_array_def rev_map [symmetric] split: json.splits)

lemma push_children_size:
  "sum_list (map jsize (push_children m stack)) < jsize (JObject m) + sum_list (map jsize stack)"
proof -
  have "''children'' \<noteq> ''template''" by simp
  note jsize_get_pair [OF this, of m] jsize_children [of "bt_get m ''children''"]
  moreover have "sum_list (map jsize (case bt_get m ''template'' of None \<Rightarrow> [] | Some t \<Rightarrow> [t]))
      = (case bt_get m ''template'' of None \<Rightarrow> 0 | Some v \<Rightarrow> jsize v)"
    by (simp split: option.splits)
  ultimately show ?thesis
    unfolding push_children_eq map_append sum_list_append by linarith
qed

function layout_loop :: "json list \<Rightarrow> BundleError + unit" where
  "layout_loop [] = Inr ()"
| "layout_loop (node # stack) = (case as_object node of
      None \<Rightarrow> layout_loop stack
    | Some m \<Rightarrow> (case check_node m of
        Inl e \<Rightarrow> Inl e
      | Inr _ \<Rightarrow> layout_loop (push_children m stack)))"
  by pat_completeness auto
termination
  by (relation "measure (\<lambda>stack. sum_list (map jsize stack))")
    (simp_all only: in_measure wf_measure as_object_eq_Some list.map sum_list.Cons,
      simp_all add: push_children_size del: jsize.simps)

definition check_layout_invariants :: "json \<Rightarrow> BundleError + unit" where
  "check_layout_invariants root = layout_loop [root]"

function capture_loop :: "json list \<Rightarrow> BundleError + unit" where
  "capture_loop [] = Inr ()"
| "capture_loop (node # stack) = (case as_object node of
      None \<Rightarrow> capture_loop stack
    | Some m \<Rightarrow> (case check_capture_node m of
        Inl e \<Rightarrow> Inl e
      | Inr _ \<Rightarrow> capture_loop (push_children m stack)))"
  by pat_completeness auto
termination
  by (relation "measure (\<lambda>stack. sum_list (map jsize stack))")
    (simp_all only: in_measure wf_measure as_object_eq_Some list.map sum_list.Cons,
      simp_all add: push_children_size del: jsize.simps)

definition check_zab_capture_nodes :: "json \<Rightarrow> BundleError + unit" where
  "check_zab_capture_nodes root = capture_loop [root]"

declare layout_loop.simps(2) [simp del] capture_loop.simps(2) [simp del]

section \<open>Validation and hashing\<close>

definition parse_major :: "string \<Rightarrow> nat option" where
  "parse_major lsml = parse_uint (2 ^ 32) (hd (split_on CHR ''.'' lsml))"

fun check_operator_inputs :: "OperatorInput list \<Rightarrow> BundleError + unit" where
  "check_operator_inputs [] = Inr ()"
| "check_operator_inputs (op # ops) =
     (if \<not> (op_path op = ''__inputs'' \<or> starts_with ''__inputs.'' (op_path op))
      then Inl (BInvalid (''operator_inputs['' @ debug_str (op_path op)
        @ ''].path MUST live under `__inputs.*`''))
      else check_operator_inputs ops)"

definition bundle_validate :: "Bundle \<Rightarrow> BundleError + unit" where
  "bundle_validate b = (case parse_major (bundle_lsml b) of
      None \<Rightarrow> Inl (BInvalid (''malformed `lsml` version: '' @ debug_str (bundle_lsml b)))
    | Some major \<Rightarrow>
        (if major \<noteq> SUPPORTED_LSML_MAJOR then Inl (BIncompatible (bundle_lsml b))
         else if bundle_scene_id b = [] then Inl (BInvalid ''scene_id MUST NOT be empty'')
         else bindE (check_operator_inputs (bundle_operator_inputs b)) (\<lambda>_.
           bindE (check_layout_invariants (bundle_layout b)) (\<lambda>_. Inr ()))))"

definition bundle_parse :: "platform \<Rightarrow> string \<Rightarrow> BundleError + Bundle" where
  "bundle_parse P bytes = (case from_slice_typed P ''Bundle'' bytes of
      Inl e \<Rightarrow> Inl (BJson e)
    | Inr v \<Rightarrow> (case de_bundle P v of
        None \<Rightarrow> Inl (BJson (de_error P ''Bundle'' v))
      | Some b \<Rightarrow> bindE (bundle_validate b) (\<lambda>_. Inr b)))"

definition write_hex_byte :: "string \<Rightarrow> u8 \<Rightarrow> string" where
  "write_hex_byte out byte =
     (let HEX = ''0123456789abcdef'' in
      out @ [HEX ! unat (drop_bit 4 byte)] @ [HEX ! unat (byte AND 0x0f)])"

definition hash_to_scene_version :: "platform \<Rightarrow> string \<Rightarrow> SceneVersion" where
  "hash_to_scene_version P canonical = foldl write_hex_byte ''sha256:'' (sha256 P canonical)"

definition to_canonical_bytes :: "platform \<Rightarrow> Bundle \<Rightarrow> string" where
  "to_canonical_bytes P b = to_vec P (ser_bundle b)"

definition to_canonical_bytes_for_hashing :: "platform \<Rightarrow> Bundle \<Rightarrow> string" where
  "to_canonical_bytes_for_hashing P b =
     to_vec P (case ser_bundle b of
         JObject m \<Rightarrow> JObject (bt_insert ''scene_version'' (JString placeholder_hash) m)
       | v \<Rightarrow> v)"

definition compute_content_hash :: "platform \<Rightarrow> Bundle \<Rightarrow> SceneVersion" where
  "compute_content_hash P b = hash_to_scene_version P (to_canonical_bytes_for_hashing P b)"

definition is_self_consistent :: "platform \<Rightarrow> Bundle \<Rightarrow> bool" where
  "is_self_consistent P b \<longleftrightarrow> compute_content_hash P b = bundle_scene_version b"

definition with_computed_version :: "platform \<Rightarrow> Bundle \<Rightarrow> Bundle" where
  "with_computed_version P b = b\<lparr>bundle_scene_version := compute_content_hash P b\<rparr>"

section \<open>Walks visit every node\<close>

text \<open>The nodes of a layout: the root, and the children and the template of any object node.\<close>

definition layout_child :: "json \<Rightarrow> json \<Rightarrow> bool" where
  "layout_child a b \<longleftrightarrow> (\<exists>m. a = JObject m \<and>
     (bt_get m ''template'' = Some b
      \<or> (\<exists>cs. bt_get m ''children'' = Some (JArray cs) \<and> b \<in> set cs)))"

abbreviation layout_node :: "json \<Rightarrow> json \<Rightarrow> bool" where
  "layout_node \<equiv> layout_child\<^sup>*\<^sup>*"

lemma set_push_children:
  "set (push_children m stack) = {b. layout_child (JObject m) b} \<union> set stack"
  by (auto simp: push_children_eq layout_child_def as_array_def
      split: option.splits Option.bind_splits json.splits)

lemma layout_node_object:
  "layout_node (JObject m) n \<longleftrightarrow> n = JObject m \<or> (\<exists>c. layout_child (JObject m) c \<and> layout_node c n)"
  by (metis converse_rtranclpE converse_rtranclp_into_rtranclp rtranclp.rtrancl_refl)

lemma layout_node_leaf: "\<not> is_object r \<Longrightarrow> layout_node r n \<longleftrightarrow> n = r"
  by (auto simp: layout_child_def elim!: converse_rtranclpE [of layout_child r])

text \<open>
  The contract of a worklist walk: it checks the node on top, stops at the first failure, and
  otherwise goes on with the children pushed. Whatever the check, such a walk accepts exactly the
  layouts all of whose object nodes pass, and reports only errors of a node of the layout.
\<close>

locale layout_walk =
  fixes loop :: "json list \<Rightarrow> BundleError + unit"
    and chk :: "jmap \<Rightarrow> BundleError + unit"
  assumes loop_Nil: "loop [] = Inr ()"
    and loop_Cons: "loop (node # stack) = (case as_object node of
      None \<Rightarrow> loop stack
    | Some m \<Rightarrow> (case chk m of Inl e \<Rightarrow> Inl e | Inr _ \<Rightarrow> loop (push_children m stack)))"
begin

lemma loop_ok:
  "is_ok (loop stack) \<longleftrightarrow> (\<forall>r \<in> set stack. \<forall>m. layout_node r (JObject m) \<longrightarrow> is_ok (chk m))"
proof (induction stack rule: measure_induct_rule [of "\<lambda>stack. sum_list (map jsize stack)"])
  case (less stack)
  show ?case
  proof (cases stack)
    case (Cons node rest)
    show ?thesis
    proof (cases node)
      case (JObject m)
      have "is_ok (loop (push_children m rest)) \<longleftrightarrow>
          (\<forall>r \<in> set (push_children m rest). \<forall>k. layout_node r (JObject k) \<longrightarrow> is_ok (chk k))"
        by (rule less) (simp add: Cons JObject push_children_size del: jsize.simps)
      then show ?thesis
        by (cases "chk m")
          (auto simp: Cons JObject loop_Cons set_push_children layout_node_object [of m])
    qed (simp_all add: Cons less loop_Cons layout_node_leaf as_object_def)
  qed (simp add: loop_Nil)
qed

lemma loop_error:
  "loop stack = Inl e \<Longrightarrow> \<exists>r \<in> set stack. \<exists>m. layout_node r (JObject m) \<and> chk m = Inl e"
proof (induction stack rule: measure_induct_rule [of "\<lambda>stack. sum_list (map jsize stack)"])
  case (less stack)
  show ?case
  proof (cases stack)
    case (Cons node rest)
    show ?thesis
    proof (cases node)
      case (JObject m)
      show ?thesis
      proof (cases "chk m")
        case (Inr u)
        have "\<exists>r \<in> set (push_children m rest). \<exists>k. layout_node r (JObject k) \<and> chk k = Inl e"
          using less.prems Inr
          by (intro less.IH) (simp_all add: Cons JObject push_children_size loop_Cons del: jsize.simps)
        then show ?thesis
          by (auto simp: Cons JObject set_push_children layout_node_object [of m])
      qed (use less.prems in \<open>auto simp: Cons JObject loop_Cons\<close>)
    qed (use less in \<open>auto simp: Cons loop_Cons as_object_def\<close>)
  qed (use less.prems in \<open>simp add: loop_Nil\<close>)
qed

end

interpretation layout: layout_walk layout_loop check_node
  by unfold_locales (simp_all add: layout_loop.simps(2))

interpretation capture: layout_walk capture_loop check_capture_node
  by unfold_locales (simp_all add: capture_loop.simps(2))

lemma check_operator_inputs_ok:
  "is_ok (check_operator_inputs ops) \<longleftrightarrow>
    list_all (\<lambda>op. starts_with_prefix (op_path op) ''__inputs'') ops"
proof -
  have "(s = ''__inputs'' \<or> starts_with ''__inputs.'' s) \<longleftrightarrow> starts_with_prefix s ''__inputs''" for s
    by (auto simp: starts_with_prefix_def starts_with_iff strip_prefix_eq_Some split: option.splits)
      (auto simp: strip_prefix_def)
  then show ?thesis by (induction ops rule: check_operator_inputs.induct) auto
qed

lemma bundle_validate_ok:
  "is_ok (bundle_validate b) \<longleftrightarrow> parse_major (bundle_lsml b) = Some SUPPORTED_LSML_MAJOR
    \<and> bundle_scene_id b \<noteq> [] \<and> is_ok (check_operator_inputs (bundle_operator_inputs b))
    \<and> is_ok (check_layout_invariants (bundle_layout b))"
  by (auto simp: bundle_validate_def is_ok_iff bindE_eq_Inr split: option.splits)

lemma check_node_capture: "is_ok (check_node m) \<Longrightarrow> is_ok (check_capture_node m)"
  by (auto simp: check_node_def check_capture_node_def is_ok_iff bindE_eq_Inr split: option.splits)

section \<open>The hash\<close>

lemma write_hex_byte_append: "write_hex_byte out b = out @ write_hex_byte [] b"
  by (simp add: write_hex_byte_def Let_def)

lemma foldl_write_hex: "foldl write_hex_byte out bs = out @ concat (map (write_hex_byte []) bs)"
proof (induction bs arbitrary: out)
  case (Cons b bs)
  have "foldl write_hex_byte out (b # bs) =
      write_hex_byte out b @ concat (map (write_hex_byte []) bs)"
    using Cons [of "write_hex_byte out b"] by simp
  then show ?case by (subst (asm) write_hex_byte_append) simp
qed simp

lemma hex_digits: "n < 16 \<Longrightarrow> is_ascii_hexdigit (''0123456789abcdef'' ! n)"
proof -
  have "list_all is_ascii_hexdigit ''0123456789abcdef''" by code_simp
  moreover assume "n < 16"
  then have "''0123456789abcdef'' ! n \<in> set ''0123456789abcdef''" by (intro nth_mem) simp
  ultimately show ?thesis by (simp only: list_all_iff)
qed

lemma nibble_bounds: "unat (drop_bit 4 (b :: u8)) < 16" "unat (b AND 0x0f) < 16"
proof -
  have "unat b < 256" using unsigned_less [of b, where ?'a = nat] by simp
  then show "unat (drop_bit 4 b) < 16"
    by (simp add: drop_bit_eq_div unat_div)
  have "b AND 0x0f = take_bit 4 b" by (simp add: take_bit_eq_mask mask_numeral)
  then show "unat (b AND 0x0f) < 16"
    by (simp add: take_bit_eq_mod unat_mod)
qed

lemma write_hex_byte_hex:
  "length (write_hex_byte [] b) = 2" "list_all is_ascii_hexdigit (write_hex_byte [] b)"
  using nibble_bounds [of b] by (simp_all add: write_hex_byte_def Let_def hex_digits)

lemma hash_well_formed: "sha256_ok P \<Longrightarrow> is_well_formed (hash_to_scene_version P s)"
proof -
  let ?hex = "concat (map (write_hex_byte []) (sha256 P s))"
  assume "sha256_ok P"
  then have "length (sha256 P s) = 32" by (simp add: sha256_ok_def)
  moreover have "length (concat (map (write_hex_byte []) bs)) = 2 * length bs" for bs
    by (induction bs) (simp_all add: write_hex_byte_hex)
  moreover have "list_all is_ascii_hexdigit ?hex"
    using write_hex_byte_hex by (auto simp: list_all_iff)
  moreover have "strip_prefix ''sha256:'' (hash_to_scene_version P s) = Some ?hex"
    unfolding hash_to_scene_version_def foldl_write_hex by (rule strip_prefix_append)
  ultimately show ?thesis by (simp add: is_well_formed_def)
qed

lemma bt_insert_override:
  assumes "k \<notin> fst ` set post"
  shows "bt_insert k v (bt_of (pre @ (k, w) # post)) = bt_of (pre @ (k, v) # post)"
proof (rule bt_ext)
  have "map_of (rev post) k = None" using assms by (simp add: map_of_eq_None_iff)
  then show "bt_get (bt_insert k v (bt_of (pre @ (k, w) # post))) = bt_get (bt_of (pre @ (k, v) # post))"
    by (auto simp: get_insert_all fun_eq_iff map_add_def split: option.splits)
qed simp_all

lemma hashing_form:
  "to_canonical_bytes_for_hashing P b =
    to_vec P (ser_bundle (b\<lparr>bundle_scene_version := placeholder_hash\<rparr>))"
proof -
  let ?pre = "[(''lsml'', JString (bundle_lsml b)), (''scene_id'', JString (bundle_scene_id b))]"
  let ?post = "(''layout'', bundle_layout b)
       # vec_field ''operator_inputs'' ser_operator_input (bundle_operator_inputs b)
       @ vec_field ''external_adapters'' (\<lambda>v. v) (bundle_external_adapters b)
       @ opt_field ''defaults'' JObject (if bundle_defaults b = [] then None else Some (bundle_defaults b))
       @ opt_field ''assets'' (\<lambda>v. v) (bundle_assets b)
       @ opt_field ''i18n'' (\<lambda>v. v) (bundle_i18n b)
       @ opt_field ''metadata'' (\<lambda>v. v) (bundle_metadata b)"
  have ser: "ser_bundle (b\<lparr>bundle_scene_version := v\<rparr>) =
      JObject (bt_of (?pre @ (''scene_version'', JString v) # ?post))" for v
    by (simp add: ser_bundle_def obj_def del: insert_all_Cons)
  have "''scene_version'' \<notin> fst ` set ?post"
    by (auto simp: vec_field_def set_opt_field)
  from bt_insert_override [OF this, of "JString placeholder_hash" ?pre "JString (bundle_scene_version b)"]
  show ?thesis
    using ser [of placeholder_hash] ser [of "bundle_scene_version b"]
    by (simp add: to_canonical_bytes_for_hashing_def del: insert_all_Cons append.simps)
qed

lemma hash_ignores_version:
  "compute_content_hash P (b\<lparr>bundle_scene_version := v\<rparr>) = compute_content_hash P b"
  by (simp add: compute_content_hash_def hashing_form)

section \<open>Reading back\<close>

definition opt_json_wf :: "json option \<Rightarrow> bool" where
  "opt_json_wf x \<longleftrightarrow> x \<noteq> Some JNull"

definition operator_input_wf :: "OperatorInput \<Rightarrow> bool" where
  "operator_input_wf op \<longleftrightarrow> opt_json_wf (op_constraints op) \<and> opt_json_wf (op_values op)"

definition bundle_wf :: "Bundle \<Rightarrow> bool" where
  "bundle_wf b \<longleftrightarrow> list_all operator_input_wf (bundle_operator_inputs b)
     \<and> opt_json_wf (bundle_assets b) \<and> opt_json_wf (bundle_i18n b) \<and> opt_json_wf (bundle_metadata b)"

lemma de_option_id: "opt_json_wf x \<Longrightarrow> de_option Some (map_option (\<lambda>v. v) x) = Some x"
  by (auto simp: de_option_def opt_json_wf_def split: option.splits)

lemma map_add_vec_field [serde_simps]:
  "m k = None \<Longrightarrow> (m ++ map_of (vec_field k f xs)) k = (if xs = [] then None else Some (JArray (map f xs)))"
  "k' \<noteq> k \<Longrightarrow> (m ++ map_of (vec_field k f xs)) k' = m k'"
  "rev (vec_field k f xs) = vec_field k f xs"
  by (simp_all add: vec_field_def serde_simps)

lemma de_ser_operator_input:
  "operator_input_wf op \<Longrightarrow> de_operator_input P (ser_operator_input op) = Some op"
  by (simp add: de_operator_input_def ser_operator_input_def serde_simps de_req_def de_opt_def
      de_vec_default_def de_option_id operator_input_wf_def de_vec_def de_list_map
      del: insert_all_Cons)

lemma de_ser_bundle:
  assumes "bundle_wf b"
  shows "de_bundle P (ser_bundle b) = Some b"
proof -
  have ops: "\<forall>op \<in> set (bundle_operator_inputs b). de_operator_input P (ser_operator_input op) = Some op"
    using assms by (simp add: bundle_wf_def list_all_iff de_ser_operator_input)
  have "de_list Some vs = Some vs" for vs using de_list_map [of vs Some "\<lambda>v. v"] by simp
  with ops assms show ?thesis
    by (simp add: de_bundle_def ser_bundle_def serde_simps de_req_def de_opt_def
      de_vec_default_def de_option_id bundle_wf_def de_vec_def de_list_map
      del: insert_all_Cons)
qed

section \<open>Properties\<close>

text \<open>
  C17. The validation loop is exact: it accepts a layout precisely when every object node reachable
  through \<open>children\<close> and \<open>template\<close> passes the node checks, and any error it returns is the error
  of such a node. It always terminates.
\<close>
theorem layout_validation_exact:
  "case check_layout_invariants root of
     Inr _ \<Rightarrow> (\<forall>m. layout_node root (JObject m) \<longrightarrow> is_ok (check_node m))
   | Inl e \<Rightarrow> (\<exists>m. layout_node root (JObject m) \<and> check_node m = Inl e)"
proof (cases "check_layout_invariants root")
  case (Inl e)
  then show ?thesis
    using layout.loop_error [of "[root]" e] by (auto simp: check_layout_invariants_def)
next
  case (Inr u)
  then show ?thesis
    using layout.loop_ok [of "[root]"] by (simp add: check_layout_invariants_def)
qed

definition sample_layout :: json where
  "sample_layout = JObject [(''children'', JArray [JObject [(''alt'', JString ''logo''), (''kind'', JString ''image'')]]),
     (''kind'', JString ''frame'')]"

theorem layout_validation_exact_witness:
  "case check_layout_invariants sample_layout of
     Inr _ \<Rightarrow> (\<forall>m. layout_node sample_layout (JObject m) \<longrightarrow> is_ok (check_node m))
   | Inl e \<Rightarrow> False"
proof -
  have "check_layout_invariants sample_layout = Inr ()" by code_simp
  with layout_validation_exact [of sample_layout] show ?thesis by simp
qed

text \<open>
  A bundle that validates has a supported major version, a scene id, operator inputs only
  under \<open>__inputs\<close>, and a layout that the narrower vendor check \<open>check_zab_capture_nodes\<close> accepts.
\<close>
theorem bundle_validate_sound:
  assumes "bundle_validate b = Inr ()"
  shows "parse_major (bundle_lsml b) = Some 1 \<and> bundle_scene_id b \<noteq> []
    \<and> list_all (\<lambda>op. starts_with_prefix (op_path op) ''__inputs'') (bundle_operator_inputs b)
    \<and> check_zab_capture_nodes (bundle_layout b) = Inr ()"
proof -
  have ok: "is_ok (bundle_validate b)" by (simp add: assms)
  then have "is_ok (layout_loop [bundle_layout b])"
    by (simp add: bundle_validate_ok check_layout_invariants_def)
  then have "is_ok (capture_loop [bundle_layout b])"
    by (auto simp: layout.loop_ok capture.loop_ok intro: check_node_capture)
  with ok show ?thesis
    by (simp add: bundle_validate_ok check_operator_inputs_ok check_zab_capture_nodes_def
        unit_result_cases SUPPORTED_LSML_MAJOR_def)
qed

definition sample_bundle :: Bundle where
  "sample_bundle = \<lparr>bundle_lsml = ''1.0'', bundle_scene_id = ''main'',
     bundle_scene_version = placeholder_hash, bundle_layout = sample_layout,
     bundle_operator_inputs = [\<lparr>op_path = ''__inputs.title'', op_label = ''Title'',
       op_kind = ''string'', op_constraints = None, op_writable_by = [''operator''],
       op_group = None, op_values = None\<rparr>],
     bundle_external_adapters = [], bundle_defaults = [(''score'', jnat 0)], bundle_assets = None,
     bundle_i18n = None, bundle_metadata = None\<rparr>"

lemma sample_major: "parse_major ''1.0'' = Some 1"
  by (simp add: parse_major_def parse_uint_def digits_value_def is_ascii_digit_def less_eq_char_def)

lemma sample_bundle_valid: "bundle_validate sample_bundle = Inr ()"
proof -
  have "is_ok (check_operator_inputs (bundle_operator_inputs sample_bundle))" by code_simp
  moreover have "is_ok (check_layout_invariants (bundle_layout sample_bundle))" by code_simp
  ultimately have "is_ok (bundle_validate sample_bundle)"
    unfolding bundle_validate_ok by (simp add: sample_bundle_def sample_major SUPPORTED_LSML_MAJOR_def)
  then show ?thesis by (simp only: unit_result_cases)
qed

theorem bundle_validate_sound_witness:
  "check_zab_capture_nodes (bundle_layout sample_bundle) = Inr ()"
  using bundle_validate_sound [OF sample_bundle_valid] by simp

text \<open>
  The content hash is well-formed, does not depend on the version the bundle declares, and
  stamping a bundle with it makes the bundle self-consistent.
\<close>
theorem content_hash_laws:
  assumes "sha256_ok P"
  shows "is_well_formed (compute_content_hash P b)
    \<and> compute_content_hash P (b\<lparr>bundle_scene_version := v\<rparr>) = compute_content_hash P b
    \<and> is_self_consistent P (with_computed_version P b)"
  using assms
  by (simp add: compute_content_hash_def [of P b] hash_well_formed hash_ignores_version
      is_self_consistent_def with_computed_version_def)

theorem content_hash_laws_witness:
  "is_well_formed (compute_content_hash sample_platform sample_bundle)"
  using content_hash_laws [OF sample_sha256_ok] by blast

text \<open>
  C18. A valid bundle served as canonical bytes parses back to the same bundle, so a client that
  fetched it computes the same content hash.
\<close>
theorem bundle_bytes_roundtrip:
  assumes "json_text_ok P" "bundle_wf b" "wire_safe (ser_bundle b)" "bundle_validate b = Inr ()"
  shows "bundle_parse P (to_canonical_bytes P b) = Inr b"
  using assms by (simp add: bundle_parse_def to_canonical_bytes_def json_text_ok_def de_ser_bundle)

theorem bundle_bytes_roundtrip_witness:
  "bundle_parse sample_platform (to_canonical_bytes sample_platform sample_bundle) = Inr sample_bundle"
proof (rule bundle_bytes_roundtrip [OF sample_json_text_ok _ _ sample_bundle_valid])
  show "bundle_wf sample_bundle" by code_simp
  show "wire_safe (ser_bundle sample_bundle)" by code_simp
qed

end
