(* ===== verification/Sequence.thy ===== *)
theory Sequence
  imports Frames
begin

text \<open>
  \<open>sequence.rs\<close>: the server's allocator and the client's gap-detecting tracker. Both are one
  \<open>u64\<close>; \<open>+ 1\<close> wraps, as in a release build.
\<close>

section \<open>Allocator\<close>

record SequenceAllocator =
  alloc_last :: u64

definition allocator_new :: SequenceAllocator where
  "allocator_new = \<lparr>alloc_last = 0\<rparr>"

definition allocator_next :: "SequenceAllocator \<Rightarrow> u64 \<times> SequenceAllocator" where
  "allocator_next a = (let n = alloc_last a + 1 in (n, a\<lparr>alloc_last := n\<rparr>))"

definition allocator_reset :: "SequenceAllocator \<Rightarrow> SequenceAllocator" where
  "allocator_reset a = a\<lparr>alloc_last := 0\<rparr>"

section \<open>Tracker\<close>

record SequenceTracker =
  tracker_last :: u64

datatype Observation = Accepted | Duplicate | Heartbeat

definition tracker_new :: SequenceTracker where
  "tracker_new = \<lparr>tracker_last = 0\<rparr>"

definition observe_seq :: "SequenceTracker \<Rightarrow> u64 \<Rightarrow> (LumencastError + Observation) \<times> SequenceTracker" where
  "observe_seq t seq =
     (if tracker_last t = 0 \<and> seq < 1 then (Inl (LSequenceGap 1 seq), t)
      else if tracker_last t = 0 then (Inr Accepted, t\<lparr>tracker_last := seq\<rparr>)
      else if seq \<le> tracker_last t then (Inr Duplicate, t)
      else (let expected = tracker_last t + 1 in
        if seq \<noteq> expected then (Inl (LSequenceGap expected seq), t)
        else (Inr Accepted, t\<lparr>tracker_last := seq\<rparr>)))"

definition observe :: "SequenceTracker \<Rightarrow> ServerFrame \<Rightarrow> (LumencastError + Observation) \<times> SequenceTracker" where
  "observe t frame = (case server_frame_seq frame of
      None \<Rightarrow> (Inr Heartbeat, t)
    | Some seq \<Rightarrow> observe_seq t seq)"

definition observe_snapshot :: "SequenceTracker \<Rightarrow> u64 \<Rightarrow> SequenceTracker" where
  "observe_snapshot t seq = (if 1 \<le> seq then t\<lparr>tracker_last := seq\<rparr> else t)"

definition tracker_reset :: "SequenceTracker \<Rightarrow> SequenceTracker" where
  "tracker_reset t = t\<lparr>tracker_last := 0\<rparr>"

section \<open>Lemmas\<close>

text \<open>Feeding a list of sequence numbers, stopping at the first gap.\<close>

fun observe_all :: "SequenceTracker \<Rightarrow> u64 list \<Rightarrow> (LumencastError + Observation list) \<times> SequenceTracker" where
  "observe_all t [] = (Inr [], t)"
| "observe_all t (s # ss) = (case observe_seq t s of
      (Inl e, t') \<Rightarrow> (Inl e, t')
    | (Inr x, t') \<Rightarrow> (case observe_all t' ss of
        (Inl e, u) \<Rightarrow> (Inl e, u)
      | (Inr xs, u) \<Rightarrow> (Inr (x # xs), u)))"

text \<open>The first \<open>n\<close> numbers an allocator hands out.\<close>

fun allocate :: "nat \<Rightarrow> SequenceAllocator \<Rightarrow> u64 list \<times> SequenceAllocator" where
  "allocate 0 a = ([], a)"
| "allocate (Suc n) a = (let (s, b) = allocator_next a; (ss, c) = allocate n b in (s # ss, c))"

lemma word_one_le: "(1 :: u64) \<le> s \<longleftrightarrow> s \<noteq> 0"
  by (simp add: word_le_nat_alt unat_eq_zero Suc_le_eq word_neq_0_conv word_less_nat_alt)

lemma unat_word_Suc_bound: "Suc (unat (s :: u64)) < 2 ^ 64 \<Longrightarrow> unat (s + 1) = Suc (unat s)"
  by (simp add: unat_plus_if')

lemma unat_word_Suc: "unat (s :: u64) < unat (r :: u64) \<Longrightarrow> unat (s + 1) = Suc (unat s)"
proof -
  assume "unat s < unat r"
  moreover have "unat r < 2 ^ 64" using unsigned_less [of r, where ?'a = nat] by simp
  ultimately show ?thesis by (intro unat_word_Suc_bound) linarith
qed

lemma observe_seq_fresh:
  "tracker_last t = 0 \<Longrightarrow> observe_seq t s =
    (if s = 0 then (Inl (LSequenceGap 1 0), t) else (Inr Accepted, \<lparr>tracker_last = s\<rparr>))"
  using word_one_le [of s] by (auto simp: observe_seq_def not_le)

text \<open>Once a baseline is set, the outcome is decided by how far ahead the frame is.\<close>

lemma observe_seq_cases:
  assumes "tracker_last t \<noteq> 0"
  shows "observe_seq t s =
    (if unat s \<le> unat (tracker_last t) then (Inr Duplicate, t)
     else if unat s = Suc (unat (tracker_last t)) then (Inr Accepted, \<lparr>tracker_last = s\<rparr>)
     else (Inl (LSequenceGap (tracker_last t + 1) s), t))"
proof (cases "unat s \<le> unat (tracker_last t)")
  case True
  with assms show ?thesis by (simp add: observe_seq_def word_le_nat_alt)
next
  case False
  then have "unat (tracker_last t + 1) = Suc (unat (tracker_last t))"
    by (intro unat_word_Suc [of _ s]) simp
  with False assms show ?thesis
    by (auto simp: observe_seq_def word_le_nat_alt word_unat_eq_iff Let_def)
qed

lemma observe_seq_last:
  "snd (observe_seq t s) = t \<or> snd (observe_seq t s) = \<lparr>tracker_last = s\<rparr>"
  by (auto simp: observe_seq_def Let_def)

text \<open>The numbers of the accepted frames.\<close>

definition accepted :: "u64 list \<Rightarrow> Observation list \<Rightarrow> u64 list" where
  "accepted ss obs = map fst (filter (\<lambda>(s, x). x = Accepted) (zip ss obs))"

lemma accepted_simps [simp]:
  "accepted [] obs = []"
  "accepted (s # ss) (x # obs) = (if x = Accepted then [s] else []) @ accepted ss obs"
  by (simp_all add: accepted_def)

lemma accepted_contiguous:
  "observe_all t ss = (Inr obs, u) \<Longrightarrow> tracker_last t \<noteq> 0 \<Longrightarrow>
    tracker_last u \<noteq> 0 \<and> unat (tracker_last t) \<le> unat (tracker_last u) \<and>
    map unat (accepted ss obs) = [Suc (unat (tracker_last t)) ..< Suc (unat (tracker_last u))]"
proof (induction ss arbitrary: t obs)
  case (Cons s ss)
  obtain x t' where x: "observe_seq t s = (Inr x, t')"
    using Cons.prems(1) by (auto split: prod.splits sum.splits)
  obtain xs where xs: "observe_all t' ss = (Inr xs, u)" "obs = x # xs"
    using Cons.prems(1) x by (auto split: prod.splits sum.splits)
  have t': "x = Duplicate \<and> t' = t
      \<or> x = Accepted \<and> unat s = Suc (unat (tracker_last t)) \<and> t' = \<lparr>tracker_last = s\<rparr>"
    using x Cons.prems(2) by (auto simp: observe_seq_cases split: if_splits)
  then have "tracker_last t' \<noteq> 0" using Cons.prems(2) by auto
  then have IH: "tracker_last u \<noteq> 0" "unat (tracker_last t') \<le> unat (tracker_last u)"
    "map unat (accepted ss xs) = [Suc (unat (tracker_last t')) ..< Suc (unat (tracker_last u))]"
    using Cons.IH [OF xs(1)] by simp_all
  from t' show ?case
  proof (elim disjE conjE)
    assume "x = Duplicate" "t' = t"
    then show ?thesis using IH by (simp add: xs)
  next
    assume *: "x = Accepted" "unat s = Suc (unat (tracker_last t))" "t' = \<lparr>tracker_last = s\<rparr>"
    have "[Suc (unat (tracker_last t)) ..< Suc (unat (tracker_last u))] =
        unat s # [Suc (unat s) ..< Suc (unat (tracker_last u))]"
      using * IH by (subst upt_rec) simp
    then show ?thesis using IH * by (simp add: xs)
  qed
qed simp

lemma allocate_seqs:
  "unat (alloc_last a) + n < 2 ^ 64 \<Longrightarrow> allocate n a = (ss, b) \<Longrightarrow>
    map unat ss = [Suc (unat (alloc_last a)) ..< Suc (unat (alloc_last a) + n)] \<and>
    unat (alloc_last b) = unat (alloc_last a) + n"
proof (induction n arbitrary: a ss)
  case (Suc n)
  let ?a = "a\<lparr>alloc_last := alloc_last a + 1\<rparr>"
  obtain r where r: "allocate n ?a = (r, b)" "ss = (alloc_last a + 1) # r"
    using Suc.prems(2) by (auto simp: allocator_next_def Let_def split: prod.splits)
  have "unat (alloc_last ?a) = Suc (unat (alloc_last a))"
    using Suc.prems(1) by (simp add: unat_word_Suc_bound)
  then show ?case
    using Suc.IH [OF _ r(1)] Suc.prems(1) by (simp add: r upt_rec)
qed simp

lemma observe_contiguous:
  "map unat ss = [Suc (unat (tracker_last t)) ..< Suc (unat (tracker_last t) + length ss)] \<Longrightarrow>
    tracker_last t \<noteq> 0 \<Longrightarrow>
    fst (observe_all t ss) = Inr (replicate (length ss) Accepted)"
proof (induction ss arbitrary: t)
  case (Cons s ss)
  have "unat s = Suc (unat (tracker_last t))"
    using Cons.prems(1) by (subst (asm) upt_rec) simp
  moreover have "map unat ss = [Suc (unat s) ..< Suc (unat s + length ss)]"
    using Cons.prems(1) by (subst (asm) upt_rec) simp
  moreover from calculation have "s \<noteq> 0" by auto
  ultimately have "fst (observe_all \<lparr>tracker_last = s\<rparr> ss) = Inr (replicate (length ss) Accepted)"
    by (intro Cons.IH) (simp_all del: upt_Suc)
  with \<open>unat s = _\<close> Cons.prems(2) show ?case
    by (auto simp: observe_seq_cases split: prod.splits sum.splits)
qed simp

section \<open>Properties\<close>

text \<open>
  No silent loss: whatever sequence numbers arrive, in whatever order and with whatever
  repetitions, if the tracker reports no gap then the frames it accepted are exactly the numbers
  after its baseline up to the last one it holds, once each and in order.
\<close>
theorem tracker_no_silent_loss:
  assumes "observe_all t ss = (Inr obs, u)" "tracker_last t \<noteq> 0"
  shows "map unat (accepted ss obs) = [Suc (unat (tracker_last t)) ..< Suc (unat (tracker_last u))]"
  using accepted_contiguous [OF assms] by simp

theorem tracker_no_silent_loss_witness:
  "map unat (accepted [5, 6, 4, 6, 7] [Duplicate, Accepted, Duplicate, Duplicate, Accepted]) =
    [Suc 5 ..< Suc 7]"
proof -
  have "observe_all \<lparr>tracker_last = 5\<rparr> [5, 6, 4, 6, 7] =
      (Inr [Duplicate, Accepted, Duplicate, Duplicate, Accepted], \<lparr>tracker_last = 7\<rparr>)"
    by code_simp
  from tracker_no_silent_loss [OF this] show ?thesis by simp
qed

text \<open>
  A client that starts on any frame of an allocator's output accepts every later frame of that
  output: allocator and tracker agree on what contiguous means, up to the end of \<open>u64\<close>.
\<close>
theorem tracker_accepts_allocator:
  assumes "allocate n a = (s # ss, b)" "unat (alloc_last a) + n < 2 ^ 64"
  shows "fst (observe_all tracker_new (s # ss)) = Inr (replicate n Accepted)"
proof -
  have seqs: "map unat (s # ss) = [Suc (unat (alloc_last a)) ..< Suc (unat (alloc_last a) + n)]"
    using allocate_seqs [OF assms(2,1)] by blast
  then have len: "n = Suc (length ss)"
    by (metis add_Suc add_diff_cancel_left' length_Cons length_map length_upt)
  have s: "unat s = Suc (unat (alloc_last a))" "map unat ss = [Suc (unat s) ..< Suc (unat s + length ss)]"
    using seqs by (subst (asm) upt_rec, simp add: len)+
  then have "s \<noteq> 0" by auto
  have "fst (observe_all \<lparr>tracker_last = s\<rparr> ss) = Inr (replicate (length ss) Accepted)"
    using s \<open>s \<noteq> 0\<close> by (intro observe_contiguous) simp_all
  then show ?thesis
    using \<open>s \<noteq> 0\<close> by (auto simp: observe_seq_fresh tracker_new_def len split: prod.splits sum.splits)
qed

theorem tracker_accepts_allocator_witness:
  "fst (observe_all tracker_new [11, 12, 13]) = Inr (replicate 3 Accepted)"
proof -
  have "allocate 3 \<lparr>alloc_last = 10\<rparr> = ([11, 12, 13], \<lparr>alloc_last = 13\<rparr>)"
    by code_simp
  from tracker_accepts_allocator [OF this] show ?thesis by simp
qed

end
