(* ===== verification/Store.thy ===== *)
theory Store
  imports Frames
begin

text \<open>
  \<open>store.rs\<close>: the leaf store of one scene, a \<open>HashMap\<close> behind a lock. Each operation takes the
  lock once, so it is one atomic update of the map.
\<close>

type_synonym Store = "json hm"

definition store_new :: Store where
  "store_new = []"

definition store_set :: "string \<Rightarrow> json \<Rightarrow> Store \<Rightarrow> json option \<times> Store" where
  "store_set path v s = (hm_get s path, hm_insert path v s)"

definition store_apply :: "(string \<times> json) list \<Rightarrow> Store \<Rightarrow> Store" where
  "store_apply patches s = fold (\<lambda>(path, v) g. hm_insert path v g) patches s"

definition store_remove :: "string \<Rightarrow> Store \<Rightarrow> json option \<times> Store" where
  "store_remove path s = (hm_get s path, hm_remove path s)"

text \<open>Iterating the hash map in whatever order it has, inserting into a \<open>BTreeMap\<close>.\<close>

definition store_snapshot :: "Store \<Rightarrow> State" where
  "store_snapshot s = fold (\<lambda>(k, v) out. bt_insert k v out) s []"

definition store_seed :: "(string \<times> json) list \<Rightarrow> Store \<Rightarrow> Store" where
  "store_seed defaults s = fold (\<lambda>(k, v) g. hm_insert k v g) defaults s"

lemma store_apply_alt: "store_apply kvs s = hm_insert_all kvs s"
  by (simp add: store_apply_def hm_insert_all_def)

lemma store_snapshot_alt: "store_snapshot s = bt_of s"
  by (simp add: store_snapshot_def bt_insert_all_def)

lemma store_wf_ops [simp]:
  "hm_wf store_new" "hm_wf s \<Longrightarrow> hm_wf (snd (store_set k v s))" "hm_wf s \<Longrightarrow> hm_wf (store_apply kvs s)"
  "hm_wf s \<Longrightarrow> hm_wf (snd (store_remove k s))" "hm_wf s \<Longrightarrow> hm_wf (store_seed kvs s)"
  by (simp_all add: store_new_def store_set_def store_apply_alt store_remove_def store_seed_def
      flip: hm_insert_all_def)

lemma snapshot_get: "hm_wf s \<Longrightarrow> bt_get (store_snapshot s) = hm_get s"
  by (simp add: store_snapshot_alt bt_of_hm)

lemma snapshot_wf: "bt_wf (store_snapshot s)"
  by (simp add: store_snapshot_alt)

text \<open>Seeding an empty store with a sorted map and reading it back.\<close>

lemma store_snapshot_seed: "bt_wf m \<Longrightarrow> store_snapshot (store_seed m store_new) = m"
  by (rule bt_ext)
    (simp_all add: snapshot_wf snapshot_get store_seed_def store_new_def get_insert_all map_of_rev bt_wf_distinct
      flip: hm_insert_all_def)

text \<open>The snapshot after a batch of updates, as one update of the snapshot before it.\<close>

lemma snapshot_apply:
  "hm_wf s \<Longrightarrow> store_snapshot (store_apply kvs s) = bt_insert_all kvs (store_snapshot s)"
  by (rule bt_ext)
    (simp_all add: snapshot_wf snapshot_get store_apply_alt get_insert_all)

end
