(* ===== verification/Replay_Buffer.thy ===== *)
theory Replay_Buffer
  imports Frames
begin

text \<open>
  \<open>replay_buffer.rs\<close>: the bounded ring of recent emissions of a scene. The abstract view is the
  whole log of emissions; the ring keeps its last \<open>cap\<close> entries.
\<close>

definition DEFAULT_REPLAY_BUFFER_SIZE :: nat where
  "DEFAULT_REPLAY_BUFFER_SIZE = 256"

record ReplayRecord =
  rec_seq :: u64
  rec_patches :: "Patch list"
  rec_cause :: "Cause option"

record ReplaySlice =
  slice_records :: "ReplayRecord list"
  slice_covered :: bool

record ReplayBuffer =
  rb_cap :: nat
  rb_records :: "ReplayRecord list"

definition replay_new :: "nat \<Rightarrow> ReplayBuffer" where
  "replay_new capacity =
     (let cap = (if capacity = 0 then DEFAULT_REPLAY_BUFFER_SIZE else capacity) in
      \<lparr>rb_cap = cap, rb_records = []\<rparr>)"

definition replay_push :: "ReplayRecord \<Rightarrow> ReplayBuffer \<Rightarrow> ReplayBuffer" where
  "replay_push r b =
     (let rs = (if length (rb_records b) = rb_cap b then tl (rb_records b) else rb_records b) in
      b\<lparr>rb_records := rs @ [r]\<rparr>)"

definition replay_since :: "u64 \<Rightarrow> ReplayBuffer \<Rightarrow> ReplaySlice" where
  "replay_since since_seq b =
     (if rb_records b = [] then \<lparr>slice_records = [], slice_covered = True\<rparr>
      else (let earliest = rec_seq (hd (rb_records b)) in
        if since_seq + 1 < earliest then \<lparr>slice_records = [], slice_covered = False\<rparr>
        else \<lparr>slice_records = filter (\<lambda>r. since_seq < rec_seq r) (rb_records b),
               slice_covered = True\<rparr>))"

section \<open>The ring as a suffix of the log\<close>

definition last_n :: "nat \<Rightarrow> 'a list \<Rightarrow> 'a list" where
  "last_n n xs = drop (length xs - n) xs"

lemma last_n_simps [simp]: "last_n n [] = []" "length xs \<le> n \<Longrightarrow> last_n n xs = xs"
  by (simp_all add: last_n_def)

lemma length_last_n [simp]: "length (last_n n xs) = min n (length xs)"
  by (simp add: last_n_def)

lemma last_n_snoc:
  "0 < n \<Longrightarrow> last_n n (xs @ [x]) =
    (if length (last_n n xs) = n then tl (last_n n xs) else last_n n xs) @ [x]"
  by (auto simp: last_n_def drop_Suc Suc_diff_le min_def tl_drop not_le split: if_splits)

lemma last_n_append_last_n: "last_n n (last_n n xs @ ys) = last_n n (xs @ ys)"
  by (cases "length xs \<le> n") (auto simp: last_n_def add.commute)

definition rb_wf :: "ReplayBuffer \<Rightarrow> bool" where
  "rb_wf b \<longleftrightarrow> 0 < rb_cap b \<and> length (rb_records b) \<le> rb_cap b"

lemma rb_wf_new [simp]: "rb_wf (replay_new c)"
  by (simp add: rb_wf_def replay_new_def DEFAULT_REPLAY_BUFFER_SIZE_def)

lemma rb_wf_push [simp]: "rb_wf b \<Longrightarrow> rb_wf (replay_push r b)"
  by (auto simp: rb_wf_def replay_push_def Let_def)

lemma rb_cap_push [simp]: "rb_cap (replay_push r b) = rb_cap b"
  by (simp add: replay_push_def Let_def)

lemma push_records:
  "rb_wf b \<Longrightarrow> rb_records (replay_push r b) = last_n (rb_cap b) (rb_records b @ [r])"
  by (simp add: rb_wf_def replay_push_def Let_def last_n_snoc)

lemma push_all_records:
  "rb_wf b \<Longrightarrow> rb_records (fold replay_push rs b) = last_n (rb_cap b) (rb_records b @ rs)"
proof (induction rs arbitrary: b)
  case Nil
  then show ?case by (simp add: rb_wf_def)
next
  case (Cons r rs)
  then show ?case by (simp add: push_records last_n_append_last_n [of _ "rb_records b @ [r]" rs, simplified])
qed

text \<open>
  What a resuming client gets. The log after the resume point is contiguous: either the ring still
  holds all of it and returns exactly it, or the ring says that it does not cover the point.
\<close>

definition seqs_from :: "u64 \<Rightarrow> ReplayRecord list \<Rightarrow> bool" where
  "seqs_from s rs \<longleftrightarrow> map (unat \<circ> rec_seq) rs = [Suc (unat s) ..< Suc (unat s + length rs)]"

lemma seqs_from_nth: "seqs_from s rs \<Longrightarrow> i < length rs \<Longrightarrow> unat (rec_seq (rs ! i)) = Suc (unat s + i)"
proof -
  assume "seqs_from s rs" "i < length rs"
  then have "map (unat \<circ> rec_seq) rs ! i = [Suc (unat s) ..< Suc (unat s + length rs)] ! i"
    by (simp only: seqs_from_def)
  with \<open>i < length rs\<close> show ?thesis by (simp del: upt_Suc)
qed

lemma replay_since_resume:
  assumes wf: "0 < cap" and recs: "rb_records b = last_n cap (old @ log)"
    and old: "\<forall>r \<in> set old. unat (rec_seq r) \<le> unat s" and log: "seqs_from s log"
    and room: "Suc (unat s) < 2 ^ 64"
  shows "if slice_covered (replay_since s b) then slice_records (replay_since s b) = log
    else cap < length log"
proof (cases "length (old @ log) - cap \<le> length old")
  case True
  then have recs': "rb_records b = drop (length (old @ log) - cap) old @ log"
    by (simp add: recs last_n_def)
  have s1: "unat (s + 1) = Suc (unat s)" using room by (simp add: unat_plus_if')
  have "\<forall>r \<in> set log. unat s < unat (rec_seq r)"
    using seqs_from_nth [OF log] by (auto simp: in_set_conv_nth)
  moreover have kept: "\<forall>r \<in> set (drop (length (old @ log) - cap) old). unat (rec_seq r) \<le> unat s"
    using old by (meson in_set_dropD)
  ultimately have "filter (\<lambda>r. s < rec_seq r) (rb_records b) = log"
    by (simp add: recs' word_less_nat_alt filter_empty_conv not_less)
  moreover have "rec_seq (hd (rb_records b)) \<le> s + 1" if "rb_records b \<noteq> []"
  proof (cases "drop (length (old @ log) - cap) old")
    case Nil
    with that recs' have "log \<noteq> []" "hd (rb_records b) = log ! 0" by (auto simp: hd_conv_nth)
    then show ?thesis using seqs_from_nth [OF log, of 0] by (simp add: word_le_nat_alt s1)
  next
    case (Cons r rs)
    with kept recs' show ?thesis by (simp add: word_le_nat_alt s1)
  qed
  moreover have "log = []" if "rb_records b = []" using that recs' by simp
  ultimately show ?thesis by (auto simp: replay_since_def Let_def)
next
  case False
  let ?i = "length (old @ log) - cap - length old"
  have i: "0 < ?i" "?i < length log" using False wf by auto
  then have recs': "rb_records b = drop ?i log" by (simp add: recs last_n_def)
  then have "rec_seq (hd (rb_records b)) = rec_seq (log ! ?i)" "rb_records b \<noteq> []"
    using i by (simp_all add: hd_drop_conv_nth)
  then have "s + 1 < rec_seq (hd (rb_records b))"
    using seqs_from_nth [OF log i(2)] i room by (simp add: word_less_nat_alt unat_plus_if')
  with \<open>rb_records b \<noteq> []\<close> i show ?thesis by (auto simp: replay_since_def Let_def)
qed

end
