(* ===== verification/Input_Spec.thy ===== *)
theory Input_Spec
  imports Frames Bundle
begin

text \<open>
  \<open>input.rs\<close>: operator-input declarations and the constraint check on a value. A double is printed
  by \<open>show_f64\<close>.
\<close>

datatype InputType = TString | TNumber | TBoolean | TEnum | TColor | TDate | TTime | TPathRef | TImageRef

fun input_type_ident :: "InputType \<Rightarrow> string" where
  "input_type_ident TString = ''String''"
| "input_type_ident TNumber = ''Number''"
| "input_type_ident TBoolean = ''Boolean''"
| "input_type_ident TEnum = ''Enum''"
| "input_type_ident TColor = ''Color''"
| "input_type_ident TDate = ''Date''"
| "input_type_ident TTime = ''Time''"
| "input_type_ident TPathRef = ''PathRef''"
| "input_type_ident TImageRef = ''ImageRef''"

definition input_types :: "InputType list" where
  "input_types = [TString, TNumber, TBoolean, TEnum, TColor, TDate, TTime, TPathRef, TImageRef]"

definition de_input_type :: "platform \<Rightarrow> json \<Rightarrow> InputType option" where
  "de_input_type P v = Option.bind (de_tag P ''InputType'' v)
     (\<lambda>s. find (\<lambda>k. kebab_case (input_type_ident k) = s) input_types)"

record InputSpec =
  spec_path :: LeafPath
  spec_kind :: "InputType option"
  spec_max_length :: "u32 option"
  spec_min :: "f64 option"
  spec_max :: "f64 option"
  spec_values :: "string list"

definition de_input_spec :: "platform \<Rightarrow> json \<Rightarrow> InputSpec option" where
  "de_input_spec P v = do {
     m \<leftarrow> de_fields P ''InputSpec'' v;
     path \<leftarrow> de_req m ''path'' de_leaf_path;
     kind \<leftarrow> de_opt m ''type'' (de_input_type P);
     max_length \<leftarrow> de_opt m ''max_length'' de_u32;
     mn \<leftarrow> de_opt m ''min'' as_f64;
     mx \<leftarrow> de_opt m ''max'' as_f64;
     vals \<leftarrow> de_vec_default m ''values'' de_str;
     Some \<lparr>spec_path = path, spec_kind = kind, spec_max_length = max_length,
       spec_min = mn, spec_max = mx, spec_values = vals\<rparr> }"

definition input_spec_new :: "LeafPath \<Rightarrow> InputSpec" where
  "input_spec_new path = \<lparr>spec_path = path, spec_kind = None, spec_max_length = None,
     spec_min = None, spec_max = None, spec_values = []\<rparr>"

text \<open>The builder methods.\<close>

definition spec_with_kind :: "InputType \<Rightarrow> InputSpec \<Rightarrow> InputSpec" where
  "spec_with_kind kind spec = spec\<lparr>spec_kind := Some kind\<rparr>"

definition spec_with_max_length :: "u32 \<Rightarrow> InputSpec \<Rightarrow> InputSpec" where
  "spec_with_max_length n spec = spec\<lparr>spec_max_length := Some n\<rparr>"

definition spec_with_min :: "f64 \<Rightarrow> InputSpec \<Rightarrow> InputSpec" where
  "spec_with_min x spec = spec\<lparr>spec_min := Some x\<rparr>"

definition spec_with_max :: "f64 \<Rightarrow> InputSpec \<Rightarrow> InputSpec" where
  "spec_with_max x spec = spec\<lparr>spec_max := Some x\<rparr>"

definition spec_with_values :: "string list \<Rightarrow> InputSpec \<Rightarrow> InputSpec" where
  "spec_with_values vs spec = spec\<lparr>spec_values := vs\<rparr>"

fun json_kind_label :: "json \<Rightarrow> string" where
  "json_kind_label JNull = ''null''"
| "json_kind_label (JBool _) = ''boolean''"
| "json_kind_label (JNumber _) = ''number''"
| "json_kind_label (JString _) = ''string''"
| "json_kind_label (JArray _) = ''array''"
| "json_kind_label (JObject _) = ''object''"

definition check_type :: "InputType \<Rightarrow> json \<Rightarrow> string option" where
  "check_type kind v =
     (let ok = (case kind of
          TNumber \<Rightarrow> is_number v
        | TBoolean \<Rightarrow> is_boolean v
        | _ \<Rightarrow> is_string v) in
      if ok then None
      else Some (''expected '' @ input_type_ident kind @ '' type, got '' @ json_kind_label v))"

definition check_string :: "InputSpec \<Rightarrow> json \<Rightarrow> string option" where
  "check_string spec v = (case as_str v of
      None \<Rightarrow> None
    | Some s \<Rightarrow> (case spec_max_length spec of
        None \<Rightarrow> None
      | Some mx \<Rightarrow>
          (let count = char_count s in
           if unat mx < count
           then Some (''string length '' @ show_nat count @ '' exceeds max_length '' @ show_nat (unat mx))
           else None)))"

definition check_number :: "platform \<Rightarrow> InputSpec \<Rightarrow> json \<Rightarrow> string option" where
  "check_number P spec v = (case as_f64 v of
      None \<Rightarrow> None
    | Some n \<Rightarrow>
        (case spec_min spec of
           Some mn \<Rightarrow> if f64_lt n mn then Some (''value '' @ show_f64 P n @ '' below min '' @ show_f64 P mn)
             else (case spec_max spec of
                 Some mx \<Rightarrow> if f64_lt mx n then Some (''value '' @ show_f64 P n @ '' above max '' @ show_f64 P mx)
                   else None
               | None \<Rightarrow> None)
         | None \<Rightarrow> (case spec_max spec of
                 Some mx \<Rightarrow> if f64_lt mx n then Some (''value '' @ show_f64 P n @ '' above max '' @ show_f64 P mx)
                   else None
               | None \<Rightarrow> None)))"

text \<open>\<open>{:?}\<close> of a vector of strings.\<close>

definition debug_strs :: "string list \<Rightarrow> string" where
  "debug_strs ss = ''['' @ comma_join (map debug_str ss) @ '']''"

definition check_enum :: "InputSpec \<Rightarrow> json \<Rightarrow> string option" where
  "check_enum spec v = (case as_str v of
      None \<Rightarrow> None
    | Some s \<Rightarrow>
        (if spec_values spec = [] then None
         else if s \<notin> set (spec_values spec)
         then Some (''value '' @ debug_str s @ '' not in enum '' @ debug_strs (spec_values spec))
         else None))"

definition check_constraint :: "platform \<Rightarrow> InputSpec \<Rightarrow> json \<Rightarrow> string option" where
  "check_constraint P spec v = (case Option.bind (spec_kind spec) (\<lambda>kind. check_type kind v) of
      Some message \<Rightarrow> Some message
    | None \<Rightarrow> (case spec_kind spec of
        Some TString \<Rightarrow> check_string spec v
      | Some TNumber \<Rightarrow> check_number P spec v
      | Some TEnum \<Rightarrow> check_enum spec v
      | _ \<Rightarrow> None))"

section \<open>What the check accepts\<close>

text \<open>The declared constraints of a value, independent of the order of the tests and of messages.\<close>

definition in_f64_range :: "f64 option \<Rightarrow> f64 option \<Rightarrow> f64 \<Rightarrow> bool" where
  "in_f64_range mn mx x \<longleftrightarrow> (\<forall>a. mn = Some a \<longrightarrow> \<not> f64_lt x a) \<and> (\<forall>b. mx = Some b \<longrightarrow> \<not> f64_lt b x)"

fun meets_spec :: "InputSpec \<Rightarrow> json \<Rightarrow> bool" where
  "meets_spec spec v = (case spec_kind spec of
      None \<Rightarrow> True
    | Some TString \<Rightarrow> (\<exists>s. v = JString s \<and> (\<forall>mx. spec_max_length spec = Some mx \<longrightarrow> char_count s \<le> unat mx))
    | Some TNumber \<Rightarrow> is_number v \<and> (\<exists>x. as_f64 v = Some x \<and> in_f64_range (spec_min spec) (spec_max spec) x)
    | Some TEnum \<Rightarrow> (\<exists>s. v = JString s \<and> (spec_values spec = [] \<or> s \<in> set (spec_values spec)))
    | Some TBoolean \<Rightarrow> is_boolean v
    | Some _ \<Rightarrow> is_string v)"

lemma is_string_iff: "is_string v \<longleftrightarrow> (\<exists>s. v = JString s)"
  by (cases v) (auto simp: is_string_def)

lemma number_as_f64: "is_number v \<Longrightarrow> \<exists>x. as_f64 v = Some x"
  by (auto simp: is_number_def as_f64_def split: json.splits jnum.splits)

lemma check_number_iff:
  "as_f64 v = Some x \<Longrightarrow> check_number P spec v = None \<longleftrightarrow> in_f64_range (spec_min spec) (spec_max spec) x"
  by (cases "spec_min spec"; cases "spec_max spec") (auto simp: check_number_def in_f64_range_def)

text \<open>
  C26. \<open>check_constraint\<close> is exact: it finds no violation precisely when the value has the declared
  type and meets the constraints of that type.
\<close>
theorem check_constraint_exact:
  "check_constraint P spec v = None \<longleftrightarrow> meets_spec spec v"
proof (cases "spec_kind spec")
  case (Some kind)
  show ?thesis
  proof (cases kind)
    case TNumber
    with Some show ?thesis
      using number_as_f64 [of v] check_number_iff [of v _ P spec]
      by (auto simp: check_constraint_def check_type_def)
  next
    case TString
    with Some show ?thesis
      by (auto simp: check_constraint_def check_type_def check_string_def is_string_iff Let_def
          split: option.splits)
  next
    case TEnum
    with Some show ?thesis
      by (auto simp: check_constraint_def check_type_def check_enum_def is_string_iff
          split: if_splits)
  qed (use Some in \<open>auto simp: check_constraint_def check_type_def\<close>)
qed (simp add: check_constraint_def)

end
