(* ===== verification/Scene.thy ===== *)
theory Scene
  imports Store Replay_Buffer Input_Spec
begin

text \<open>
  \<open>error.rs\<close> and \<open>scene.rs\<close>: the server crate's error type and one scene: its store, its sequence
  counter, its replay ring, the deltas it has sent to its broadcast channel (oldest first), and the
  operator-input declarations. Each operation is the sequential effect of the method; the channel
  is the list of what was sent.
\<close>

section \<open>Data\<close>

datatype ServerError =
    SEIo string
  | SEProtocol LumencastError
  | SEBundle BundleError
  | SEUnknownScene string
  | SEDuplicateScene string
  | SEInvalidValue string
  | SEBuilderMissing string

fun show_server_error :: "ServerError \<Rightarrow> string" where
  "show_server_error (SEIo e) = ''io: '' @ e"
| "show_server_error (SEProtocol e) = ''protocol: '' @ show_lumencast_error e"
| "show_server_error (SEBundle e) = ''bundle: '' @ show_bundle_error e"
| "show_server_error (SEUnknownScene e) = ''unknown scene: '' @ e"
| "show_server_error (SEDuplicateScene e) = ''scene already exists: '' @ e"
| "show_server_error (SEInvalidValue e) = ''invalid value: '' @ e"
| "show_server_error (SEBuilderMissing e) = ''server builder is missing: '' @ e"

definition BROADCAST_CAPACITY :: nat where
  "BROADCAST_CAPACITY = 1024"

record DeltaPayload =
  dp_seq :: u64
  dp_patches :: "Patch list"
  dp_cause :: "Cause option"

record SceneRejection =
  rejection_code :: ErrorCode
  rejection_message :: string

record InputRejection =
  ir_code :: ErrorCode
  ir_message :: string
  ir_path :: string

record Scene =
  sc_id :: SceneId
  sc_version :: SceneVersion
  sc_store :: Store
  sc_sent :: "DeltaPayload list"
  sc_seq :: u64
  sc_replay :: ReplayBuffer
  sc_bundle_bytes :: "string option"
  sc_declared_inputs :: "InputSpec hm option"
  sc_rejection :: "SceneRejection option"

section \<open>Operations\<close>

definition scene_new :: "SceneId \<Rightarrow> SceneVersion \<Rightarrow> Scene" where
  "scene_new scene_id version = \<lparr>sc_id = scene_id, sc_version = version, sc_store = store_new, sc_sent = [],
     sc_seq = 1, sc_replay = replay_new DEFAULT_REPLAY_BUFFER_SIZE, sc_bundle_bytes = None,
     sc_declared_inputs = None, sc_rejection = None\<rparr>"

definition current_seq :: "Scene \<Rightarrow> u64" where
  "current_seq s = sc_seq s"

definition scene_replay_since :: "u64 \<Rightarrow> Scene \<Rightarrow> ReplaySlice" where
  "scene_replay_since since_seq s = replay_since since_seq (sc_replay s)"

definition attach_bundle_bytes :: "string \<Rightarrow> Scene \<Rightarrow> Scene" where
  "attach_bundle_bytes bytes s = s\<lparr>sc_bundle_bytes := Some bytes\<rparr>"

definition scene_reject :: "ErrorCode \<Rightarrow> string \<Rightarrow> Scene \<Rightarrow> Scene" where
  "scene_reject code message s =
     s\<lparr>sc_rejection := Some \<lparr>rejection_code = code, rejection_message = message\<rparr>\<rparr>"

definition advance_seq :: "Scene \<Rightarrow> u64 \<times> Scene" where
  "advance_seq s = (let n = sc_seq s + 1 in (n, s\<lparr>sc_seq := n\<rparr>))"

definition advance_seq_for_change :: "Scene \<Rightarrow> u64 \<times> Scene" where
  "advance_seq_for_change s = advance_seq s"

definition scene_set :: "string \<Rightarrow> json \<Rightarrow> Scene \<Rightarrow> (ServerError + unit) \<times> Scene" where
  "scene_set path v s = (case leaf_path_parse path of
      Inl e \<Rightarrow> (Inl (SEProtocol e), s)
    | Inr path' \<Rightarrow> (case check_leaf_value v of
        Inl e \<Rightarrow> (Inl (SEInvalidValue e), s)
      | Inr _ \<Rightarrow>
          (let s1 = s\<lparr>sc_store := snd (store_set path' v (sc_store s))\<rparr>;
               patches = [patch_new path' v];
               (seq, s2) = advance_seq s1;
               s3 = s2\<lparr>sc_replay := replay_push
                 \<lparr>rec_seq = seq, rec_patches = patches, rec_cause = None\<rparr> (sc_replay s2)\<rparr>;
               s4 = s3\<lparr>sc_sent := sc_sent s3
                 @ [\<lparr>dp_seq = seq, dp_patches = patches, dp_cause = None\<rparr>]\<rparr>
           in (Inr (), s4))))"

fun parse_patches :: "(string \<times> json) list \<Rightarrow> ServerError + Patch list" where
  "parse_patches [] = Inr []"
| "parse_patches ((path, v) # ps) = (case leaf_path_parse path of
      Inl e \<Rightarrow> Inl (SEProtocol e)
    | Inr path' \<Rightarrow> (case check_leaf_value v of
        Inl e \<Rightarrow> Inl (SEInvalidValue e)
      | Inr _ \<Rightarrow> (case parse_patches ps of
          Inl e \<Rightarrow> Inl e
        | Inr parsed \<Rightarrow> Inr (patch_new path' v # parsed))))"

definition emit_with_cause ::
    "(string \<times> json) list \<Rightarrow> Cause option \<Rightarrow> Scene \<Rightarrow> (ServerError + unit) \<times> Scene" where
  "emit_with_cause patches cause s = (case parse_patches patches of
      Inl e \<Rightarrow> (Inl e, s)
    | Inr parsed \<Rightarrow>
        (if parsed = [] then (Inr (), s)
         else
          (let s1 = s\<lparr>sc_store := store_apply (map (\<lambda>p. (patch_path p, patch_value p)) parsed) (sc_store s)\<rparr>;
               (seq, s2) = advance_seq s1;
               s3 = s2\<lparr>sc_replay := replay_push
                 \<lparr>rec_seq = seq, rec_patches = parsed, rec_cause = cause\<rparr> (sc_replay s2)\<rparr>;
               s4 = s3\<lparr>sc_sent := sc_sent s3
                 @ [\<lparr>dp_seq = seq, dp_patches = parsed, dp_cause = cause\<rparr>]\<rparr>
           in (Inr (), s4))))"

definition scene_emit :: "(string \<times> json) list \<Rightarrow> Scene \<Rightarrow> (ServerError + unit) \<times> Scene" where
  "scene_emit patches s = emit_with_cause patches None s"

definition scene_seed :: "(string \<times> json) list \<Rightarrow> Scene \<Rightarrow> Scene" where
  "scene_seed defaults s = s\<lparr>sc_store := store_seed defaults (sc_store s)\<rparr>"

definition scene_state :: "Scene \<Rightarrow> State" where
  "scene_state s = store_snapshot (sc_store s)"

definition with_operator_inputs :: "InputSpec list \<Rightarrow> Scene \<Rightarrow> Scene" where
  "with_operator_inputs specs s =
     s\<lparr>sc_declared_inputs := Some (hm_insert_all (map (\<lambda>spec. (spec_path spec, spec)) specs) [])\<rparr>"

definition with_declared_inputs :: "LeafPath list \<Rightarrow> Scene \<Rightarrow> Scene" where
  "with_declared_inputs ps s = with_operator_inputs (map input_spec_new ps) s"

definition enforces_declared_inputs :: "Scene \<Rightarrow> bool" where
  "enforces_declared_inputs s \<longleftrightarrow> sc_declared_inputs s \<noteq> None"

text \<open>\<open>{:?}\<close> of a \<open>LeafPath\<close>, from the derived \<open>Debug\<close> of a tuple struct.\<close>

definition debug_leaf_path :: "LeafPath \<Rightarrow> string" where
  "debug_leaf_path p = ''LeafPath('' @ debug_str p @ '')''"

definition check_input_patch :: "platform \<Rightarrow> Scene \<Rightarrow> Patch \<Rightarrow> InputRejection + unit" where
  "check_input_patch P s patch = (case sc_declared_inputs s of
      None \<Rightarrow> Inr ()
    | Some declared \<Rightarrow> (case hm_get declared (patch_path patch) of
        None \<Rightarrow> Inl \<lparr>ir_code = UnknownPath,
          ir_message = ''path '' @ debug_leaf_path (patch_path patch) @ '' not declared in operator_inputs'',
          ir_path = patch_path patch\<rparr>
      | Some spec \<Rightarrow> (case check_constraint P spec (patch_value patch) of
          Some message \<Rightarrow> Inl \<lparr>ir_code = InvalidValue, ir_message = message, ir_path = patch_path patch\<rparr>
        | None \<Rightarrow> Inr ())))"

section \<open>Emission as one step\<close>

text \<open>What any successful emission does: one record, numbered one past the counter.\<close>

definition next_record :: "Patch list \<Rightarrow> Cause option \<Rightarrow> Scene \<Rightarrow> ReplayRecord" where
  "next_record ps cause s = \<lparr>rec_seq = sc_seq s + 1, rec_patches = ps, rec_cause = cause\<rparr>"

definition payload :: "ReplayRecord \<Rightarrow> DeltaPayload" where
  "payload r = \<lparr>dp_seq = rec_seq r, dp_patches = rec_patches r, dp_cause = rec_cause r\<rparr>"

definition record_updates :: "ReplayRecord \<Rightarrow> (string \<times> json) list" where
  "record_updates r = map (\<lambda>p. (patch_path p, patch_value p)) (rec_patches r)"

definition commit :: "ReplayRecord \<Rightarrow> Scene \<Rightarrow> Scene" where
  "commit r s = s\<lparr>sc_store := store_apply (record_updates r) (sc_store s), sc_seq := rec_seq r,
     sc_replay := replay_push r (sc_replay s), sc_sent := sc_sent s @ [payload r]\<rparr>"

lemma emit_eq:
  "emit_with_cause patches cause s = (case parse_patches patches of
      Inl e \<Rightarrow> (Inl e, s)
    | Inr [] \<Rightarrow> (Inr (), s)
    | Inr parsed \<Rightarrow> (Inr (), commit (next_record parsed cause s) s))"
  by (auto simp: emit_with_cause_def commit_def next_record_def payload_def record_updates_def
      advance_seq_def Let_def split: sum.splits list.splits)

lemma scene_set_emit: "scene_set path v s = emit_with_cause [(path, v)] None s"
  by (auto simp: scene_set_def emit_with_cause_def store_set_def store_apply_def patch_new_def
      advance_seq_def Let_def split: sum.splits)

abbreviation legal_updates :: "(string \<times> json) list \<Rightarrow> bool" where
  "legal_updates \<equiv> list_all (\<lambda>(path, v). valid_path path \<and> \<not> is_object v)"

lemma parse_patches_cases:
  "if legal_updates ps then parse_patches ps = Inr (map (\<lambda>(path, v). patch_new path v) ps)
   else (\<exists>e. parse_patches ps = Inl e)"
proof (induction ps)
  case (Cons pv ps)
  obtain path v where pv: "pv = (path, v)" by fastforce
  show ?case
  proof (cases "valid_path path")
    case True
    with Cons show ?thesis by (auto simp: pv check_leaf_value_def split: if_splits)
  next
    case False
    then obtain m where "leaf_path_parse path = Inl (invalid_path m)"
      using leaf_path_parse_invalid by blast
    with False show ?thesis by (simp add: pv)
  qed
qed simp

lemma parse_patches_Inr:
  "parse_patches ps = Inr parsed \<longleftrightarrow> legal_updates ps \<and> parsed = map (\<lambda>(path, v). patch_new path v) ps"
  using parse_patches_cases [of ps] by (auto split: if_splits)

section \<open>Invariant and history\<close>

definition scene_wf :: "Scene \<Rightarrow> bool" where
  "scene_wf s \<longleftrightarrow> hm_wf (sc_store s) \<and> rb_wf (sc_replay s)
     \<and> (\<forall>r \<in> set (rb_records (sc_replay s)). unat (rec_seq r) \<le> unat (sc_seq s))"

lemma scene_wf_new: "scene_wf (scene_new i v)"
  by (simp add: scene_wf_def scene_new_def replay_new_def rb_wf_def DEFAULT_REPLAY_BUFFER_SIZE_def)

text \<open>
  \<open>history s log t\<close>: between \<open>s\<close> and \<open>t\<close> the scene committed exactly the records of \<open>log\<close>, numbered
  from the counter of \<open>s\<close> up, and the store, the ring and the channel all reflect them in order.
\<close>

definition apply_record :: "ReplayRecord \<Rightarrow> State \<Rightarrow> State" where
  "apply_record r st = bt_insert_all (record_updates r) st"

definition record_legal :: "ReplayRecord \<Rightarrow> bool" where
  "record_legal r \<longleftrightarrow>
     list_all (\<lambda>p. valid_path (patch_path p) \<and> is_value_legal p \<and> patch_transition p = None) (rec_patches r)"

definition history :: "Scene \<Rightarrow> ReplayRecord list \<Rightarrow> Scene \<Rightarrow> bool" where
  "history s log t \<longleftrightarrow> scene_wf t
     \<and> scene_state t = fold apply_record log (scene_state s)
     \<and> seqs_from (sc_seq s) log \<and> unat (sc_seq t) = unat (sc_seq s) + length log
     \<and> rb_cap (sc_replay t) = rb_cap (sc_replay s)
     \<and> rb_records (sc_replay t) = last_n (rb_cap (sc_replay s)) (rb_records (sc_replay s) @ log)
     \<and> sc_sent t = sc_sent s @ map payload log \<and> list_all record_legal log"

lemma history_refl: "scene_wf s \<Longrightarrow> history s [] s"
  by (simp add: history_def scene_wf_def rb_wf_def seqs_from_def)

lemma unat_add_one: "Suc (unat (a :: u64)) < 2 ^ 64 \<Longrightarrow> unat (a + 1) = Suc (unat a)"
  by (simp add: unat_plus_if')

lemma history_commit:
  assumes h: "history s log t" and room: "Suc (unat (sc_seq t)) < 2 ^ 64"
    and r: "rec_seq r = sc_seq t + 1" "record_legal r"
  shows "history s (log @ [r]) (commit r t)"
proof -
  have wf: "hm_wf (sc_store t)" "rb_wf (sc_replay t)"
    and recs: "\<forall>r \<in> set (rb_records (sc_replay t)). unat (rec_seq r) \<le> unat (sc_seq t)"
    using h by (auto simp: history_def scene_wf_def)
  have seq: "unat (rec_seq r) = Suc (unat (sc_seq t))"
    using room by (simp add: r(1) unat_add_one)
  have push: "rb_records (replay_push r (sc_replay t)) =
      last_n (rb_cap (sc_replay t)) (rb_records (sc_replay t) @ [r])"
    using wf(2) by (rule push_records)
  have "set (last_n n xs) \<subseteq> set xs" for n and xs :: "ReplayRecord list"
    by (simp add: last_n_def set_drop_subset)
  then have "scene_wf (commit r t)"
    using wf recs seq push by (fastforce simp: scene_wf_def commit_def)
  moreover have "scene_state (commit r t) = apply_record r (scene_state t)"
    using wf(1) by (simp add: scene_state_def commit_def snapshot_apply apply_record_def)
  moreover have "seqs_from (sc_seq s) (log @ [r])"
    using h seq by (simp add: history_def seqs_from_def)
  ultimately show ?thesis
    using h seq push r(2)
    by (simp add: history_def commit_def last_n_append_last_n [of _ _ "[r]", simplified])
qed

lemma payload_updates:
  "fold (\<lambda>d. bt_insert_all (map (\<lambda>p. (patch_path p, patch_value p)) (dp_patches d))) (map payload log) st
    = fold apply_record log st"
  by (induction log arbitrary: st) (simp_all add: apply_record_def record_updates_def payload_def)

section \<open>Writers\<close>

text \<open>
  A step of a scene: a write that succeeds or fails, or one of the administrative updates. Only
  \<open>advance_seq_for_change\<close> and \<open>seed\<close> are not steps: the first consumes a number without a record,
  the second changes leaves without a delta.
\<close>

inductive scene_step :: "Scene \<Rightarrow> Scene \<Rightarrow> bool" where
  step_set: "scene_step s (snd (scene_set path v s))"
| step_emit: "scene_step s (snd (emit_with_cause patches cause s))"
| step_reject: "scene_step s (scene_reject code message s)"
| step_declare: "scene_step s (with_operator_inputs specs s)"
| step_attach: "scene_step s (attach_bundle_bytes bytes s)"

inductive_cases scene_stepE: "scene_step s t"

lemma history_cong:
  assumes "sc_store t' = sc_store t" "sc_seq t' = sc_seq t" "sc_replay t' = sc_replay t"
    "sc_sent t' = sc_sent t"
  shows "history s log t' = history s log t"
  unfolding history_def scene_wf_def scene_state_def assms by (rule refl)

lemma history_admin:
  "history s log (scene_reject c m t) = history s log t"
  "history s log (with_operator_inputs specs t) = history s log t"
  "history s log (attach_bundle_bytes bytes t) = history s log t"
  by (rule history_cong;
      simp add: scene_reject_def with_operator_inputs_def attach_bundle_bytes_def)+

lemma history_emit:
  assumes "history s log t" "Suc (unat (sc_seq t)) < 2 ^ 64"
  shows "\<exists>ext. length ext \<le> 1 \<and> history s (log @ ext) (snd (emit_with_cause ps cause t))"
proof (cases "parse_patches ps")
  case (Inr parsed)
  show ?thesis
  proof (cases parsed)
    case Nil
    with Inr assms(1) show ?thesis by (intro exI [of _ "[]"]) (simp add: emit_eq)
  next
    case (Cons p qs)
    have "record_legal (next_record parsed cause t)"
      using Inr by (auto simp: parse_patches_Inr record_legal_def next_record_def patch_new_def
          is_value_legal_def list_all_iff)
    then have "history s (log @ [next_record parsed cause t]) (commit (next_record parsed cause t) t)"
      using assms by (intro history_commit) (simp_all add: next_record_def)
    with Inr Cons show ?thesis
      by (intro exI [of _ "[next_record parsed cause t]"]) (simp add: emit_eq)
  qed
qed (use assms in \<open>auto simp: emit_eq intro: exI [of _ "[]"]\<close>)

lemma history_step:
  assumes "scene_step t u" "history s log t" "Suc (unat (sc_seq t)) < 2 ^ 64"
  shows "\<exists>ext. length ext \<le> 1 \<and> history s (log @ ext) u"
  using assms(1)
proof (cases rule: scene_step.cases)
  case (step_set path v)
  then show ?thesis using history_emit [OF assms(2,3)] by (simp add: scene_set_emit)
next
  case (step_emit ps cause)
  then show ?thesis using history_emit [OF assms(2,3)] by simp
qed (use assms(2) in \<open>auto intro: exI [of _ "[]"] simp: history_admin\<close>)

lemma history_steps:
  "(scene_step ^^ n) s t \<Longrightarrow> scene_wf s \<Longrightarrow> unat (sc_seq s) + n < 2 ^ 64 \<Longrightarrow>
    \<exists>log. length log \<le> n \<and> history s log t"
proof (induction n arbitrary: t)
  case 0
  then show ?case by (auto intro: history_refl)
next
  case (Suc n)
  then obtain u where u: "(scene_step ^^ n) s u" "scene_step u t" by auto
  then obtain log where log: "length log \<le> n" "history s log u" using Suc by fastforce
  then have "Suc (unat (sc_seq u)) < 2 ^ 64" using Suc.prems by (simp add: history_def)
  then obtain ext where "length ext \<le> 1" "history s (log @ ext) t"
    using history_step [OF u(2) log(2)] by blast
  with log show ?case by (intro exI [of _ "log @ ext"]) auto
qed

text \<open>Every leaf has a path of the grammar and a value that is not an object.\<close>

definition store_legal :: "Scene \<Rightarrow> bool" where
  "store_legal s \<longleftrightarrow> hm_wf (sc_store s) \<and>
     (\<forall>k v. hm_get (sc_store s) k = Some v \<longrightarrow> valid_path k \<and> \<not> is_object v)"

lemma store_legal_new: "store_legal (scene_new i v)"
  by (simp add: store_legal_def scene_new_def store_new_def)

lemma store_legal_emit:
  assumes "store_legal s"
  shows "store_legal (snd (emit_with_cause ps cause s))"
proof (cases "parse_patches ps")
  case (Inr parsed)
  then have ok: "legal_updates ps" "parsed = map (\<lambda>(path, v). patch_new path v) ps"
    by (auto simp: parse_patches_Inr)
  have upd: "record_updates (next_record parsed cause s) = ps"
    by (auto simp: record_updates_def next_record_def ok(2) patch_new_def comp_def case_prod_beta)
  have "store_legal (commit (next_record parsed cause s) s)"
    using assms ok(1) map_of_SomeD [of "rev ps"]
    by (fastforce simp: store_legal_def commit_def upd store_apply_alt get_insert_all map_add_def
        list_all_iff split: option.splits)
  with assms Inr show ?thesis by (auto simp: emit_eq split: list.splits)
qed (use assms in \<open>simp add: emit_eq\<close>)

lemma store_legal_admin:
  "store_legal s \<Longrightarrow> store_legal (scene_reject c m s)"
  "store_legal s \<Longrightarrow> store_legal (with_operator_inputs specs s)"
  "store_legal s \<Longrightarrow> store_legal (attach_bundle_bytes bytes s)"
  by (simp_all add: store_legal_def scene_reject_def with_operator_inputs_def attach_bundle_bytes_def)

lemma store_legal_step: "scene_step s t \<Longrightarrow> store_legal s \<Longrightarrow> store_legal t"
  by (induction rule: scene_step.induct)
    (simp_all add: scene_set_emit store_legal_emit store_legal_admin)

lemma emit_state:
  assumes "scene_wf s" "legal_updates ps"
  shows "scene_state (snd (emit_with_cause ps cause s)) = bt_insert_all ps (scene_state s)"
proof -
  let ?r = "next_record (map (\<lambda>(path, v). patch_new path v) ps) cause s"
  have "record_updates ?r = ps"
    by (auto simp: record_updates_def next_record_def patch_new_def comp_def case_prod_beta)
  then have "scene_state (commit ?r s) = bt_insert_all ps (scene_state s)"
    using assms by (simp add: scene_state_def commit_def snapshot_apply scene_wf_def)
  moreover have "parse_patches ps = Inr (map (\<lambda>(path, v). patch_new path v) ps)"
    using assms by (simp add: parse_patches_Inr)
  ultimately show ?thesis by (cases ps) (auto simp: emit_eq)
qed

lemma emit_ok: "legal_updates ps \<Longrightarrow> \<exists>t. emit_with_cause ps cause s = (Inr (), t)"
  using parse_patches_cases [of ps] by (cases ps) (auto simp: emit_eq)

lemma bt_get_untouched: "k \<notin> fst ` set kvs \<Longrightarrow> bt_get (bt_insert_all kvs m) k = bt_get m k"
  by (simp add: bt_insert_all_def bt.lookup_insert_all_untouched)

section \<open>Properties\<close>

text \<open>
  C8. \<open>emit\<close> is all or nothing. If every path parses and no value is an object it succeeds, the
  state becomes the old state with the updates applied left to right, and exactly one delta with
  exactly these patches and the given cause is numbered and sent, and is the newest record of the
  replay buffer, where only the oldest record leaves and only when the buffer was full (nothing is
  sent or recorded for an empty list). Otherwise it fails and the scene is unchanged.
\<close>
theorem emit_all_or_nothing:
  assumes "scene_wf s"
  shows "case emit_with_cause ps cause s of
     (Inl _, t) \<Rightarrow> \<not> legal_updates ps \<and> t = s
   | (Inr _, t) \<Rightarrow> legal_updates ps \<and> scene_state t = bt_insert_all ps (scene_state s)
       \<and> sc_sent t = sc_sent s @ (if ps = [] then [] else
           [\<lparr>dp_seq = sc_seq s + 1, dp_patches = map (\<lambda>(path, v). patch_new path v) ps, dp_cause = cause\<rparr>])
       \<and> sc_seq t = (if ps = [] then sc_seq s else sc_seq s + 1)
       \<and> rb_cap (sc_replay t) = rb_cap (sc_replay s)
       \<and> (let old = rb_records (sc_replay s) in rb_records (sc_replay t) = (if ps = [] then old else
           drop (if length old < rb_cap (sc_replay s) then 0 else 1) old @
           [\<lparr>rec_seq = sc_seq s + 1, rec_patches = map (\<lambda>(path, v). patch_new path v) ps, rec_cause = cause\<rparr>]))"
proof (cases "legal_updates ps")
  case True
  let ?r = "next_record (map (\<lambda>(path, v). patch_new path v) ps) cause s"
  have "record_updates ?r = ps"
    by (auto simp: record_updates_def next_record_def patch_new_def comp_def case_prod_beta)
  then have "scene_state (commit ?r s) = bt_insert_all ps (scene_state s)"
    using assms by (simp add: scene_state_def commit_def snapshot_apply scene_wf_def)
  moreover have "parse_patches ps = Inr (map (\<lambda>(path, v). patch_new path v) ps)"
    using True by (simp add: parse_patches_Inr)
  ultimately show ?thesis
    using True assms
    by (cases ps) (auto simp: emit_eq commit_def payload_def next_record_def scene_wf_def rb_wf_def replay_push_def
        drop_Suc Let_def)
next
  case False
  then obtain e where "parse_patches ps = Inl e" using parse_patches_cases [of ps] by auto
  with False show ?thesis by (simp add: emit_eq)
qed

theorem emit_all_or_nothing_witness:
  "let t = snd (emit_with_cause [(''score'', jnat 3)] None (scene_new ''s'' ''v'')) in
    scene_state t = [(''score'', jnat 3)]
    \<and> rb_records (sc_replay t) = [\<lparr>rec_seq = 2, rec_patches = [patch_new ''score'' (jnat 3)], rec_cause = None\<rparr>]"
proof -
  have "emit_with_cause [(''score'', jnat 3)] None (scene_new ''s'' ''v'') =
      (Inr (), snd (emit_with_cause [(''score'', jnat 3)] None (scene_new ''s'' ''v'')))"
    by code_simp
  moreover have "scene_state (scene_new ''s'' ''v'') = []" "rb_records (sc_replay (scene_new ''s'' ''v'')) = []"
      "sc_seq (scene_new ''s'' ''v'') = 1" by code_simp+
  ultimately show ?thesis
    using emit_all_or_nothing [of "scene_new ''s'' ''v''" "[(''score'', jnat 3)]" None, OF scene_wf_new]
    by (auto simp: Let_def split: prod.splits sum.splits)
qed

lemma history_replay_since:
  assumes "scene_wf s" "history s log t" "Suc (unat (sc_seq s)) < 2 ^ 64"
  shows "if slice_covered (scene_replay_since (sc_seq s) t)
    then slice_records (scene_replay_since (sc_seq s) t) = log else rb_cap (sc_replay s) < length log"
  unfolding scene_replay_since_def using assms
  by (intro replay_since_resume [of _ _ "rb_records (sc_replay s)"]) (simp_all add: history_def scene_wf_def rb_wf_def)

text \<open>
  C3. Resume is exact. A client that holds the state of a scene at its number \<open>sc_seq s\<close> and comes
  back after any \<open>n\<close> steps is either told that the buffer does not cover it, and then more records
  than the buffer holds were missed, or it gets exactly the missed records, numbered without a
  hole, and applying them in order gives exactly the current state.
\<close>
theorem resume_exact:
  assumes "scene_wf s" "(scene_step ^^ n) s t" "unat (sc_seq s) + n < 2 ^ 64 - 1"
  shows "let slice = scene_replay_since (sc_seq s) t in
    if slice_covered slice
    then fold apply_record (slice_records slice) (scene_state s) = scene_state t
      \<and> map (unat \<circ> rec_seq) (slice_records slice) =
          [Suc (unat (sc_seq s)) ..< Suc (unat (sc_seq t))]
    else rb_cap (sc_replay s) < n"
proof -
  obtain log where log: "length log \<le> n" "history s log t"
    using history_steps [OF assms(2,1)] assms(3) by auto
  moreover have "if slice_covered (scene_replay_since (sc_seq s) t)
      then slice_records (scene_replay_since (sc_seq s) t) = log else rb_cap (sc_replay s) < length log"
    using assms(3) by (intro history_replay_since [OF assms(1) log(2)]) simp
  ultimately show ?thesis
    by (auto simp: Let_def history_def seqs_from_def split: if_splits)
qed

theorem resume_exact_witness:
  "let s = scene_new ''s'' ''v''; t = snd (scene_set ''score'' (jnat 3) s);
       slice = scene_replay_since (sc_seq s) t in
   slice_covered slice \<and> fold apply_record (slice_records slice) (scene_state s) = scene_state t"
proof -
  let ?s = "scene_new ''s'' ''v''"
  let ?t = "snd (scene_set ''score'' (jnat 3) ?s)"
  have "(scene_step ^^ 1) ?s ?t" by (auto simp: relcompp_apply intro: step_set)
  moreover have "unat (sc_seq ?s) + 1 < 2 ^ 64 - 1" by (simp add: scene_new_def)
  moreover have "slice_covered (scene_replay_since (sc_seq ?s) ?t)" by code_simp
  ultimately show ?thesis
    using resume_exact [OF scene_wf_new, of 1 "''s''" "''v''" ?t] by (simp add: Let_def)
qed

text \<open>
  Live subscribers converge: what a scene sends between two of its states is numbered
  consecutively from the first state's counter, and applying it in order to the first state's
  snapshot gives the second state's snapshot.
\<close>
theorem live_stream_exact:
  assumes "scene_wf s" "(scene_step ^^ n) s t" "unat (sc_seq s) + n < 2 ^ 64"
  shows "\<exists>new. sc_sent t = sc_sent s @ new
    \<and> map (unat \<circ> dp_seq) new = [Suc (unat (sc_seq s)) ..< Suc (unat (sc_seq t))]
    \<and> scene_state t =
        fold (\<lambda>d. bt_insert_all (map (\<lambda>p. (patch_path p, patch_value p)) (dp_patches d))) new (scene_state s)"
proof -
  obtain log where log: "history s log t"
    using history_steps [OF assms(2,1)] assms(3) by auto
  moreover have "map (unat \<circ> dp_seq) (map payload log) = map (unat \<circ> rec_seq) log"
    by (simp add: payload_def comp_def)
  ultimately show ?thesis
    by (intro exI [of _ "map payload log"]) (simp add: history_def seqs_from_def payload_updates del: map_map)
qed

theorem live_stream_exact_witness:
  "\<exists>new. sc_sent (snd (scene_set ''score'' (jnat 3) (scene_new ''s'' ''v''))) =
      sc_sent (scene_new ''s'' ''v'') @ new"
proof -
  let ?s = "scene_new ''s'' ''v''"
  have "(scene_step ^^ 1) ?s (snd (scene_set ''score'' (jnat 3) ?s))" by (auto simp: relcompp_apply intro: step_set)
  moreover have "unat (sc_seq ?s) + 1 < 2 ^ 64" by (simp add: scene_new_def)
  ultimately show ?thesis
    using live_stream_exact [OF scene_wf_new, of 1 "''s''" "''v''"] by blast
qed

end
