(* ===== verification/Role_Auth.thy ===== *)
theory Role_Auth
  imports Leaf_Path
begin

text \<open>
  \<open>role.rs\<close> and \<open>auth.rs\<close>: roles and what they may write, identities, and the in-memory
  authenticator. The contract of an authenticator is a locale; the WebSocket handler takes any
  function from tokens, and the map authenticator is the instance the repository ships.
\<close>

section \<open>Roles\<close>

datatype Role = Viewer | Operator | Service | TestRole

definition can_input :: "Role \<Rightarrow> bool" where
  "can_input r \<longleftrightarrow> r \<noteq> Viewer"

fun can_write :: "Role \<Rightarrow> LeafPath \<Rightarrow> string list option \<Rightarrow> bool" where
  "can_write Viewer path scoped = False"
| "can_write Operator path scoped = starts_with_prefix path ''__inputs''"
| "can_write Service path scoped =
     (if \<not> starts_with_prefix path ''__inputs'' then False
      else (case scoped of
          Some pfxs \<Rightarrow>
            if pfxs \<noteq> [] then list_ex (\<lambda>p. starts_with_prefix path p) pfxs else True
        | None \<Rightarrow> True))"
| "can_write TestRole path scoped = starts_with_prefix path ''__test''"

fun show_role :: "Role \<Rightarrow> string" where
  "show_role Viewer = ''viewer''"
| "show_role Operator = ''operator''"
| "show_role Service = ''service''"
| "show_role TestRole = ''test''"

section \<open>Authentication\<close>

record Identity =
  id_subject :: string
  id_role :: Role
  id_paths :: "string list option"

datatype AuthError = Denied | Unavailable string

fun show_auth_error :: "AuthError \<Rightarrow> string" where
  "show_auth_error Denied = ''auth denied''"
| "show_auth_error (Unavailable e) = ''authenticator unavailable: '' @ e"

type_synonym MapAuthenticator = "Identity hm"

definition auth_new :: MapAuthenticator where
  "auth_new = []"

definition auth_insert :: "string \<Rightarrow> Role \<Rightarrow> MapAuthenticator \<Rightarrow> MapAuthenticator" where
  "auth_insert token r a =
     hm_insert token \<lparr>id_subject = token, id_role = r, id_paths = None\<rparr> a"

definition insert_identity :: "string \<Rightarrow> Identity \<Rightarrow> MapAuthenticator \<Rightarrow> MapAuthenticator" where
  "insert_identity token identity a = hm_insert token identity a"

definition auth_remove :: "string \<Rightarrow> MapAuthenticator \<Rightarrow> Identity option \<times> MapAuthenticator" where
  "auth_remove token a = (hm_get a token, hm_remove token a)"

definition auth_clear :: "MapAuthenticator \<Rightarrow> MapAuthenticator" where
  "auth_clear a = []"

definition auth_len :: "MapAuthenticator \<Rightarrow> nat" where
  "auth_len a = length a"

definition auth_is_empty :: "MapAuthenticator \<Rightarrow> bool" where
  "auth_is_empty a \<longleftrightarrow> a = []"

definition authenticate :: "MapAuthenticator \<Rightarrow> string \<Rightarrow> AuthError + Identity" where
  "authenticate a token = (case hm_get a token of Some i \<Rightarrow> Inr i | None \<Rightarrow> Inl Denied)"

section \<open>The contract\<close>

text \<open>
  A token registry: a token admits exactly the identity last registered for it, other tokens are
  unaffected, and a removed or never registered token is denied.
\<close>

locale token_registry =
  fixes register :: "string \<Rightarrow> Identity \<Rightarrow> 'a \<Rightarrow> 'a"
    and unregister :: "string \<Rightarrow> 'a \<Rightarrow> 'a"
    and fresh :: 'a
    and auth :: "'a \<Rightarrow> string \<Rightarrow> AuthError + Identity"
  assumes auth_register: "auth (register t i a) = (auth a)(t := Inr i)"
    and auth_unregister: "auth (unregister t a) = (auth a)(t := Inl Denied)"
    and auth_fresh: "auth fresh t = Inl Denied"
begin

lemma register_then_unregister: "auth (unregister t (register t i a)) = auth (unregister t a)"
  by (simp add: auth_register auth_unregister)

lemma last_registration_wins: "auth (register t j (register t i a)) = auth (register t j a)"
  by (simp add: auth_register)

lemma only_registered:
  "auth (fold (\<lambda>(t, i). register t i) regs fresh) t = Inr i \<Longrightarrow> (t, i) \<in> set regs"
proof (induction regs rule: rev_induct)
  case (snoc r regs)
  obtain u j where "r = (u, j)" by fastforce
  with snoc show ?case by (auto simp: auth_register split: if_splits)
qed (simp add: auth_fresh)

end

interpretation map_auth: token_registry insert_identity "\<lambda>t a. snd (auth_remove t a)" auth_new authenticate
  by unfold_locales
    (auto simp: insert_identity_def auth_remove_def authenticate_def auth_new_def fun_eq_iff
      split: option.splits)

section \<open>Properties\<close>

lemma starts_with_prefix_trans:
  "starts_with_prefix p q \<Longrightarrow> starts_with_prefix q r \<Longrightarrow> starts_with_prefix p r"
  by (auto simp: starts_with_prefix_def strip_prefix_eq_Some starts_with_iff
      split: if_splits option.splits)

lemma inputs_prefix_namespace: "starts_with_prefix path ''__inputs'' \<Longrightarrow> namespace_of path = Inputs"
proof -
  have hd: "hd (split_on CHR ''.'' (''inputs'' @ CHR ''.'' # r)) = ''inputs''" for r
    by (subst split_on_append) simp
  assume "starts_with_prefix path ''__inputs''"
  then consider "path = ''__inputs''" | r where "path = ''__'' @ ''inputs'' @ CHR ''.'' # r"
    by (auto simp: starts_with_prefix_def strip_prefix_eq_Some starts_with_iff
        split: if_splits option.splits)
  then show ?thesis
  proof cases
    case 2
    then have "strip_prefix ''__'' path = Some (''inputs'' @ CHR ''.'' # r)"
      by (simp only: strip_prefix_append)
    then show ?thesis unfolding namespace_of_def using hd [of r] by simp
  qed (simp add: namespace_of_def strip_prefix_def)
qed

lemma test_prefix_namespace: "starts_with_prefix path ''__test'' \<Longrightarrow> namespace_of path = Test"
proof -
  have hd: "hd (split_on CHR ''.'' (''test'' @ CHR ''.'' # r)) = ''test''" for r
    by (subst split_on_append) simp
  assume "starts_with_prefix path ''__test''"
  then consider "path = ''__test''" | r where "path = ''__'' @ ''test'' @ CHR ''.'' # r"
    by (auto simp: starts_with_prefix_def strip_prefix_eq_Some starts_with_iff
        split: if_splits option.splits)
  then show ?thesis
  proof cases
    case 2
    then have "strip_prefix ''__'' path = Some (''test'' @ CHR ''.'' # r)"
      by (simp only: strip_prefix_append)
    then show ?thesis unfolding namespace_of_def using hd [of r] by simp
  qed (simp add: namespace_of_def strip_prefix_def)
qed

lemma can_write_can_input: "can_write r path scoped \<Longrightarrow> can_input r"
  by (cases r) (simp_all add: can_input_def)

lemma can_write_ns:
  "can_write r path scoped \<Longrightarrow> r \<noteq> Viewer \<and> namespace_of path = (if r = TestRole then Test else Inputs)"
  by (cases r) (auto simp: inputs_prefix_namespace test_prefix_namespace split: if_splits)

text \<open>
  Write isolation: a path any role may write lies in the namespace of that role (\<open>__inputs\<close>
  for operators and services, \<open>__test\<close> for test sessions), no role writes system, schema or
  scene leaves, and a viewer writes nothing.
\<close>
theorem can_write_namespace:
  "can_write r path scoped \<longrightarrow>
     r \<noteq> Viewer \<and> namespace_of path = (if r = TestRole then Test else Inputs)"
  using can_write_ns by blast

lemma operator_example: "can_write Operator ''__inputs.title'' None"
  by (simp add: starts_with_prefix_def strip_prefix_def starts_with_def)

theorem can_write_namespace_witness: "namespace_of ''__inputs.title'' = Inputs"
  using can_write_namespace [of Operator "''__inputs.title''" None] operator_example by simp

text \<open>
  A service token with a non-empty scope never writes outside every prefix of its scope, and
  narrowing the scope never grants a path.
\<close>
theorem service_scope:
  assumes "can_write Service path (Some pfxs)" "pfxs \<noteq> []"
  shows "list_ex (starts_with_prefix path) pfxs
    \<and> can_write Operator path None \<and> can_write Service path (Some (pfxs @ extra))"
  using assms by (auto split: if_splits)

theorem service_scope_witness:
  "list_ex (starts_with_prefix ''__inputs.team_a.score'') [''__inputs.team_a'']"
  using service_scope [of "''__inputs.team_a.score''" "[''__inputs.team_a'']" "[]"]
  by (simp add: starts_with_prefix_def strip_prefix_def starts_with_def)

end
