(* ===== verification/Server.thy ===== *)
theory Server
  imports Scene Role_Auth
begin

text \<open>
  \<open>config.rs\<close>, \<open>server.rs\<close> and \<open>bundle_route.rs\<close>: the scene registry, the active scene, the event
  channel, and the content-addressed bundle route. A \<open>Scene\<close> handle is an \<open>Arc\<close>, so a scene lives
  on after it is dropped from the registry: scenes are kept in a heap and a handle is an index.
\<close>

section \<open>Configuration and state\<close>

text \<open>Durations are in milliseconds.\<close>

record ServerConfig =
  max_frame_bytes :: nat
  input_rate_per_sec :: u32
  heartbeat :: nat
  subscribe_timeout :: nat
  test_session_ttl :: nat

definition config_default :: ServerConfig where
  "config_default = \<lparr>max_frame_bytes = 64 * 1024, input_rate_per_sec = 60, heartbeat = 30000,
     subscribe_timeout = 5000, test_session_ttl = 300000\<rparr>"

definition placeholder_version :: SceneVersion where
  "placeholder_version = ''sha256:'' @ replicate 64 CHR ''0''"

definition EVENT_CAPACITY :: nat where
  "EVENT_CAPACITY = 64"

datatype ServerEvent = SceneSwap SceneId

type_synonym scene_ref = nat

record Server =
  srv_heap :: "Scene list"
  srv_scenes :: "scene_ref hm"
  srv_active :: "SceneId option"
  srv_events :: "ServerEvent list"
  srv_config :: ServerConfig

definition server_scene :: "string \<Rightarrow> Server \<Rightarrow> scene_ref option" where
  "server_scene i srv = hm_get (srv_scenes srv) i"

abbreviation scene_at :: "Server \<Rightarrow> scene_ref \<Rightarrow> Scene" where
  "scene_at srv r \<equiv> srv_heap srv ! r"

definition update_scene :: "scene_ref \<Rightarrow> Scene \<Rightarrow> Server \<Rightarrow> Server" where
  "update_scene r s srv = srv\<lparr>srv_heap := (srv_heap srv)[r := s]\<rparr>"

section \<open>Operations\<close>

text \<open>Allocating a scene, entering it in the registry, and making it active if none is.\<close>

definition add_scene :: "Scene \<Rightarrow> Server \<Rightarrow> scene_ref \<times> Server" where
  "add_scene scene srv =
     (let r = length (srv_heap srv);
          srv1 = srv\<lparr>srv_heap := srv_heap srv @ [scene],
            srv_scenes := hm_insert (sc_id scene) r (srv_scenes srv)\<rparr>;
          srv2 = (if srv_active srv1 = None then srv1\<lparr>srv_active := Some (sc_id scene)\<rparr> else srv1)
      in (r, srv2))"

definition new_scene_with_version ::
    "SceneId \<Rightarrow> SceneVersion \<Rightarrow> Server \<Rightarrow> (ServerError + scene_ref) \<times> Server" where
  "new_scene_with_version i version srv =
     (if hm_get (srv_scenes srv) i \<noteq> None then (Inl (SEDuplicateScene i), srv)
      else (let (r, srv') = add_scene (scene_new i version) srv in (Inr r, srv')))"

definition new_scene :: "SceneId \<Rightarrow> Server \<Rightarrow> (ServerError + scene_ref) \<times> Server" where
  "new_scene i srv = new_scene_with_version i placeholder_version srv"

definition register_bundle :: "platform \<Rightarrow> Bundle \<Rightarrow> Server \<Rightarrow> (ServerError + scene_ref) \<times> Server" where
  "register_bundle P bundle srv =
     (let bundle' = with_computed_version P bundle; i = bundle_scene_id bundle' in
      if hm_get (srv_scenes srv) i \<noteq> None then (Inl (SEDuplicateScene i), srv)
      else
       (let scene = scene_new i (bundle_scene_version bundle');
            scene1 = scene_seed (bundle_defaults bundle') scene;
            scene2 = attach_bundle_bytes (to_canonical_bytes P bundle') scene1;
            (r, srv') = add_scene scene2 srv
        in (Inr r, srv')))"

definition set_active_scene :: "SceneId \<Rightarrow> Server \<Rightarrow> (ServerError + unit) \<times> Server" where
  "set_active_scene i srv =
     (if hm_get (srv_scenes srv) i = None then (Inl (SEUnknownScene i), srv)
      else (Inr (), srv\<lparr>srv_active := Some i, srv_events := srv_events srv @ [SceneSwap i]\<rparr>))"

definition clear_scenes :: "Server \<Rightarrow> Server" where
  "clear_scenes srv = srv\<lparr>srv_scenes := [], srv_active := None\<rparr>"

record ServerBuilder =
  sb_addr :: "string option"
  sb_auth :: "(string \<Rightarrow> AuthError + Identity) option"
  sb_config :: ServerConfig

definition server_builder :: ServerBuilder where
  "server_builder = \<lparr>sb_addr = None, sb_auth = None, sb_config = config_default\<rparr>"

definition builder_listen :: "string \<Rightarrow> ServerBuilder \<Rightarrow> ServerBuilder" where
  "builder_listen addr b = b\<lparr>sb_addr := Some addr\<rparr>"

definition builder_auth :: "(string \<Rightarrow> AuthError + Identity) \<Rightarrow> ServerBuilder \<Rightarrow> ServerBuilder" where
  "builder_auth auth b = b\<lparr>sb_auth := Some auth\<rparr>"

definition builder_config :: "ServerConfig \<Rightarrow> ServerBuilder \<Rightarrow> ServerBuilder" where
  "builder_config config b = b\<lparr>sb_config := config\<rparr>"

text \<open>\<open>build\<close>, with the result of binding the listener given by \<open>bind_to\<close>.\<close>

definition builder_build ::
    "(string \<Rightarrow> string + unit) \<Rightarrow> ServerBuilder
     \<Rightarrow> ServerError + ((string \<Rightarrow> AuthError + Identity) \<times> Server)" where
  "builder_build bind_to b = (case sb_addr b of
      None \<Rightarrow> Inl (SEBuilderMissing ''listen'')
    | Some addr \<Rightarrow> (case sb_auth b of
        None \<Rightarrow> Inl (SEBuilderMissing ''auth'')
      | Some auth \<Rightarrow> (case bind_to addr of
          Inl e \<Rightarrow> Inl (SEIo e)
        | Inr _ \<Rightarrow> Inr (auth, \<lparr>srv_heap = [], srv_scenes = [], srv_active = None, srv_events = [],
            srv_config = sb_config b\<rparr>))))"

section \<open>The bundle route\<close>

datatype BundleResponse =
    RouteNotFound
  | RouteOk string "(string \<times> string) list"

definition scene_bundle_route :: "Server \<Rightarrow> string \<Rightarrow> string \<Rightarrow> BundleResponse" where
  "scene_bundle_route srv scene_id version_hex = (case server_scene scene_id srv of
      None \<Rightarrow> RouteNotFound
    | Some r \<Rightarrow>
        (if sc_version (scene_at srv r) \<noteq> ''sha256:'' @ version_hex then RouteNotFound
         else (case sc_bundle_bytes (scene_at srv r) of
             None \<Rightarrow> RouteNotFound
           | Some bytes \<Rightarrow> RouteOk bytes
               [(''content-type'', ''application/json; charset=utf-8''),
                (''cache-control'', ''public, max-age=31536000, immutable'')])))"

section \<open>Invariant\<close>

text \<open>Bytes attached to a scene are those of a self-consistent bundle of that scene and version.\<close>

definition bundle_bytes_ok :: "platform \<Rightarrow> Scene \<Rightarrow> bool" where
  "bundle_bytes_ok P s \<longleftrightarrow> (\<forall>bytes. sc_bundle_bytes s = Some bytes \<longrightarrow>
     (\<exists>b. bytes = to_canonical_bytes P b \<and> is_self_consistent P b
       \<and> sc_version s = bundle_scene_version b \<and> sc_id s = bundle_scene_id b))"

definition server_wf :: "platform \<Rightarrow> Server \<Rightarrow> bool" where
  "server_wf P srv \<longleftrightarrow> hm_wf (srv_scenes srv)
     \<and> (\<forall>i r. hm_get (srv_scenes srv) i = Some r \<longrightarrow>
          r < length (srv_heap srv) \<and> sc_id (scene_at srv r) = i)
     \<and> (\<forall>i. srv_active srv = Some i \<longrightarrow> hm_get (srv_scenes srv) i \<noteq> None)
     \<and> (srv_scenes srv \<noteq> [] \<longrightarrow> srv_active srv \<noteq> None)
     \<and> list_all (\<lambda>s. scene_wf s \<and> bundle_bytes_ok P s) (srv_heap srv)"

lemma hm_insert_nonempty [simp]: "hm_insert k v m \<noteq> []"
  using hm.lookup_insert [of k v m] by (metis map_of.simps(1) fun_upd_same option.distinct(1))

lemma server_wf_add_scene:
  assumes "server_wf P srv" "scene_wf s" "bundle_bytes_ok P s" "hm_get (srv_scenes srv) (sc_id s) = None"
  shows "server_wf P (snd (add_scene s srv))"
  using assms
  by (auto simp: server_wf_def add_scene_def Let_def nth_append less_SucI)

lemma scene_wf_seed: "scene_wf s \<Longrightarrow> scene_wf (scene_seed kvs s)"
  by (simp add: scene_wf_def scene_seed_def)

lemma scene_wf_attach: "scene_wf s \<Longrightarrow> scene_wf (attach_bundle_bytes b s)"
  by (simp add: scene_wf_def attach_bundle_bytes_def)

lemma self_consistent_computed: "is_self_consistent P (with_computed_version P b)"
  by (simp add: is_self_consistent_def with_computed_version_def hash_ignores_version)

section \<open>Reachable servers\<close>

text \<open>
  One operation of the server: registry operations, and operations on the scene behind a handle. A
  scene's counter is assumed not to reach the end of \<open>u64\<close>.
\<close>

inductive server_step :: "platform \<Rightarrow> Server \<Rightarrow> Server \<Rightarrow> bool" for P where
  srv_new: "server_step P srv (snd (new_scene_with_version i version srv))"
| srv_register: "server_step P srv (snd (register_bundle P bundle srv))"
| srv_activate: "server_step P srv (snd (set_active_scene i srv))"
| srv_clear: "server_step P srv (clear_scenes srv)"
| srv_emit: "r < length (srv_heap srv) \<Longrightarrow> Suc (unat (sc_seq (scene_at srv r))) < 2 ^ 64 \<Longrightarrow>
    server_step P srv (update_scene r (snd (emit_with_cause ps cause (scene_at srv r))) srv)"
| srv_advance: "r < length (srv_heap srv) \<Longrightarrow> Suc (unat (sc_seq (scene_at srv r))) < 2 ^ 64 \<Longrightarrow>
    server_step P srv (update_scene r (snd (advance_seq_for_change (scene_at srv r))) srv)"
| srv_seed: "r < length (srv_heap srv) \<Longrightarrow>
    server_step P srv (update_scene r (scene_seed kvs (scene_at srv r)) srv)"
| srv_reject: "r < length (srv_heap srv) \<Longrightarrow>
    server_step P srv (update_scene r (scene_reject code msg (scene_at srv r)) srv)"
| srv_declare: "r < length (srv_heap srv) \<Longrightarrow>
    server_step P srv (update_scene r (with_operator_inputs specs (scene_at srv r)) srv)"

definition server_init :: "ServerConfig \<Rightarrow> Server" where
  "server_init cfg = \<lparr>srv_heap = [], srv_scenes = [], srv_active = None, srv_events = [], srv_config = cfg\<rparr>"

lemma server_wf_init: "server_wf P (server_init cfg)"
  by (simp add: server_wf_def server_init_def)

definition same_identity :: "Scene \<Rightarrow> Scene \<Rightarrow> bool" where
  "same_identity s t \<longleftrightarrow> sc_id t = sc_id s \<and> sc_version t = sc_version s
     \<and> sc_bundle_bytes t = sc_bundle_bytes s"

lemma server_wf_update:
  assumes "server_wf P srv" "r < length (srv_heap srv)" "scene_wf t" "same_identity (scene_at srv r) t"
  shows "server_wf P (update_scene r t srv)"
proof -
  have "bundle_bytes_ok P (scene_at srv r)" using assms(1,2) by (simp add: server_wf_def list_all_length)
  then have "bundle_bytes_ok P t" using assms(4) by (simp add: bundle_bytes_ok_def same_identity_def)
  with assms show ?thesis
    by (auto simp: server_wf_def update_scene_def same_identity_def list_all_length nth_list_update)
qed

lemma server_wf_scene: "server_wf P srv \<Longrightarrow> r < length (srv_heap srv) \<Longrightarrow> scene_wf (scene_at srv r)"
  by (simp add: server_wf_def list_all_length)

lemma emit_wf:
  "scene_wf s \<Longrightarrow> Suc (unat (sc_seq s)) < 2 ^ 64 \<Longrightarrow> scene_wf (snd (emit_with_cause ps cause s))"
  using history_emit [OF history_refl] by (auto simp: history_def)

lemma emit_identity: "same_identity s (snd (emit_with_cause ps cause s))"
  by (auto simp: same_identity_def emit_eq commit_def split: sum.splits list.splits)

lemma advance_wf:
  "scene_wf s \<Longrightarrow> Suc (unat (sc_seq s)) < 2 ^ 64 \<Longrightarrow> scene_wf (snd (advance_seq_for_change s))"
  by (auto simp: scene_wf_def advance_seq_for_change_def advance_seq_def Let_def unat_add_one)

lemma admin_wf:
  "scene_wf s \<Longrightarrow> scene_wf (scene_reject c m s)" "scene_wf s \<Longrightarrow> scene_wf (with_operator_inputs specs s)"
  by (simp_all add: scene_wf_def scene_reject_def with_operator_inputs_def)

lemmas scene_op_identity = same_identity_def advance_seq_for_change_def advance_seq_def scene_seed_def
  scene_reject_def with_operator_inputs_def Let_def

lemma server_wf_new: "server_wf P srv \<Longrightarrow> server_wf P (snd (new_scene_with_version i v srv))"
  using server_wf_add_scene [of P srv "scene_new i v"] scene_wf_new [of i v]
  by (auto simp: new_scene_with_version_def scene_new_def bundle_bytes_ok_def split: prod.splits)

text \<open>The scene that a registration builds from a bundle.\<close>

lemma bundle_scene_ok:
  fixes P :: platform and b :: Bundle
  defines "b' \<equiv> with_computed_version P b"
  defines "s \<equiv> attach_bundle_bytes (to_canonical_bytes P b')
    (scene_seed (bundle_defaults b') (scene_new (bundle_scene_id b') (bundle_scene_version b')))"
  shows "scene_wf s" "bundle_bytes_ok P s" "sc_id s = bundle_scene_id b'"
proof -
  show "scene_wf s" unfolding s_def by (intro scene_wf_attach scene_wf_seed scene_wf_new)
  show "bundle_bytes_ok P s" using self_consistent_computed
    by (auto simp: s_def b'_def bundle_bytes_ok_def attach_bundle_bytes_def scene_seed_def scene_new_def)
  show "sc_id s = bundle_scene_id b'" by (simp add: s_def attach_bundle_bytes_def scene_seed_def scene_new_def)
qed

lemma server_wf_register: "server_wf P srv \<Longrightarrow> server_wf P (snd (register_bundle P b srv))"
  using server_wf_add_scene [of P srv, OF _ bundle_scene_ok(1,2) [of P b]] bundle_scene_ok(3) [of P b]
  by (auto simp: register_bundle_def Let_def split: prod.splits)

lemma server_wf_step: "server_step P srv srv' \<Longrightarrow> server_wf P srv \<Longrightarrow> server_wf P srv'"
proof (induction rule: server_step.induct)
  case (srv_activate srv i)
  then show ?case by (auto simp: set_active_scene_def server_wf_def)
next
  case (srv_clear srv)
  then show ?case by (simp add: clear_scenes_def server_wf_def)
next
  case (srv_emit r srv ps cause)
  then show ?case by (intro server_wf_update emit_wf emit_identity server_wf_scene) auto
next
  case (srv_advance r srv)
  then show ?case
    by (intro server_wf_update advance_wf server_wf_scene) (auto simp: scene_op_identity)
next
  case (srv_seed r srv kvs)
  then show ?case
    by (intro server_wf_update scene_wf_seed server_wf_scene) (auto simp: scene_op_identity)
next
  case (srv_reject r srv code msg)
  then show ?case
    by (intro server_wf_update admin_wf server_wf_scene) (auto simp: scene_op_identity)
next
  case (srv_declare r srv specs)
  then show ?case
    by (intro server_wf_update admin_wf server_wf_scene) (auto simp: scene_op_identity)
qed (simp_all add: server_wf_new server_wf_register)

lemma server_wf_steps: "(server_step P)\<^sup>*\<^sup>* srv srv' \<Longrightarrow> server_wf P srv \<Longrightarrow> server_wf P srv'"
  by (induction rule: rtranclp_induct) (auto intro: server_wf_step)

text \<open>What the bundle route serves, where the scenes of the map are the ones of their ids.\<close>

lemma route_served:
  assumes "scene_bundle_route srv i hex = RouteOk body headers"
    and "\<And>r. server_scene i srv = Some r \<Longrightarrow> sc_id (scene_at srv r) = i \<and> bundle_bytes_ok P (scene_at srv r)"
  shows "\<exists>b. body = to_canonical_bytes P b \<and> bundle_scene_id b = i \<and> compute_content_hash P b = ''sha256:'' @ hex"
proof -
  obtain r where r: "server_scene i srv = Some r" "sc_version (scene_at srv r) = ''sha256:'' @ hex"
      "sc_bundle_bytes (scene_at srv r) = Some body"
    using assms(1) by (auto simp: scene_bundle_route_def split: option.splits if_splits)
  with assms(2) [OF r(1)] show ?thesis by (auto simp: bundle_bytes_ok_def is_self_consistent_def)
qed

section \<open>Properties\<close>

text \<open>
  C20. The registry stays consistent: after any sequence of operations the active scene, if any, is
  registered, there is one as soon as a scene is registered, every registered handle leads to a
  scene with that id, and every scene satisfies its invariant.
\<close>
theorem server_invariant:
  assumes "(server_step P)\<^sup>*\<^sup>* (server_init cfg) srv"
  shows "(\<forall>i. srv_active srv = Some i \<longrightarrow> server_scene i srv \<noteq> None)
    \<and> (srv_scenes srv \<noteq> [] \<longrightarrow> srv_active srv \<noteq> None)
    \<and> (\<forall>i r. server_scene i srv = Some r \<longrightarrow>
        r < length (srv_heap srv) \<and> sc_id (scene_at srv r) = i \<and> scene_wf (scene_at srv r))"
  using server_wf_steps [OF assms server_wf_init]
  by (auto simp: server_wf_def server_scene_def list_all_length)

definition sample_config :: ServerConfig where
  "sample_config = \<lparr>max_frame_bytes = 64, input_rate_per_sec = 60, heartbeat = 30,
     subscribe_timeout = 5, test_session_ttl = 300\<rparr>"

theorem server_invariant_witness:
  "server_scene ''main'' (snd (new_scene_with_version ''main'' ''v'' (server_init sample_config))) \<noteq> None"
proof -
  let ?srv = "snd (new_scene_with_version ''main'' ''v'' (server_init sample_config))"
  have "(server_step sample_platform)\<^sup>*\<^sup>* (server_init sample_config) ?srv"
    by (intro r_into_rtranclp srv_new)
  moreover have "srv_active ?srv = Some ''main''" by code_simp
  ultimately show ?thesis using server_invariant by blast
qed

text \<open>
  C22. The bundle route is content-addressed: whatever it serves under a scene id and a hash, in any
  reachable server, is the canonical form of a bundle of that scene whose content hash is exactly
  the hash in the URL.
\<close>
theorem bundle_route_content_addressed:
  assumes "(server_step P)\<^sup>*\<^sup>* (server_init cfg) srv" "scene_bundle_route srv i hex = RouteOk body headers"
  shows "\<exists>b. body = to_canonical_bytes P b \<and> bundle_scene_id b = i
    \<and> compute_content_hash P b = ''sha256:'' @ hex"
proof (rule route_served [OF assms(2)])
  show "server_scene i srv = Some r \<Longrightarrow> sc_id (scene_at srv r) = i \<and> bundle_bytes_ok P (scene_at srv r)" for r
    using server_wf_steps [OF assms(1) server_wf_init] by (auto simp: server_wf_def server_scene_def list_all_length)
qed

definition sample_hex :: string where
  "sample_hex = concat (replicate 32 ''ab'')"

definition sample_server :: Server where
  "sample_server = snd (register_bundle sample_platform sample_bundle (server_init sample_config))"

theorem bundle_route_content_addressed_witness:
  "\<exists>b. compute_content_hash sample_platform b = ''sha256:'' @ sample_hex"
proof -
  have "(server_step sample_platform)\<^sup>*\<^sup>* (server_init sample_config) sample_server"
    unfolding sample_server_def by (intro r_into_rtranclp srv_register)
  moreover have "\<exists>body headers. scene_bundle_route sample_server ''main'' sample_hex = RouteOk body headers"
  proof -
    have "case scene_bundle_route sample_server ''main'' sample_hex of RouteOk b h \<Rightarrow> True | _ \<Rightarrow> False"
      by code_simp
    then show ?thesis by (auto split: BundleResponse.splits)
  qed
  ultimately show ?thesis using bundle_route_content_addressed by blast
qed

end
