(* ===== verification/Ws_Handler.thy ===== *)
theory Ws_Handler
  imports Server
begin

text \<open>
  \<open>ws_handler.rs\<close>: one WebSocket connection. The handler's state is the server, the connection
  (the scene it is attached to, its rate bucket and what it has written to the socket), and, after
  the handshake, the scene and identity of the main loop. What the socket and the broadcast
  receivers yield are the inputs of the steps; the clock is read from \<open>Env\<close>. A socket write fails
  once the connection's budget of successful writes is used up.
\<close>

section \<open>Time\<close>

record Env =
  env_secs :: nat
  env_millis :: nat
  env_instant :: nat

text \<open>\<open>{n:0w}\<close>.\<close>

definition show_padded :: "nat \<Rightarrow> nat \<Rightarrow> string" where
  "show_padded w n = (let s = show_nat n in replicate (w - length s) CHR ''0'' @ s)"

definition show_int_padded :: "nat \<Rightarrow> int \<Rightarrow> string" where
  "show_int_padded w i = (if i < 0 then CHR ''-'' # show_padded (w - 1) (nat (- i)) else show_padded w (nat i))"

text \<open>\<open>u32\<close> arithmetic wraps; \<open>as i32\<close> keeps the low 32 bits as a signed number.\<close>

definition wrap32 :: "int \<Rightarrow> int" where
  "wrap32 x = x mod 2 ^ 32"

definition as_i32 :: "int \<Rightarrow> int" where
  "as_i32 x = (x + 2 ^ 31) mod 2 ^ 32 - 2 ^ 31"

definition epoch_to_calendar :: "nat \<Rightarrow> int \<times> int \<times> int \<times> int \<times> int \<times> int" where
  "epoch_to_calendar secs =
     (let days = int secs div 86400;
          rm = int secs mod 86400;
          hour = rm div 3600;
          minute = (rm mod 3600) div 60;
          sec = rm mod 60;
          z = days + 719468;
          era = (if 0 \<le> z then z else z - 146096) div 146097;
          doe = wrap32 (z - era * 146097);
          yoe = wrap32 (wrap32 (wrap32 (doe - doe div 1460) + doe div 36524) - doe div 146096) div 365;
          y = yoe + era * 400;
          doy = wrap32 (doe - wrap32 (wrap32 (365 * yoe + yoe div 4) - yoe div 100));
          mp = wrap32 (5 * doy + 2) div 153;
          d = wrap32 (wrap32 (doy - wrap32 (153 * mp + 2) div 5) + 1);
          m = (if mp < 10 then mp + 3 else mp - 9);
          year = as_i32 (if m \<le> 2 then y + 1 else y)
      in (year, m, d, hour, minute, sec))"

definition now_iso :: "Env \<Rightarrow> string" where
  "now_iso env = (case epoch_to_calendar (env_secs env) of (year, month, day, hour, minute, sec) \<Rightarrow>
     show_int_padded 4 year @ ''-'' @ show_padded 2 (nat month) @ ''-'' @ show_padded 2 (nat day)
     @ ''T'' @ show_padded 2 (nat hour) @ '':'' @ show_padded 2 (nat minute) @ '':''
     @ show_padded 2 (nat sec) @ ''.'' @ show_padded 3 (env_millis env) @ ''Z'')"

text \<open>Instants are in nanoseconds; \<open>duration_since\<close> an earlier instant saturates at zero.\<close>

record RateBucket =
  rate_limit :: u32
  rate_used :: u32
  rate_window_start :: nat

definition rate_new :: "u32 \<Rightarrow> nat \<Rightarrow> RateBucket" where
  "rate_new limit now = \<lparr>rate_limit = limit, rate_used = 0, rate_window_start = now\<rparr>"

definition rate_allow :: "nat \<Rightarrow> RateBucket \<Rightarrow> bool \<times> RateBucket" where
  "rate_allow now b =
     (if rate_limit b = 0 then (True, b)
      else (let b1 = (if 1000000000 \<le> now - rate_window_start b
              then b\<lparr>rate_window_start := now, rate_used := 0\<rparr> else b) in
        if rate_limit b1 \<le> rate_used b1 then (False, b1)
        else (True, b1\<lparr>rate_used := rate_used b1 + 1\<rparr>)))"

section \<open>The subprotocol check\<close>

text \<open>\<open>str::trim\<close>, on the ASCII white space a header value can hold.\<close>

definition is_space :: "char \<Rightarrow> bool" where
  "is_space c \<longleftrightarrow> (let n = (of_char c :: nat) in n = 32 \<or> (9 \<le> n \<and> n \<le> 13))"

definition trim :: "string \<Rightarrow> string" where
  "trim s = rev (dropWhile is_space (rev (dropWhile is_space s)))"

text \<open>The values of the header that are text, in order.\<close>

definition has_lsdp_subprotocol :: "string list \<Rightarrow> bool" where
  "has_lsdp_subprotocol header_values \<longleftrightarrow>
     list_ex (\<lambda>p. trim p = WEBSOCKET_SUBPROTOCOL \<or> trim p = WEBSOCKET_SUBPROTOCOL_V1_1)
       (concat (map (split_on CHR '','') header_values))"

text \<open>
  \<open>ws_route\<close>: the answer to a request without the subprotocol, or the upgrade with the protocols the
  server offers, in order of preference, and its limit on messages and frames.
\<close>

datatype UpgradeResponse = UpgradeRefused nat string | UpgradeOffered "string list" nat

definition ws_route :: "Server \<Rightarrow> string list \<Rightarrow> UpgradeResponse" where
  "ws_route srv header_values =
     (if \<not> has_lsdp_subprotocol header_values
      then UpgradeRefused 426 ''expected Sec-WebSocket-Protocol: lsdp.v1 or lsdp.v1.1''
      else UpgradeOffered WEBSOCKET_SUBPROTOCOLS (max_frame_bytes (srv_config srv)))"

text \<open>The handshake headers of both clients of the repository pass the check.\<close>

lemma ws_route_accepts: "ws_route srv [WEBSOCKET_SUBPROTOCOL] = UpgradeOffered WEBSOCKET_SUBPROTOCOLS (max_frame_bytes (srv_config srv))"
proof -
  have "has_lsdp_subprotocol [WEBSOCKET_SUBPROTOCOL]" by code_simp
  then show ?thesis by (simp add: ws_route_def)
qed

section \<open>Connections\<close>

datatype WsMessage =
    MText string
  | MBinary string
  | MPing string
  | MPong string
  | MClose "(nat \<times> string) option"

datatype HandlerError =
    HWs string
  | HProtocol LumencastError
  | HSubscribeTimeout
  | HClosed
  | HExpectedText
  | HNotSubscribe

datatype Action = Continue | Stop

record Connection =
  cn_out :: "WsMessage list"
  cn_budget :: "nat option"
  cn_send_error :: string
  cn_scene :: "scene_ref option"
  cn_rate :: RateBucket

type_synonym world = "Server \<times> Connection"

definition connection_new :: "Server \<Rightarrow> Env \<Rightarrow> nat option \<Rightarrow> string \<Rightarrow> Connection" where
  "connection_new srv env budget err = \<lparr>cn_out = [], cn_budget = budget, cn_send_error = err,
     cn_scene = None, cn_rate = rate_new (input_rate_per_sec (srv_config srv)) (env_instant env)\<rparr>"

definition socket_send :: "WsMessage \<Rightarrow> Connection \<Rightarrow> (HandlerError + unit) \<times> Connection" where
  "socket_send m c = (case cn_budget c of
      None \<Rightarrow> (Inr (), c\<lparr>cn_out := cn_out c @ [m]\<rparr>)
    | Some 0 \<Rightarrow> (Inl (HWs (cn_send_error c)), c)
    | Some (Suc k) \<Rightarrow> (Inr (), c\<lparr>cn_out := cn_out c @ [m], cn_budget := Some k\<rparr>))"

definition ws_send :: "platform \<Rightarrow> ServerFrame \<Rightarrow> world \<Rightarrow> (HandlerError + unit) \<times> world" where
  "ws_send P frame w = (case encode_server_str P frame of
      Inl e \<Rightarrow> (Inl (HProtocol e), w)
    | Inr s \<Rightarrow> (let (r, c) = socket_send (MText s) (snd w) in (r, (fst w, c))))"

definition send_error_with_path ::
    "platform \<Rightarrow> Env \<Rightarrow> ErrorCode \<Rightarrow> string \<Rightarrow> bool \<Rightarrow> string option \<Rightarrow> world \<Rightarrow> (HandlerError + unit) \<times> world" where
  "send_error_with_path P env code message recoverable path w =
     (let seq = (case cn_scene (snd w) of None \<Rightarrow> 0 | Some r \<Rightarrow> current_seq (scene_at (fst w) r)) in
      ws_send P (FError \<lparr>error_seq = seq, error_code = code, error_message = message,
        error_recoverable = recoverable, error_retry_after_ms = None, error_path = path,
        error_ts = Some (now_iso env)\<rparr>) w)"

definition send_error ::
    "platform \<Rightarrow> Env \<Rightarrow> ErrorCode \<Rightarrow> string \<Rightarrow> bool \<Rightarrow> world \<Rightarrow> (HandlerError + unit) \<times> world" where
  "send_error P env code message recoverable w = send_error_with_path P env code message recoverable None w"

definition snapshot_frame :: "Env \<Rightarrow> Scene \<Rightarrow> ServerFrame" where
  "snapshot_frame env scene = FSnapshot \<lparr>snapshot_seq = current_seq scene,
     snapshot_scene_id = sc_id scene, snapshot_scene_version = sc_version scene,
     snapshot_state = scene_state scene, snapshot_ts = Some (now_iso env)\<rparr>"

definition send_snapshot :: "platform \<Rightarrow> Env \<Rightarrow> scene_ref \<Rightarrow> world \<Rightarrow> (HandlerError + unit) \<times> world" where
  "send_snapshot P env r w = ws_send P (snapshot_frame env (scene_at (fst w) r)) w"

definition send_scene_changed ::
    "platform \<Rightarrow> Env \<Rightarrow> scene_ref \<Rightarrow> u64 \<Rightarrow> world \<Rightarrow> (HandlerError + unit) \<times> world" where
  "send_scene_changed P env r seq w = ws_send P (FSceneChanged \<lparr>changed_seq = seq,
     changed_scene_id = sc_id (scene_at (fst w) r), changed_scene_version = sc_version (scene_at (fst w) r),
     changed_ts = Some (now_iso env), changed_from_scene_id = None, changed_transition = None\<rparr>) w"

definition delta_frame :: "u64 \<Rightarrow> Patch list \<Rightarrow> Cause option \<Rightarrow> ServerFrame" where
  "delta_frame seq patches cause =
     FDelta \<lparr>delta_seq = seq, delta_patches = patches, delta_ts = None, delta_cause = cause\<rparr>"

definition send_delta ::
    "platform \<Rightarrow> u64 \<Rightarrow> Patch list \<Rightarrow> Cause option \<Rightarrow> world \<Rightarrow> (HandlerError + unit) \<times> world" where
  "send_delta P seq patches cause w = ws_send P (delta_frame seq patches cause) w"

definition close_normal :: "world \<Rightarrow> world" where
  "close_normal w = (fst w, snd (socket_send (MClose (Some (1000, ''''))) (snd w)))"

section \<open>Input frames\<close>

text \<open>The validation loop of \<open>handle_input\<close>: the error of the first patch that fails, if any.\<close>

fun check_input_patches :: "platform \<Rightarrow> Scene \<Rightarrow> Identity \<Rightarrow> Patch list \<Rightarrow> (ErrorCode \<times> string \<times> string) option" where
  "check_input_patches P scene identity [] = None"
| "check_input_patches P scene identity (p # ps) =
     (if \<not> can_write (id_role identity) (patch_path p) (id_paths identity)
      then Some (WriteForbidden,
        ''path '' @ patch_path p @ '' not writable by role '' @ show_role (id_role identity), patch_path p)
      else (case check_input_patch P scene p of
          Inl rejection \<Rightarrow> Some (ir_code rejection, ir_message rejection, ir_path rejection)
        | Inr _ \<Rightarrow>
            (if \<not> is_value_legal p
             then Some (InvalidValue, ''path '' @ patch_path p @ '' value MUST NOT be a JSON object'', patch_path p)
             else check_input_patches P scene identity ps)))"

definition input_cause :: "Identity \<Rightarrow> Input \<Rightarrow> Cause option" where
  "input_cause identity input = map_option (\<lambda>msg_id.
     (let subject = (if id_subject identity = [] then show_role (id_role identity) else id_subject identity) in
      \<lparr>cause_source = show_role (id_role identity) @ '':'' @ subject, cause_input_id = Some msg_id\<rparr>))
     (input_client_msg_id input)"

definition handle_input ::
    "platform \<Rightarrow> Env \<Rightarrow> Input \<Rightarrow> scene_ref \<Rightarrow> Identity \<Rightarrow> world \<Rightarrow> (HandlerError + unit) \<times> world" where
  "handle_input P env input r identity w =
     (if \<not> can_input (id_role identity)
      then send_error_with_path P env WriteForbidden ''role cannot send input'' True
        (case input_patches input of [] \<Rightarrow> None | p # _ \<Rightarrow> Some (patch_path p)) w
      else if input_patches input = []
      then send_error P env InvalidValue ''input patches MUST NOT be empty'' True w
      else
       (let (allowed, bucket) = rate_allow (env_instant env) (cn_rate (snd w));
            w1 = (fst w, (snd w)\<lparr>cn_rate := bucket\<rparr>) in
        if \<not> allowed
        then send_error P env RateLimit ''input rate limit exceeded'' True w1
        else (case check_input_patches P (scene_at (fst w1) r) identity (input_patches input) of
            Some (code, message, path) \<Rightarrow> send_error_with_path P env code message True (Some path) w1
          | None \<Rightarrow>
              (let pairs = map (\<lambda>p. (patch_path p, patch_value p)) (input_patches input);
                   (res, scene') = emit_with_cause pairs (input_cause identity input) (scene_at (fst w1) r);
                   w2 = (update_scene r scene' (fst w1), snd w1) in
               (case res of
                  Inl e \<Rightarrow> send_error P env Internal (show_server_error e) True w2
                | Inr _ \<Rightarrow> (Inr (), w2))))))"

section \<open>Text frames\<close>

text \<open>\<open>self.send(...).await?; return Ok(a)\<close>.\<close>

definition and_then :: "(HandlerError + unit) \<times> world \<Rightarrow> 'a \<Rightarrow> (HandlerError + 'a) \<times> world" where
  "and_then x a = (case x of (Inl e, w) \<Rightarrow> (Inl e, w) | (Inr _, w) \<Rightarrow> (Inr a, w))"

definition handle_text_frame ::
    "platform \<Rightarrow> Env \<Rightarrow> string \<Rightarrow> scene_ref \<Rightarrow> Identity \<Rightarrow> world \<Rightarrow> (HandlerError + Action) \<times> world" where
  "handle_text_frame P env text r identity w = (case decode_client_str P text of
      Inl (LInvalidValue code message path) \<Rightarrow>
        and_then (send_error_with_path P env InvalidValue message True path w) Continue
    | Inl (LJson e) \<Rightarrow>
        and_then (send_error P env InvalidValue (''malformed JSON: '' @ e) False w) Stop
    | Inl other \<Rightarrow>
        and_then (send_error P env Internal (show_lumencast_error other) False w) Stop
    | Inr (CPing ping) \<Rightarrow> and_then (ws_send P (FPong \<lparr>pong_nonce = ping_nonce ping\<rparr>) w) Continue
    | Inr (CSubscribe _) \<Rightarrow> and_then (send_error P env Internal ''duplicate subscribe'' False w) Stop
    | Inr (CInput input) \<Rightarrow> and_then (handle_input P env input r identity w) Continue
    | Inr CUnsubscribe \<Rightarrow> (Inr Stop, w))"

section \<open>The connection\<close>

text \<open>What \<open>socket.recv()\<close> yields: nothing more, an error, or a message.\<close>

type_synonym ws_recv = "(string + WsMessage) option"

text \<open>\<open>None\<close>: the timeout fired first.\<close>

definition recv_subscribe :: "platform \<Rightarrow> ws_recv option \<Rightarrow> HandlerError + Subscribe" where
  "recv_subscribe P res = (case res of
      None \<Rightarrow> Inl HSubscribeTimeout
    | Some None \<Rightarrow> Inl HClosed
    | Some (Some (Inl e)) \<Rightarrow> Inl (HWs e)
    | Some (Some (Inr (MText text))) \<Rightarrow> (case decode_client_str P text of
          Inl e \<Rightarrow> Inl (HProtocol e)
        | Inr (CSubscribe s) \<Rightarrow> Inr s
        | Inr _ \<Rightarrow> Inl HNotSubscribe)
    | Some (Some (Inr (MClose _))) \<Rightarrow> Inl HClosed
    | Some (Some (Inr _)) \<Rightarrow> Inl HExpectedText)"

definition resolve_scene :: "Server \<Rightarrow> Subscribe \<Rightarrow> scene_ref option" where
  "resolve_scene srv sub = (case subscribe_scene sub of
      Some i \<Rightarrow> server_scene i srv
    | None \<Rightarrow> (case srv_active srv of None \<Rightarrow> None | Some i \<Rightarrow> server_scene i srv))"

text \<open>The main loop's variables; \<open>run_rx\<close> is the scene whose broadcast the loop receives.\<close>

record RunState =
  run_current :: scene_ref
  run_identity :: Identity
  run_rx :: scene_ref

datatype RunResult = Ended "HandlerError + unit" | Running RunState

fun send_records :: "platform \<Rightarrow> ReplayRecord list \<Rightarrow> world \<Rightarrow> (HandlerError + unit) \<times> world" where
  "send_records P [] w = (Inr (), w)"
| "send_records P (r # rs) w = (case send_delta P (rec_seq r) (rec_patches r) (rec_cause r) w of
      (Inl e, w') \<Rightarrow> (Inl e, w')
    | (Inr _, w') \<Rightarrow> send_records P rs w')"

definition send_initial ::
    "platform \<Rightarrow> Env \<Rightarrow> Subscribe \<Rightarrow> scene_ref \<Rightarrow> world \<Rightarrow> (HandlerError + unit) \<times> world" where
  "send_initial P env sub r w =
     (let scene = scene_at (fst w) r in
      case subscribe_since_sequence sub of
        Some since \<Rightarrow>
          (if 0 < since \<and> since \<le> current_seq scene \<and> slice_covered (scene_replay_since since scene)
           then send_records P (slice_records (scene_replay_since since scene)) w
           else send_snapshot P env r w)
      | None \<Rightarrow> send_snapshot P env r w)"

definition ended :: "(HandlerError + unit) \<times> world \<Rightarrow> RunResult \<times> world" where
  "ended x = (Ended (fst x), snd x)"

text \<open>\<open>x.await?\<close> inside \<open>run\<close>, going on to or staying in the main loop.\<close>

definition continue_or_end :: "RunState \<Rightarrow> (HandlerError + unit) \<times> world \<Rightarrow> RunResult \<times> world" where
  "continue_or_end rs x = (case x of (Inl e, w) \<Rightarrow> (Ended (Inl e), w) | (Inr _, w) \<Rightarrow> (Running rs, w))"

text \<open>\<open>run\<close> up to the main loop, given the first thing the socket yields.\<close>

definition run_open ::
    "platform \<Rightarrow> (string \<Rightarrow> AuthError + Identity) \<Rightarrow> Env \<Rightarrow> ws_recv option \<Rightarrow> world \<Rightarrow> RunResult \<times> world" where
  "run_open P auth env res w = (case recv_subscribe P res of
      Inl e \<Rightarrow> (Ended (Inl e), w)
    | Inr sub \<Rightarrow> (case auth (subscribe_token sub) of
        Inl _ \<Rightarrow> ended (send_error P env AuthDenied ''invalid token'' False w)
      | Inr identity \<Rightarrow> (case resolve_scene (fst w) sub of
          None \<Rightarrow> ended (send_error P env SceneNotFound ''scene unknown'' False w)
        | Some r \<Rightarrow>
            (let w1 = (fst w, (snd w)\<lparr>cn_scene := Some r\<rparr>) in
             case sc_rejection (scene_at (fst w1) r) of
               Some rejection \<Rightarrow> ended (send_error P env (rejection_code rejection)
                 (rejection_message rejection) False w1)
             | None \<Rightarrow> continue_or_end \<lparr>run_current = r, run_identity = identity, run_rx = r\<rparr>
                 (send_initial P env sub r w1)))))"

text \<open>What a broadcast receiver yields.\<close>

datatype 'a rx_result = RxOk 'a | RxLagged nat | RxClosed

datatype RunInput =
    FromSocket ws_recv
  | FromEvents "ServerEvent rx_result"
  | FromDeltas "DeltaPayload rx_result"

text \<open>One iteration of the main loop. A scene swap reads the clock twice.\<close>

definition on_scene_swap ::
    "platform \<Rightarrow> Env \<Rightarrow> Env \<Rightarrow> SceneId \<Rightarrow> RunState \<Rightarrow> world \<Rightarrow> RunResult \<times> world" where
  "on_scene_swap P env env' i rs w = (case server_scene i (fst w) of
      None \<Rightarrow> (Running rs, w)
    | Some new \<Rightarrow>
        (let (prev_seq, old') = advance_seq_for_change (scene_at (fst w) (run_current rs));
             w1 = (update_scene (run_current rs) old' (fst w), snd w) in
         case send_scene_changed P env new prev_seq w1 of
           (Inl e, w2) \<Rightarrow> (Ended (Inl e), w2)
         | (Inr _, w2) \<Rightarrow> (case send_snapshot P env' new w2 of
             (Inl e, w3) \<Rightarrow> (Ended (Inl e), w3)
           | (Inr _, w3) \<Rightarrow>
               (Running (rs\<lparr>run_current := new, run_rx := new\<rparr>),
                (fst w3, (snd w3)\<lparr>cn_scene := Some new\<rparr>)))))"

definition on_socket :: "platform \<Rightarrow> Env \<Rightarrow> ws_recv \<Rightarrow> RunState \<Rightarrow> world \<Rightarrow> RunResult \<times> world" where
  "on_socket P env msg rs w = (case msg of
      Some (Inr (MText t)) \<Rightarrow> (case handle_text_frame P env t (run_current rs) (run_identity rs) w of
          (Inl e, w') \<Rightarrow> (Ended (Inl e), w')
        | (Inr Continue, w') \<Rightarrow> (Running rs, w')
        | (Inr Stop, w') \<Rightarrow> (Ended (Inr ()), w'))
    | Some (Inr (MBinary _)) \<Rightarrow> ended (send_error P env Internal ''binary frames forbidden'' False w)
    | Some (Inr (MPing p)) \<Rightarrow>
        continue_or_end rs (let (r, c) = socket_send (MPong p) (snd w) in (r, (fst w, c)))
    | Some (Inr (MPong _)) \<Rightarrow> (Running rs, w)
    | Some (Inr (MClose _)) \<Rightarrow> (Ended (Inr ()), w)
    | None \<Rightarrow> (Ended (Inr ()), w)
    | Some (Inl e) \<Rightarrow> (Ended (Inl (HWs e)), w))"

definition run_step :: "platform \<Rightarrow> Env \<Rightarrow> Env \<Rightarrow> RunInput \<Rightarrow> RunState \<Rightarrow> world \<Rightarrow> RunResult \<times> world" where
  "run_step P env env' ev rs w = (case ev of
      FromSocket msg \<Rightarrow> on_socket P env msg rs w
    | FromEvents (RxOk (SceneSwap i)) \<Rightarrow> on_scene_swap P env env' i rs w
    | FromEvents (RxLagged _) \<Rightarrow> ended (send_error P env Internal ''server event stream lagged'' True w)
    | FromEvents RxClosed \<Rightarrow> (Ended (Inr ()), w)
    | FromDeltas (RxOk p) \<Rightarrow> continue_or_end rs (send_delta P (dp_seq p) (dp_patches p) (dp_cause p) w)
    | FromDeltas (RxLagged _) \<Rightarrow> ended (send_error P env Internal ''delta stream lagged'' True w)
    | FromDeltas RxClosed \<Rightarrow> (Ended (Inr ()), w))"

text \<open>
  \<open>handle\<close>: the handshake, then the loop over its inputs, then the closing handshake on every exit.
  The server may change between two inputs (other tasks run): each input comes with the server the
  iteration sees. \<open>None\<close> as a result: the inputs ended and the loop is still waiting.
\<close>

fun run_loop :: "platform \<Rightarrow> (Env \<times> Env \<times> (Server \<Rightarrow> Server) \<times> RunInput) list \<Rightarrow> RunState \<Rightarrow> world
    \<Rightarrow> (HandlerError + unit) option \<times> world" where
  "run_loop P [] rs w = (None, w)"
| "run_loop P ((env, env', others, ev) # evs) rs w =
     (case run_step P env env' ev rs (others (fst w), snd w) of
        (Ended r, w') \<Rightarrow> (Some r, close_normal w')
      | (Running rs', w') \<Rightarrow> run_loop P evs rs' w')"

definition handle_connection ::
    "platform \<Rightarrow> (string \<Rightarrow> AuthError + Identity) \<Rightarrow> Env \<Rightarrow> ws_recv option
     \<Rightarrow> (Env \<times> Env \<times> (Server \<Rightarrow> Server) \<times> RunInput) list \<Rightarrow> world \<Rightarrow> (HandlerError + unit) option \<times> world" where
  "handle_connection P auth env first evs w = (case run_open P auth env first w of
      (Ended r, w') \<Rightarrow> (Some r, close_normal w')
    | (Running rs, w') \<Rightarrow> run_loop P evs rs w')"

section \<open>What is sent\<close>

text \<open>A send either fails and writes nothing, or writes exactly one message.\<close>

definition sent :: "WsMessage \<Rightarrow> (HandlerError + unit) \<times> world \<Rightarrow> world \<Rightarrow> bool" where
  "sent m x w \<longleftrightarrow> fst (snd x) = fst w \<and> cn_scene (snd (snd x)) = cn_scene (snd w)
     \<and> cn_rate (snd (snd x)) = cn_rate (snd w)
     \<and> (case fst x of Inr _ \<Rightarrow> cn_out (snd (snd x)) = cn_out (snd w) @ [m]
        | Inl e \<Rightarrow> e = HWs (cn_send_error (snd w)) \<and> snd (snd x) = snd w \<and> cn_budget (snd w) = Some 0)"

lemma ws_send_sent: "sent (MText (server_text P f)) (ws_send P f w) w"
  by (simp add: sent_def ws_send_def encode_server_text socket_send_def Let_def
      split: option.splits nat.splits)

lemma socket_send_out:
  "socket_send m c = (r, c') \<Longrightarrow> cn_out c' = cn_out c @ (case r of Inr _ \<Rightarrow> [m] | Inl _ \<Rightarrow> [])"
  by (auto simp: socket_send_def split: option.splits nat.splits)

definition error_frame :: "Env \<Rightarrow> ErrorCode \<Rightarrow> string \<Rightarrow> bool \<Rightarrow> string option \<Rightarrow> world \<Rightarrow> ServerFrame" where
  "error_frame env code message recoverable path w =
     FError \<lparr>error_seq = (case cn_scene (snd w) of None \<Rightarrow> 0 | Some r \<Rightarrow> current_seq (scene_at (fst w) r)),
       error_code = code, error_message = message, error_recoverable = recoverable,
       error_retry_after_ms = None, error_path = path, error_ts = Some (now_iso env)\<rparr>"

lemma send_error_with_path_eq:
  "send_error_with_path P env code msg rec path w = ws_send P (error_frame env code msg rec path w) w"
  by (simp add: send_error_with_path_def error_frame_def Let_def)

lemma ws_send_server [simp]: "fst (snd (ws_send P f w)) = fst w"
  using ws_send_sent [of P f w] by (simp add: sent_def)

lemma send_error_server [simp]:
  "fst (snd (send_error_with_path P env code msg rec path w)) = fst w"
  "fst (snd (send_error P env code msg rec w)) = fst w"
  by (simp_all add: send_error_with_path_eq send_error_def)

section \<open>Input frames are all or nothing\<close>

definition patch_allowed :: "platform \<Rightarrow> Scene \<Rightarrow> Identity \<Rightarrow> Patch \<Rightarrow> bool" where
  "patch_allowed P scene identity p \<longleftrightarrow> can_write (id_role identity) (patch_path p) (id_paths identity)
     \<and> is_ok (check_input_patch P scene p) \<and> is_value_legal p"

lemma check_input_patches_None:
  "check_input_patches P scene identity ps = None \<longleftrightarrow> list_all (patch_allowed P scene identity) ps"
  by (induction ps) (auto simp: patch_allowed_def is_ok_iff split: sum.splits)

lemma check_input_patches_Some:
  "check_input_patches P scene identity ps = Some (code, msg, path) \<Longrightarrow>
    \<exists>p \<in> set ps. path = patch_path p \<and> \<not> patch_allowed P scene identity p
      \<and> code \<in> {WriteForbidden, UnknownPath, InvalidValue}"
proof (induction ps)
  case (Cons p ps)
  then show ?case
    by (auto simp: patch_allowed_def check_input_patch_def split: if_splits sum.splits option.splits)
qed simp

definition input_accepted :: "platform \<Rightarrow> Env \<Rightarrow> Input \<Rightarrow> scene_ref \<Rightarrow> Identity \<Rightarrow> world \<Rightarrow> bool" where
  "input_accepted P env input r identity w \<longleftrightarrow> can_input (id_role identity)
     \<and> fst (rate_allow (env_instant env) (cn_rate (snd w)))
     \<and> list_all (patch_allowed P (scene_at (fst w) r) identity) (input_patches input)"

abbreviation input_updates :: "Input \<Rightarrow> (string \<times> json) list" where
  "input_updates input \<equiv> map (\<lambda>p. (patch_path p, patch_value p)) (input_patches input)"

text \<open>Exactly one recoverable error frame, or a socket failure; the server is as before.\<close>

definition refused :: "platform \<Rightarrow> Env \<Rightarrow> (HandlerError + unit) \<times> world \<Rightarrow> world \<Rightarrow> bool" where
  "refused P env x w \<longleftrightarrow> fst (snd x) = fst w \<and>
     (case fst x of
        Inr _ \<Rightarrow> (\<exists>code msg path. cn_out (snd (snd x)) =
          cn_out (snd w) @ [MText (server_text P (error_frame env code msg True path w))])
      | Inl e \<Rightarrow> e = HWs (cn_send_error (snd w)) \<and> cn_out (snd (snd x)) = cn_out (snd w))"

lemma refused_send:
  assumes "fst w1 = fst w" "cn_out (snd w1) = cn_out (snd w)" "cn_scene (snd w1) = cn_scene (snd w)"
    "cn_send_error (snd w1) = cn_send_error (snd w)"
  shows "refused P env (send_error_with_path P env code msg True path w1) w"
proof -
  have "error_frame env code msg True path w1 = error_frame env code msg True path w"
    using assms by (simp add: error_frame_def split: option.splits)
  with ws_send_sent [of P "error_frame env code msg True path w1" w1] assms show ?thesis
    by (auto simp: refused_def sent_def send_error_with_path_eq split: sum.splits)
qed

lemma handle_input_accepts:
  assumes "input_accepted P env input r identity w" "input_patches input \<noteq> []"
    "legal_updates (input_updates input)"
  shows "handle_input P env input r identity w = (Inr (),
    (update_scene r (snd (emit_with_cause (input_updates input) (input_cause identity input)
        (scene_at (fst w) r))) (fst w),
     (snd w)\<lparr>cn_rate := snd (rate_allow (env_instant env) (cn_rate (snd w)))\<rparr>))"
proof -
  obtain b where b: "rate_allow (env_instant env) (cn_rate (snd w)) = (True, b)"
    using assms(1) by (cases "rate_allow (env_instant env) (cn_rate (snd w))") (auto simp: input_accepted_def)
  have "check_input_patches P (scene_at (fst w) r) identity (input_patches input) = None"
    using assms(1) by (simp add: input_accepted_def check_input_patches_None)
  moreover obtain s' where "emit_with_cause (input_updates input) (input_cause identity input)
      (scene_at (fst w) r) = (Inr (), s')"
    using emit_ok [OF assms(3)] by blast
  ultimately show ?thesis
    using assms(1,2) by (simp add: handle_input_def input_accepted_def b)
qed

lemma handle_input_refuses:
  assumes "\<not> input_accepted P env input r identity w" "input_patches input \<noteq> []"
  shows "refused P env (handle_input P env input r identity w) w"
proof (cases "can_input (id_role identity)")
  case True
  obtain a b where ab: "rate_allow (env_instant env) (cn_rate (snd w)) = (a, b)" by fastforce
  show ?thesis
  proof (cases a)
    case True
    then have "\<not> list_all (patch_allowed P (scene_at (fst w) r) identity) (input_patches input)"
      using assms(1) \<open>can_input _\<close> ab by (simp add: input_accepted_def)
    then obtain code msg path where
      "check_input_patches P (scene_at (fst w) r) identity (input_patches input) = Some (code, msg, path)"
      by (metis check_input_patches_None not_None_eq prod_cases3)
    then show ?thesis
      using \<open>can_input _\<close> True assms(2) by (simp add: handle_input_def ab refused_send)
  qed (use \<open>can_input _\<close> assms(2) in \<open>simp add: handle_input_def ab send_error_def refused_send\<close>)
qed (simp add: handle_input_def refused_send)

lemma decoded_input_legal:
  "decode_client P text = Inr (CInput input) \<Longrightarrow> input_patches input \<noteq> [] \<and> legal_updates (input_updates input)"
proof -
  assume "decode_client P text = Inr (CInput input)"
  then have "client_frame_legal (CInput input) \<and> (\<exists>m. from_slice P text = Inr (JObject m)
      \<and> bt_get m ''v'' = Some (JNumber (PosInt 1)) \<and> de_client_frame P (JObject m) = Some (CInput input))"
    unfolding decode_client_def by (rule client_codec.decoded)
  then show ?thesis
    by (auto simp: list_all_iff is_value_legal_def dest: de_client_frame_paths)
qed

lemma text_input_cases:
  assumes "decode_client P text = Inr (CInput input)"
  shows "let x = handle_text_frame P env text r identity w in
    if input_accepted P env input r identity w
    then fst x = Inr Continue \<and> cn_out (snd (snd x)) = cn_out (snd w)
      \<and> fst (snd x) = update_scene r (snd (emit_with_cause (input_updates input)
          (input_cause identity input) (scene_at (fst w) r))) (fst w)
    else refused P env (map_sum id (\<lambda>_. ()) (fst x), snd x) w"
proof -
  have h: "handle_text_frame P env text r identity w = and_then (handle_input P env input r identity w) Continue"
    by (simp add: handle_text_frame_def assms)
  have ok: "input_patches input \<noteq> []" "legal_updates (input_updates input)"
    using decoded_input_legal [OF assms] by simp_all
  show ?thesis
  proof (cases "input_accepted P env input r identity w")
    case True
    then show ?thesis
      using handle_input_accepts [OF True ok] by (simp add: h and_then_def)
  next
    case False
    have "(map_sum id (\<lambda>_. ()) (fst (and_then x Continue)), snd (and_then x Continue)) = x" for x
      by (auto simp: and_then_def split: prod.splits sum.splits)
    with False show ?thesis
      using handle_input_refuses [OF False ok(1)] by (simp add: h)
  qed
qed

lemma text_other_server:
  assumes "\<forall>input. decode_client P text \<noteq> Inr (CInput input)"
  shows "fst (snd (handle_text_frame P env text r identity w)) = fst w"
proof -
  have "fst (snd (and_then x a)) = fst (snd x)" for x :: "(HandlerError + unit) \<times> world" and a :: Action
    by (auto simp: and_then_def split: prod.splits sum.splits)
  then show ?thesis
    using assms
    by (auto simp: handle_text_frame_def split: sum.splits LumencastError.splits ClientFrame.splits)
qed

lemma text_unaccepted_server:
  assumes "\<not> (\<exists>input. decode_client P text = Inr (CInput input) \<and> input_accepted P env input r identity w)"
  shows "fst (snd (handle_text_frame P env text r identity w)) = fst w"
  using assms text_other_server [of P "text" env r identity w] text_input_cases [of P "text" _ env r identity w]
  by (cases "\<exists>input. decode_client P text = Inr (CInput input)") (auto simp: Let_def refused_def)

section \<open>Properties\<close>

text \<open>
  C7. An \<open>input\<close> frame is applied exactly when the role may send input, the rate limit allows it
  and every patch is writable by the role, declared and legal. Then the scene gets all its patches
  as one delta whose cause echoes \<open>client_msg_id\<close>, and no error is sent. Otherwise no scene changes
  and one recoverable error frame is sent. In particular the emission never fails.
\<close>
theorem input_frame_all_or_nothing:
  assumes "decode_client P text = Inr (CInput input)"
  shows "let x = handle_text_frame P env text r identity w in
    if input_accepted P env input r identity w
    then fst x = Inr Continue \<and> cn_out (snd (snd x)) = cn_out (snd w)
      \<and> fst (snd x) = update_scene r (snd (emit_with_cause (input_updates input)
          (input_cause identity input) (scene_at (fst w) r))) (fst w)
    else refused P env (map_sum id (\<lambda>_. ()) (fst x), snd x) w"
  using assms by (rule text_input_cases)

definition sample_input :: Input where
  "sample_input = \<lparr>input_patches = [patch_new ''__inputs.title'' (JString ''hi'')],
     input_client_msg_id = Some ''m1''\<rparr>"

definition sample_operator :: Identity where
  "sample_operator = \<lparr>id_subject = ''ann'', id_role = Operator, id_paths = None\<rparr>"

definition sample_env :: Env where
  "sample_env = \<lparr>env_secs = 0, env_millis = 0, env_instant = 0\<rparr>"

definition sample_world :: world where
  "sample_world = (sample_server, (connection_new sample_server sample_env None [])\<lparr>cn_scene := Some 0\<rparr>)"

lemma sample_input_path: "valid_path ''__inputs.title''"
proof -
  have "is_ok (validate_path ''__inputs.title'')" by code_simp
  then show ?thesis by (simp only: validate_path_ok)
qed

lemma sample_input_decodes:
  "decode_client sample_platform (client_text sample_platform (CInput sample_input)) = Inr (CInput sample_input)"
  using sample_input_path
  by (intro decode_client_text [OF sample_json_text_ok])
    (simp_all add: sample_input_def patch_new_def patch_wf_def patch_safe_def payload_safe_def
      is_value_legal_def)

lemma sample_declared: "sc_declared_inputs (scene_at sample_server 0) = None"
  by code_simp

lemma sample_rate: "input_rate_per_sec (srv_config sample_server) = 60"
  by code_simp

lemma sample_input_accepted:
  "input_accepted sample_platform sample_env sample_input 0 sample_operator sample_world"
proof -
  have "can_write Operator ''__inputs.title'' None"
    by (simp add: starts_with_prefix_def strip_prefix_def starts_with_def)
  then show ?thesis
    by (simp add: input_accepted_def sample_operator_def can_input_def sample_world_def sample_rate
        connection_new_def rate_new_def rate_allow_def sample_env_def sample_input_def patch_new_def
        patch_allowed_def check_input_patch_def sample_declared is_value_legal_def)
qed

theorem input_frame_all_or_nothing_witness:
  "fst (handle_text_frame sample_platform sample_env (client_text sample_platform (CInput sample_input))
    0 sample_operator sample_world) = Inr Continue"
  using input_frame_all_or_nothing [OF sample_input_decodes, of sample_env 0 sample_operator sample_world]
    sample_input_accepted by (simp add: Let_def)

text \<open>
  C9. Whatever text arrives, it reaches no further than the connection's role allows: no scene but
  the connection's own changes, and a leaf of that scene outside the namespace of the role keeps its
  value.
\<close>
theorem text_frame_confined:
  assumes "server_wf P (fst w)" "r < length (srv_heap (fst w))"
    "namespace_of k \<noteq> (if id_role identity = TestRole then Test else Inputs) \<or> id_role identity = Viewer"
  shows "let srv' = fst (snd (handle_text_frame P env text r identity w)) in
    bt_get (scene_state (scene_at srv' r)) k = bt_get (scene_state (scene_at (fst w) r)) k
    \<and> (r' = r \<or> scene_at srv' r' = scene_at (fst w) r')"
proof -
  let ?w' = "snd (handle_text_frame P env text r identity w)"
  show ?thesis
  proof (cases "\<exists>input. decode_client P text = Inr (CInput input) \<and> input_accepted P env input r identity w")
    case False
    then show ?thesis by (simp add: text_unaccepted_server)
  next
    case True
    then obtain input where d: "decode_client P text = Inr (CInput input)"
      and acc: "input_accepted P env input r identity w" by blast
    have legal: "legal_updates (input_updates input)" using decoded_input_legal [OF d] by simp
    have "k \<notin> fst ` set (input_updates input)"
    proof
      assume "k \<in> fst ` set (input_updates input)"
      then obtain p where "p \<in> set (input_patches input)" "patch_path p = k" by auto
      then have "can_write (id_role identity) k (id_paths identity)"
        using acc by (auto simp: input_accepted_def list_all_iff patch_allowed_def)
      then show False using assms(3) can_write_ns [of "id_role identity" k "id_paths identity"] by auto
    qed
    moreover have "scene_wf (scene_at (fst w) r)" using server_wf_scene [OF assms(1,2)] .
    ultimately show ?thesis
      using text_input_cases [OF d, of env r identity w] acc assms(2)
        emit_state [OF _ legal, of "scene_at (fst w) r" "input_cause identity input"]
      by (cases "r' = r") (simp_all add: Let_def update_scene_def bt_get_untouched)
  qed
qed

lemma sample_server_wf: "server_wf sample_platform sample_server"
  unfolding sample_server_def by (intro server_wf_register server_wf_init)

theorem text_frame_confined_witness:
  "bt_get (scene_state (scene_at (fst (snd (handle_text_frame sample_platform sample_env
      (client_text sample_platform (CInput sample_input)) 0 sample_operator sample_world))) 0)) ''score'' =
   bt_get (scene_state (scene_at sample_server 0)) ''score''"
proof -
  have "0 < length (srv_heap sample_server)" by code_simp
  moreover have "namespace_of ''score'' = User" by code_simp
  ultimately show ?thesis
    using text_frame_confined [of sample_platform sample_world 0 "''score''" sample_operator sample_env
      "client_text sample_platform (CInput sample_input)" 0] sample_server_wf
    by (simp add: Let_def sample_world_def sample_operator_def)
qed

section \<open>What a connection keeps\<close>

lemma and_then_world [simp]: "snd (and_then x a) = snd x"
  by (auto simp: and_then_def split: prod.splits sum.splits)

lemma continue_or_end_world [simp]: "snd (continue_or_end rs x) = snd x"
  by (auto simp: continue_or_end_def split: prod.splits sum.splits)

lemma ended_world [simp]: "snd (ended x) = snd x"
  by (simp add: ended_def)

lemma text_outcome_world [simp]:
  "snd (case x of (Inl e, w') \<Rightarrow> (Ended (Inl e), w') | (Inr Continue, w') \<Rightarrow> (Running rs, w')
    | (Inr Stop, w') \<Rightarrow> (Ended (Inr ()), w')) = snd x"
  by (auto split: prod.splits sum.splits Action.splits)

lemma socket_world [simp]: "snd (case x of (r, c) \<Rightarrow> (r, a, c)) = (a, snd x)"
  by (simp add: case_prod_unfold)

text \<open>
  The contract of the socket: a property of a connection that every write of a frame, a pong and the
  closing message keep, and that the scene and the rate bucket have no part in, holds throughout.
\<close>

locale connection_invariant =
  fixes P :: platform
    and I :: "Connection \<Rightarrow> bool"
  assumes text_keeps: "I c \<Longrightarrow> I (snd (socket_send (MText (server_text P f)) c))"
    and pong_keeps: "I c \<Longrightarrow> I (snd (socket_send (MPong p) c))"
    and close_keeps: "I c \<Longrightarrow> I (snd (socket_send (MClose (Some (1000, []))) c))"
    and fields: "I (c\<lparr>cn_scene := s\<rparr>) \<longleftrightarrow> I c" "I (c\<lparr>cn_rate := b\<rparr>) \<longleftrightarrow> I c"
begin

lemma ws_send_keeps: "I (snd w) \<Longrightarrow> I (snd (snd (ws_send P f w)))"
  using text_keeps by (simp add: ws_send_def encode_server_text)

lemma error_keeps:
  "I (snd w) \<Longrightarrow> I (snd (snd (send_error_with_path P env code msg rec path w)))"
  "I (snd w) \<Longrightarrow> I (snd (snd (send_error P env code msg rec w)))"
  by (simp_all add: send_error_with_path_eq send_error_def ws_send_keeps)

lemma input_keeps: "I (snd w) \<Longrightarrow> I (snd (snd (handle_input P env input r identity w)))"
  by (auto simp: handle_input_def error_keeps fields Let_def split: prod.splits option.splits sum.splits)

lemma text_frame_keeps: "I (snd w) \<Longrightarrow> I (snd (snd (handle_text_frame P env t r identity w)))"
  by (simp add: handle_text_frame_def error_keeps input_keeps ws_send_keeps
      split: sum.splits LumencastError.splits ClientFrame.splits)

lemma records_keep: "I (snd w) \<Longrightarrow> I (snd (snd (send_records P rs w)))"
proof (induction rs arbitrary: w)
  case (Cons r rs)
  have "I (snd (snd (send_delta P (rec_seq r) (rec_patches r) (rec_cause r) w)))"
    using Cons.prems by (simp add: send_delta_def ws_send_keeps)
  then show ?case
    using Cons.IH by (cases "send_delta P (rec_seq r) (rec_patches r) (rec_cause r) w") (auto split: sum.splits)
qed simp

lemma initial_keeps: "I (snd w) \<Longrightarrow> I (snd (snd (send_initial P env sub r w)))"
  by (simp add: send_initial_def Let_def records_keep send_snapshot_def ws_send_keeps split: option.splits)

lemma open_keeps: "I (snd w) \<Longrightarrow> I (snd (snd (run_open P auth env res w)))"
  by (simp add: run_open_def error_keeps initial_keeps fields Let_def split: sum.splits option.splits)

lemma swap_keeps:
  assumes "I (snd w)"
  shows "I (snd (snd (on_scene_swap P env env' i rs w)))"
proof (cases "server_scene i (fst w)")
  case (Some new)
  obtain n old' where a: "advance_seq_for_change (scene_at (fst w) (run_current rs)) = (n, old')" by (meson surj_pair)
  let ?w1 = "(update_scene (run_current rs) old' (fst w), snd w)"
  obtain res w2 where w2: "send_scene_changed P env new n ?w1 = (res, w2)" by (meson surj_pair)
  obtain res' w3 where w3: "send_snapshot P env' new w2 = (res', w3)" by (meson surj_pair)
  have "I (snd w2)"
    using ws_send_keeps [of ?w1] assms w2 by (metis send_scene_changed_def snd_conv)
  moreover from this have "I (snd w3)"
    using ws_send_keeps [of w2] w3 by (metis send_snapshot_def snd_conv)
  ultimately show ?thesis
    by (simp add: on_scene_swap_def Some a w2 w3 fields split: sum.splits)
qed (simp add: on_scene_swap_def assms)

lemma socket_keeps: "I (snd w) \<Longrightarrow> I (snd (snd (on_socket P env msg rs w)))"
  using pong_keeps
  by (simp add: on_socket_def text_frame_keeps error_keeps split: option.splits sum.splits WsMessage.splits)

lemma step_keeps: "I (snd w) \<Longrightarrow> I (snd (snd (run_step P env env' ev rs w)))"
  by (simp add: run_step_def socket_keeps swap_keeps error_keeps send_delta_def ws_send_keeps
      split: RunInput.splits rx_result.splits ServerEvent.splits)

lemma close_normal_keeps: "I (snd w) \<Longrightarrow> I (snd (close_normal w))"
  using close_keeps by (simp add: close_normal_def)

lemma loop_keeps: "I (snd w) \<Longrightarrow> I (snd (snd (run_loop P evs rs w)))"
proof (induction evs arbitrary: rs w)
  case (Cons e evs)
  obtain env env' others ev where e: "e = (env, env', others, ev)" using prod_cases4 by blast
  have "I (snd (snd (run_step P env env' ev rs (others (fst w), snd w))))"
    using Cons.prems by (intro step_keeps) simp
  then show ?case
    using Cons.IH close_normal_keeps
    by (cases "run_step P env env' ev rs (others (fst w), snd w)") (auto simp: e split: RunResult.splits)
qed simp

lemma connection_keeps: "I (snd w) \<Longrightarrow> I (snd (snd (handle_connection P auth env first evs w)))"
  using open_keeps [of w auth env first] close_normal_keeps loop_keeps
  by (cases "run_open P auth env first w") (auto simp: handle_connection_def split: RunResult.splits)

end

text \<open>A socket that accepts every write goes on accepting them.\<close>

interpretation unbounded: connection_invariant P "\<lambda>c. cn_budget c = None" for P
  by unfold_locales (simp_all add: socket_send_def)

text \<open>
  What the handler may write: the text of a server frame, a pong, or the close message with code
  1000. The text of any frame but a snapshot or a delta decodes back; of those, where paths and
  values can be transported, exactly the ones that decode back have legal leaf values.
\<close>

definition speaks :: "platform \<Rightarrow> WsMessage \<Rightarrow> bool" where
  "speaks P m \<longleftrightarrow> (case m of
      MText t \<Rightarrow> (\<exists>f. t = server_text P f
          \<and> (decode_server P t = Inr f \<or> (\<exists>s. f = FSnapshot s) \<or> (\<exists>d. f = FDelta d)))
        \<and> (\<forall>f. t = server_text P f \<and> server_frame_wf f \<and> server_frame_safe f \<longrightarrow>
            (decode_server P t = Inr f \<longleftrightarrow> server_frame_legal f))
    | MPong _ \<Rightarrow> True
    | MClose c \<Rightarrow> c = Some (1000, [])
    | _ \<Rightarrow> False)"

lemma speaks_frame:
  assumes "json_text_ok P"
  shows "speaks P (MText (server_text P f))"
proof -
  have "decode_server P (server_text P f) = Inr f \<or> (\<exists>s. f = FSnapshot s) \<or> (\<exists>d. f = FDelta d)"
    using assms by (cases f) (auto intro: decode_server_text)
  moreover have "decode_server P (server_text P g) = Inr g \<longleftrightarrow> server_frame_legal g"
    if "server_frame_wf g" "server_frame_safe g" for g
    using decode_server_text [OF assms that] decode_server_illegal [OF assms that] by fastforce
  ultimately show ?thesis unfolding speaks_def by auto
qed

interpretation typed: connection_invariant P "\<lambda>c. json_text_ok P \<longrightarrow> list_all (speaks P) (cn_out c)" for P
  by unfold_locales
    (auto simp: socket_send_def speaks_frame speaks_def [of _ "MPong _"] speaks_def [of _ "MClose _"]
      split: option.splits nat.splits)

section \<open>Closing, gating and rate limiting\<close>

text \<open>A connection whose socket accepts every write.\<close>

abbreviation live :: "world \<Rightarrow> bool" where
  "live w \<equiv> cn_budget (snd w) = None"

lemma close_normal_live:
  "live w \<Longrightarrow> cn_out (snd (close_normal w)) = cn_out (snd w) @ [MClose (Some (1000, []))]"
  by (simp add: close_normal_def socket_send_def)

lemma run_loop_close:
  "live w \<Longrightarrow> run_loop P evs rs w = (Some r, w') \<Longrightarrow> \<exists>out. cn_out (snd w') = out @ [MClose (Some (1000, []))]"
proof (induction P evs rs w rule: run_loop.induct)
  case (2 P env env' others ev evs rs w)
  have "live (snd (run_step P env env' ev rs (others (fst w), snd w)))"
    using 2(2) unbounded.step_keeps [of "(others (fst w), snd w)"] by simp
  then show ?case
    using 2 close_normal_live
    by (cases "run_step P env env' ev rs (others (fst w), snd w)")
      (auto split: RunResult.splits)
qed simp

text \<open>
  C24. Every exit path closes cleanly: whatever a client sends and whatever the server and the
  broadcast channels do, when the handler of a live connection ends, the last message it wrote is a
  close frame with code 1000.
\<close>
theorem connection_closes_cleanly:
  assumes "cn_budget (snd w) = None" "handle_connection P auth env first evs w = (Some r, w')"
  shows "\<exists>out. cn_out (snd w') = out @ [MClose (Some (1000, []))]"
  using assms(2) unbounded.open_keeps [OF assms(1), of P auth env first] close_normal_live
    run_loop_close [of _ P evs _ r w']
  by (cases "run_open P auth env first w") (auto simp: handle_connection_def split: RunResult.splits)

theorem connection_closes_cleanly_witness:
  "\<exists>out. cn_out (snd (snd (handle_connection sample_platform (authenticate []) sample_env (Some None) []
      sample_world))) = out @ [MClose (Some (1000, []))]"
proof -
  have "handle_connection sample_platform (authenticate []) sample_env (Some None) [] sample_world =
      (Some (Inl HClosed), close_normal sample_world)"
    by (simp add: handle_connection_def run_open_def recv_subscribe_def)
  moreover have "cn_budget (snd sample_world) = None"
    by (simp add: sample_world_def connection_new_def)
  ultimately show ?thesis
    using connection_closes_cleanly [of sample_world sample_platform "authenticate []" sample_env "Some None" "[]"
      "Inl HClosed" "close_normal sample_world"] by simp
qed

text \<open>
  C23. Every message a connection writes is well typed. Whatever the client, the server's other tasks
  and the broadcast channels do, and wherever the socket starts refusing writes, the handler writes
  only the texts of server frames, pongs and close messages with code 1000. The text of a frame that
  is no snapshot or delta decodes back to it. The text of a frame with grammatical paths and values
  that can be transported (any frame but a snapshot or delta is one) decodes back to it exactly when
  it is legal, that is when none of its leaf values is an object.
\<close>
theorem connection_output_typed:
  assumes "json_text_ok P" "handle_connection P auth env first evs (srv, connection_new srv env0 budget err) = (res, w')"
  shows "list_all (\<lambda>m. case m of
      MText t \<Rightarrow> (\<exists>f. t = server_text P f
          \<and> (decode_server P t = Inr f \<or> (\<exists>s. f = FSnapshot s) \<or> (\<exists>d. f = FDelta d)))
        \<and> (\<forall>f. t = server_text P f \<and> server_frame_wf f \<and> server_frame_safe f \<longrightarrow>
            (decode_server P t = Inr f \<longleftrightarrow> server_frame_legal f))
    | MPong _ \<Rightarrow> True
    | MClose c \<Rightarrow> c = Some (1000, [])
    | _ \<Rightarrow> False) (cn_out (snd w'))"
proof -
  have "list_all (speaks P) (cn_out (snd w'))"
    using typed.connection_keeps [where w = "(srv, connection_new srv env0 budget err)" and P = P and auth = auth
        and env = env and first = first and evs = evs] assms
    by (simp add: connection_new_def)
  then show ?thesis unfolding speaks_def [abs_def] .
qed

text \<open>
  C10. Nothing but an error leaves before the gate. When the token is refused, the scene is unknown
  or the scene was rejected, the handshake ends the connection, changes nothing on the server and
  writes at most one message, a non-recoverable error frame with the matching code.
\<close>
theorem open_gate:
  assumes "recv_subscribe P res = Inr sub"
    and "(\<exists>e. auth (subscribe_token sub) = Inl e \<and> code = AuthDenied)
      \<or> (\<exists>i. auth (subscribe_token sub) = Inr i) \<and> resolve_scene (fst w) sub = None \<and> code = SceneNotFound
      \<or> (\<exists>i r rj. auth (subscribe_token sub) = Inr i \<and> resolve_scene (fst w) sub = Some r
          \<and> sc_rejection (scene_at (fst w) r) = Some rj \<and> code = rejection_code rj)"
  shows "\<exists>result w' msgs f. run_open P auth env res w = (Ended result, w') \<and> fst w' = fst w
    \<and> cn_out (snd w') = cn_out (snd w) @ msgs \<and> (msgs = [] \<or> msgs = [MText (server_text P (FError f))])
    \<and> error_code f = code \<and> \<not> error_recoverable f"
proof -
  have send: "\<exists>result w' msgs f. ended (send_error P env c m False w1) = (Ended result, w') \<and> fst w' = fst w1
      \<and> cn_out (snd w') = cn_out (snd w1) @ msgs \<and> (msgs = [] \<or> msgs = [MText (server_text P (FError f))])
      \<and> error_code f = c \<and> \<not> error_recoverable f" for c m w1
  proof -
    obtain f where f: "error_frame env c m False None w1 = FError f" "error_code f = c" "\<not> error_recoverable f"
      by (simp add: error_frame_def)
    have "sent (MText (server_text P (FError f))) (send_error P env c m False w1) w1"
      using ws_send_sent [of P "FError f" w1] by (simp add: send_error_def send_error_with_path_eq f(1))
    then have "fst (snd (send_error P env c m False w1)) = fst w1 \<and>
        (cn_out (snd (snd (send_error P env c m False w1))) = cn_out (snd w1) @ [] \<or>
         cn_out (snd (snd (send_error P env c m False w1))) = cn_out (snd w1) @ [MText (server_text P (FError f))])"
      by (auto simp: sent_def split: sum.splits)
    with f show ?thesis unfolding ended_def by blast
  qed
  show ?thesis
    using assms send [of _ _ w] send [of _ _ "(fst w, (snd w)\<lparr>cn_scene := Some r\<rparr>)" for r]
    by (auto simp: run_open_def Let_def)
qed

definition sample_subscribe :: Subscribe where
  "sample_subscribe = \<lparr>subscribe_token = ''tok'', subscribe_scene = None, subscribe_session = None,
     subscribe_since_sequence = None\<rparr>"

lemma sample_subscribe_fields: "subscribe_scene sample_subscribe = None" "subscribe_since_sequence sample_subscribe = None"
  by (simp_all add: sample_subscribe_def)

lemma sample_recv_subscribe:
  "recv_subscribe sample_platform
    (Some (Some (Inr (MText (client_text sample_platform (CSubscribe sample_subscribe)))))) = Inr sample_subscribe"
  by (simp add: recv_subscribe_def decode_client_text [OF sample_json_text_ok])

lemma sample_server_main: "srv_active sample_server = Some ''main''" "server_scene ''main'' sample_server = Some 0"
    "sc_rejection (scene_at sample_server 0) = None"
  by code_simp+

lemma sample_snapshot:
  "\<exists>s. snapshot_frame env (scene_at sample_server 0) = FSnapshot s \<and> snapshot_state s = [(''score'', jnat 0)]"
proof -
  have "scene_state (scene_at sample_server 0) = [(''score'', jnat 0)]" by code_simp
  then show ?thesis by (simp add: snapshot_frame_def scene_state_def)
qed

theorem connection_output_typed_witness:
  "let f = snapshot_frame sample_env (scene_at sample_server 0) in
   cn_out (snd (snd (handle_connection sample_platform (\<lambda>_. Inr sample_operator) sample_env
      (Some (Some (Inr (MText (client_text sample_platform (CSubscribe sample_subscribe)))))) []
      (sample_server, connection_new sample_server sample_env None [])))) = [MText (server_text sample_platform f)]
   \<and> decode_server sample_platform (server_text sample_platform f) = Inr f"
proof -
  let ?f = "snapshot_frame sample_env (scene_at sample_server 0)"
  let ?first = "Some (Some (Inr (MText (client_text sample_platform (CSubscribe sample_subscribe)))))"
  let ?w = "(sample_server, connection_new sample_server sample_env None [])"
  have out: "cn_out (snd (snd (handle_connection sample_platform (\<lambda>_. Inr sample_operator) sample_env ?first [] ?w))) =
      [MText (server_text sample_platform ?f)]"
    using sample_recv_subscribe sample_subscribe_fields
    by (simp add: handle_connection_def run_open_def resolve_scene_def sample_server_main
        send_initial_def send_snapshot_def ws_send_def encode_server_text socket_send_def
        connection_new_def continue_or_end_def Let_def)
  have "server_frame_wf ?f" "server_frame_safe ?f" "server_frame_legal ?f"
    using sample_snapshot [of sample_env] by (auto simp: payload_safe_def safe_at_def jnat_def bt_wf_def)
  with connection_output_typed [OF sample_json_text_ok surjective_pairing, of "\<lambda>_. Inr sample_operator" sample_env
      ?first "[]" sample_server sample_env None "[]", unfolded out]
  show ?thesis unfolding Let_def using out by simp
qed

theorem open_gate_witness:
  "\<exists>result w'. run_open sample_platform (authenticate []) sample_env
     (Some (Some (Inr (MText (client_text sample_platform (CSubscribe sample_subscribe)))))) sample_world =
     (Ended result, w') \<and> fst w' = sample_server"
proof -
  have "authenticate [] (subscribe_token sample_subscribe) = Inl Denied" by (simp add: authenticate_def)
  then show ?thesis
    using open_gate [OF sample_recv_subscribe, of "authenticate []" AuthDenied sample_world sample_env]
    by (auto simp: sample_world_def)
qed

text \<open>A run of calls of \<open>allow\<close> at the given instants.\<close>

fun rate_run :: "nat list \<Rightarrow> RateBucket \<Rightarrow> bool list" where
  "rate_run [] b = []"
| "rate_run (t # ts) b = (let (a, b') = rate_allow t b in a # rate_run ts b')"

lemma rate_run_window:
  "rate_limit b \<noteq> 0 \<Longrightarrow> rate_used b \<le> rate_limit b \<Longrightarrow> \<forall>t \<in> set ts. t < rate_window_start b + 1000000000 \<Longrightarrow>
    rate_run ts b = (let k = min (unat (rate_limit b) - unat (rate_used b)) (length ts) in
      replicate k True @ replicate (length ts - k) False)"
proof (induction ts arbitrary: b)
  case (Cons t ts)
  have t: "\<not> 1000000000 \<le> t - rate_window_start b" using Cons.prems(3) by auto
  show ?case
  proof (cases "rate_limit b \<le> rate_used b")
    case True
    with Cons.prems(2) have eq: "rate_used b = rate_limit b" by simp
    then have "rate_run ts b = replicate (length ts) False"
      using Cons.IH [of b] Cons.prems by (simp add: Let_def)
    with t eq Cons.prems(1) show ?thesis by (simp add: rate_allow_def Let_def)
  next
    case False
    let ?b = "b\<lparr>rate_used := rate_used b + 1\<rparr>"
    have lt: "unat (rate_used b) < unat (rate_limit b)"
      using False by (simp add: word_less_nat_alt not_le)
    have "unat (rate_limit b) < 2 ^ 32" using unat_u32_less .
    then have used: "unat (rate_used b + 1) = Suc (unat (rate_used b))"
      using lt by (simp add: unat_plus_if')
    have "rate_run ts ?b = (let k = min (unat (rate_limit b) - Suc (unat (rate_used b))) (length ts) in
        replicate k True @ replicate (length ts - k) False)"
      using Cons.IH [of ?b] Cons.prems lt used by (simp add: word_le_nat_alt)
    moreover have "unat (rate_limit b) - unat (rate_used b) = Suc (unat (rate_limit b) - Suc (unat (rate_used b)))"
      using lt by simp
    ultimately show ?thesis
      using t False Cons.prems(1) by (simp add: rate_allow_def Let_def)
  qed
qed simp

text \<open>
  The calls in windows: all calls of a window are less than a second after its start, and the first
  call that is not starts the next window.
\<close>

fun rate_windows :: "nat \<Rightarrow> nat list list \<Rightarrow> bool" where
  "rate_windows start [] = True"
| "rate_windows start [w] = (\<forall>t \<in> set w. t < start + 1000000000)"
| "rate_windows start (w # [] # ws) = False"
| "rate_windows start (w # (t # v) # ws) =
     ((\<forall>t \<in> set w. t < start + 1000000000) \<and> start + 1000000000 \<le> t \<and> rate_windows t ((t # v) # ws))"

lemma rate_windows_snoc:
  "rate_windows start (w # ws) \<Longrightarrow>
    \<exists>v ws'. rate_windows start ((w @ v) # ws') \<and> concat ((w @ v) # ws') = concat (w # ws) @ [t]"
proof (induction start "w # ws" arbitrary: w ws rule: rate_windows.induct)
  case (2 start w)
  show ?case
  proof (cases "t < start + 1000000000")
    case True
    with 2 show ?thesis by (intro exI [of _ "[t]"] exI [of _ "[]"]) auto
  next
    case False
    with 2 show ?thesis by (intro exI [of _ "[]"] exI [of _ "[[t]]"]) auto
  qed
next
  case (4 start w u v ws)
  then obtain v' ws' where "rate_windows u ((u # v @ v') # ws')" "v @ v' @ concat ws' = v @ concat ws @ [t]" by auto
  with 4 show ?case by (intro exI [of _ "[]"] exI [of _ "(u # v @ v') # ws'"]) simp
qed auto

lemma rate_windows_exist: "\<exists>w ws. rate_windows start (w # ws) \<and> concat (w # ws) = ts"
proof (induction ts rule: rev_induct)
  case Nil
  show ?case by (rule exI [of _ "[]"], rule exI [of _ "[]"]) simp
next
  case (snoc t ts)
  then show ?case using rate_windows_snoc by metis
qed

lemma rate_run_append:
  "rate_run (ts @ us) b = rate_run ts b @ rate_run us (fold (\<lambda>t b. snd (rate_allow t b)) ts b)"
  by (induction ts arbitrary: b) (simp_all add: case_prod_beta Let_def)

lemma rate_after_window:
  assumes "rate_limit b = limit" "rate_window_start b = start" "\<forall>t \<in> set ts. t < start + 1000000000"
  shows "rate_limit (fold (\<lambda>t b. snd (rate_allow t b)) ts b) = limit
    \<and> rate_window_start (fold (\<lambda>t b. snd (rate_allow t b)) ts b) = start"
  using assms
proof (induction ts arbitrary: b)
  case (Cons t ts)
  then have "\<not> 1000000000 \<le> t - start" by auto
  with Cons show ?case by (simp add: rate_allow_def Let_def)
qed simp

text \<open>A call after the window has ended finds a fresh bucket.\<close>

lemma rate_run_rollover:
  assumes "rate_window_start b + 1000000000 \<le> t" "rate_limit b \<noteq> 0"
  shows "rate_run (t # ts) b = rate_run (t # ts) (rate_new (rate_limit b) t)"
proof -
  have "1000000000 \<le> t - rate_window_start b" using assms(1) by simp
  then show ?thesis using assms(2) by (cases b) (simp add: rate_allow_def rate_new_def Let_def)
qed

definition admitted :: "u32 \<Rightarrow> nat list \<Rightarrow> bool list" where
  "admitted limit w = replicate (min (unat limit) (length w)) True @ replicate (length w - unat limit) False"

lemma rate_run_first_window:
  assumes "limit \<noteq> 0" "\<forall>t \<in> set w. t < start + 1000000000"
  shows "rate_run w (rate_new limit start) = admitted limit w"
  using rate_run_window [of "rate_new limit start" w] assms
  by (auto simp: rate_new_def admitted_def Let_def min_def)

lemma rate_run_windows:
  assumes "limit \<noteq> 0" "rate_windows start ws"
  shows "rate_run (concat ws) (rate_new limit start) = concat (map (admitted limit) ws)"
  using assms(2)
proof (induction start ws rule: rate_windows.induct)
  case (4 start w t v ws)
  let ?b = "fold (\<lambda>t b. snd (rate_allow t b)) w (rate_new limit start)"
  have b: "rate_limit ?b = limit" "rate_window_start ?b = start"
    using rate_after_window [of "rate_new limit start" limit start w] 4 by (simp_all add: rate_new_def)
  have "rate_run (concat ((t # v) # ws)) ?b = rate_run (concat ((t # v) # ws)) (rate_new limit t)"
    using rate_run_rollover [of ?b t "v @ concat ws"] b 4 assms(1) by simp
  then show ?case
    using 4 rate_run_first_window [OF assms(1), of w start] rate_run_append [of w "concat ((t # v) # ws)"]
    by (simp del: rate_run.simps)
qed (simp_all add: rate_run_first_window [OF assms(1)])

text \<open>
  C27. The rate limiter is exact in every window. Any run of calls falls into windows, each opened by
  the first call a second or more after the start of the one before; in each of them exactly the
  first \<open>input_rate_per_sec\<close> calls are admitted and every later one is refused. A limit of 0 admits
  every call.
\<close>
theorem rate_limit_exact:
  "(limit = 0 \<longrightarrow> rate_run ts (rate_new limit t0) = replicate (length ts) True)
   \<and> (\<exists>ws. rate_windows t0 ws \<and> concat ws = ts)
   \<and> (\<forall>ws. limit \<noteq> 0 \<and> rate_windows t0 ws \<and> concat ws = ts \<longrightarrow>
        rate_run ts (rate_new limit t0) = concat (map (\<lambda>w. replicate (min (unat limit) (length w)) True
          @ replicate (length w - unat limit) False) ws))"
proof (intro conjI impI allI)
  have "rate_limit b = 0 \<Longrightarrow> rate_run ts b = replicate (length ts) True" for b
    by (induction ts arbitrary: b) (simp_all add: rate_allow_def)
  then show "limit = 0 \<Longrightarrow> rate_run ts (rate_new limit t0) = replicate (length ts) True"
    by (simp add: rate_new_def)
  show "\<exists>ws. rate_windows t0 ws \<and> concat ws = ts" using rate_windows_exist by blast
qed (use rate_run_windows [unfolded admitted_def [abs_def]] in blast)

theorem rate_limit_exact_witness:
  "rate_run [5, 6, 7, 1000000003, 1000000004] (rate_new 2 0) = [True, True, False, True, True]"
proof -
  have two: "replicate 2 True = [True, True]" by (simp add: numeral_2_eq_2)
  have "rate_windows 0 [[5, 6, 7], [1000000003, 1000000004]]" by simp
  then show ?thesis
    using rate_limit_exact [of 2 "[5, 6, 7, 1000000003, 1000000004]" 0, THEN conjunct2, THEN conjunct2, THEN spec,
        of "[[5, 6, 7], [1000000003, 1000000004]]"] two by (simp del: rate_run.simps)
qed

end
