(* ===== verification/Client.thy ===== *)
theory Client
  imports Codec Sequence
begin

text \<open>
  The client crate: \<open>backoff.rs\<close>, \<open>events.rs\<close>, \<open>connection.rs\<close>, \<open>manager.rs\<close> and \<open>client.rs\<close>. The
  manager task is a state machine over what its awaits yield: the outcome of opening a connection,
  the end of a delay, a command, a message of the socket. What it sends to the event channel is a
  list, oldest first. URL parsing, the TLS/TCP connect and the WebSocket key are parameters.
\<close>

section \<open>Backoff\<close>

definition backoff_base_ms :: "u32 \<Rightarrow> nat" where
  "backoff_base_ms attempt =
     (if attempt = 0 \<or> attempt = 1 then 0
      else if attempt = 2 then 500
      else if attempt = 3 then 1000
      else if attempt = 4 then 2000
      else if attempt = 5 then 4000
      else if attempt = 6 then 8000
      else if attempt = 7 then 15000
      else if attempt = 8 then 30000
      else 60000)"

text \<open>The delay in milliseconds; \<open>scale\<close> multiplies by the jitter factor and rounds.\<close>

definition backoff_for_attempt :: "(nat \<Rightarrow> nat) \<Rightarrow> u32 \<Rightarrow> nat" where
  "backoff_for_attempt scale attempt =
     (if backoff_base_ms attempt = 0 then 0 else scale (backoff_base_ms attempt))"

section \<open>Events\<close>

datatype Status = Disconnected | Connecting | Live

datatype Event =
    EvStatus Status
  | EvSnapshot Snapshot
  | EvDelta Delta
  | EvSceneChanged SceneChanged
  | EvError ErrorFrame

section \<open>Opening a connection\<close>

datatype ConnectError =
    CEUrl string
  | CEHandshake string
  | CEEncode LumencastError
  | CEClosed
  | CEServerError string
  | CEUnexpectedFrame ServerFrame

datatype ClientMsg =
    CmText string
  | CmBinary string
  | CmPing string
  | CmPong string
  | CmClose
  | CmFrame

text \<open>The request: \<open>parse_uri\<close> gives the host and port of a URL, \<open>finish\<close> is \<open>body(())\<close>.\<close>

definition build_request ::
    "(string \<Rightarrow> string + (string option \<times> nat option)) \<Rightarrow> string
     \<Rightarrow> ((string \<times> string) list \<Rightarrow> string + 'r) \<Rightarrow> string \<Rightarrow> ConnectError + 'r" where
  "build_request parse_uri key finish url = (case parse_uri url of
      Inl e \<Rightarrow> Inl (CEUrl e)
    | Inr (None, _) \<Rightarrow> Inl (CEUrl ''missing host'')
    | Inr (Some host, port) \<Rightarrow>
        (let host_header = (case port of Some p \<Rightarrow> host @ '':'' @ show_nat p | None \<Rightarrow> host) in
         case finish [(''Host'', host_header), (''Upgrade'', ''websocket''), (''Connection'', ''Upgrade''),
             (''Sec-WebSocket-Key'', key), (''Sec-WebSocket-Version'', ''13''),
             (''Sec-WebSocket-Protocol'', WEBSOCKET_SUBPROTOCOL)] of
           Inl e \<Rightarrow> Inl (CEUrl e)
         | Inr req \<Rightarrow> Inr req))"

text \<open>The frame that \<open>open\<close> sends first.\<close>

definition subscribe_frame :: "Token \<Rightarrow> SceneId option \<Rightarrow> SessionId option \<Rightarrow> ClientFrame" where
  "subscribe_frame token scene session = CSubscribe \<lparr>subscribe_token = token, subscribe_scene = scene,
     subscribe_session = session, subscribe_since_sequence = None\<rparr>"

text \<open>
  Waiting for the snapshot. A message comes with the outcome of the pong it may have to send;
  \<open>None\<close> at the end of the list is the end of the stream.
\<close>

fun await_snapshot :: "platform \<Rightarrow> ((string + ClientMsg) \<times> (string + unit)) list \<Rightarrow> ConnectError + Snapshot" where
  "await_snapshot P [] = Inl CEClosed"
| "await_snapshot P ((Inl e, _) # ms) = Inl (CEHandshake e)"
| "await_snapshot P ((Inr (CmText t), _) # ms) = (case decode_server_str P t of
      Inl e \<Rightarrow> Inl (CEEncode e)
    | Inr (FSnapshot s) \<Rightarrow> Inr s
    | Inr (FError e) \<Rightarrow> Inl (CEServerError (as_wire_str (error_code e) @ '': '' @ error_message e))
    | Inr other \<Rightarrow> Inl (CEUnexpectedFrame other))"
| "await_snapshot P ((Inr (CmPing p), pong) # ms) = (case pong of
      Inl e \<Rightarrow> Inl (CEHandshake e)
    | Inr _ \<Rightarrow> await_snapshot P ms)"
| "await_snapshot P ((Inr (CmPong p), _) # ms) = await_snapshot P ms"
| "await_snapshot P ((Inr CmClose, _) # ms) = Inl CEClosed"
| "await_snapshot P ((Inr (CmBinary b), _) # ms) = Inl (CEHandshake ''Reset without closing handshake'')"
| "await_snapshot P ((Inr CmFrame, _) # ms) = Inl (CEHandshake ''Reset without closing handshake'')"

text \<open>
  \<open>Connection::open\<close>: \<open>connect\<close> is the result of connecting with the request, \<open>subscribed\<close> that of
  sending the subscribe text, \<open>msgs\<close> what the socket then yields.
\<close>

definition connection_open ::
    "platform \<Rightarrow> ConnectError + 'r \<Rightarrow> ('r \<Rightarrow> string + unit) \<Rightarrow> (string \<Rightarrow> string + unit)
     \<Rightarrow> ((string + ClientMsg) \<times> (string + unit)) list \<Rightarrow> Token \<Rightarrow> SceneId option \<Rightarrow> SessionId option
     \<Rightarrow> ConnectError + Snapshot" where
  "connection_open P request connect subscribed msgs token scene session = (case request of
      Inl e \<Rightarrow> Inl e
    | Inr req \<Rightarrow> (case connect req of
        Inl e \<Rightarrow> Inl (CEHandshake e)
      | Inr _ \<Rightarrow> (case encode_client_str P (subscribe_frame token scene session) of
          Inl e \<Rightarrow> Inl (CEEncode e)
        | Inr s \<Rightarrow> (case subscribed s of
            Inl e \<Rightarrow> Inl (CEHandshake e)
          | Inr _ \<Rightarrow> await_snapshot P msgs))))"

section \<open>The manager\<close>

text \<open>\<open>Disconnect\<close>, or \<open>SetToken\<close> whose answer goes to the caller that waits for it.\<close>

datatype Command = SetToken Token | Disconnect

datatype Reply = Replied "ConnectError + unit" | ReplyDropped

record ManagerState =
  ms_url :: string
  ms_token :: Token
  ms_scene :: "SceneId option"
  ms_session :: "SessionId option"
  ms_max_reconnect_attempts :: "u32 option"

datatype FrameDispatch = Gap

definition handle_frame ::
    "ServerFrame \<Rightarrow> SequenceTracker \<Rightarrow> Event list \<Rightarrow> (FrameDispatch + unit) \<times> SequenceTracker \<times> Event list" where
  "handle_frame frame tracker events =
     (let (obs, tracker1) = (case server_frame_seq frame of
          None \<Rightarrow> (Inr Accepted, tracker)
        | Some seq \<Rightarrow> observe_seq tracker seq) in
      case obs of
        Inl _ \<Rightarrow> (Inl Gap, tracker1, events)
      | Inr Duplicate \<Rightarrow> (Inr (), tracker1, events)
      | Inr _ \<Rightarrow> (case frame of
          FSnapshot s \<Rightarrow> (Inr (), tracker1, events @ [EvSnapshot s])
        | FDelta d \<Rightarrow> (Inr (), tracker1, events @ [EvDelta d])
        | FSceneChanged c \<Rightarrow> (Inr (), tracker_reset tracker1, events @ [EvSceneChanged c])
        | FError e \<Rightarrow> (Inr (), tracker1, events @ [EvError e])
        | FPong _ \<Rightarrow> (Inr (), tracker1, events)))"

text \<open>
  Where the manager waits: for a connection (with the number of the attempt), in the delay before
  the next attempt, in the drive loop (with its tracker), or it has ended.
\<close>

datatype Phase = Opening u32 | Delaying u32 | Driving SequenceTracker | Finished

record Manager =
  mg_state :: ManagerState
  mg_phase :: Phase
  mg_events :: "Event list"
  mg_replies :: "Reply list"

text \<open>What an await yields; a token swap comes with the outcome of its parallel \<open>open\<close>.\<close>

datatype ManagerInput =
    Opened "ConnectError + Snapshot"
  | DelayElapsed
  | CommandReceived "Command option" "ConnectError + Snapshot"
  | SocketYielded "(string + ClientMsg) option"

definition start_tracking :: "Snapshot \<Rightarrow> SequenceTracker" where
  "start_tracking s = snd (observe_seq tracker_new (snapshot_seq s))"

text \<open>Entering an attempt of \<open>connect_with_retry\<close>, and leaving the outer loop.\<close>

definition start_attempt :: "u32 \<Rightarrow> Manager \<Rightarrow> Manager" where
  "start_attempt attempt mg = mg\<lparr>mg_phase := Opening attempt, mg_events := mg_events mg @ [EvStatus Connecting]\<rparr>"

definition finish :: "Manager \<Rightarrow> Manager" where
  "finish mg = mg\<lparr>mg_phase := Finished, mg_events := mg_events mg @ [EvStatus Disconnected]\<rparr>"

definition manager_start :: "ManagerState \<Rightarrow> Manager" where
  "manager_start st = start_attempt 1 \<lparr>mg_state = st, mg_phase = Opening 1, mg_events = [], mg_replies = []\<rparr>"

definition on_opened :: "(nat \<Rightarrow> nat) \<Rightarrow> u32 \<Rightarrow> ConnectError + Snapshot \<Rightarrow> Manager \<Rightarrow> Manager" where
  "on_opened scale attempt res mg = (case res of
      Inr s \<Rightarrow> mg\<lparr>mg_events := mg_events mg @ [EvStatus Live, EvSnapshot s],
        mg_phase := Driving (start_tracking s)\<rparr>
    | Inl _ \<Rightarrow>
        (if (case ms_max_reconnect_attempts (mg_state mg) of Some mx \<Rightarrow> mx \<le> attempt | None \<Rightarrow> False)
         then finish (mg\<lparr>mg_events := mg_events mg @ [EvStatus Disconnected]\<rparr>)
         else if 0 < backoff_for_attempt scale (attempt + 1)
         then mg\<lparr>mg_phase := Delaying (attempt + 1)\<rparr>
         else start_attempt (attempt + 1) mg))"

definition on_delay_command :: "u32 \<Rightarrow> Command option \<Rightarrow> Manager \<Rightarrow> Manager" where
  "on_delay_command attempt cmd mg = (case cmd of
      None \<Rightarrow> finish mg
    | Some Disconnect \<Rightarrow> finish mg
    | Some (SetToken _) \<Rightarrow> start_attempt attempt (mg\<lparr>mg_replies := mg_replies mg @ [ReplyDropped]\<rparr>))"

text \<open>A parallel \<open>open\<close> with the new token; on success its connection replaces the old one.\<close>

definition swap_token :: "Token \<Rightarrow> ConnectError + Snapshot \<Rightarrow> Manager \<Rightarrow> (ConnectError + Snapshot) \<times> Manager" where
  "swap_token new_token opened mg = (case opened of
      Inl e \<Rightarrow> (Inl e, mg)
    | Inr s \<Rightarrow> (Inr s, mg\<lparr>mg_state := (mg_state mg)\<lparr>ms_token := new_token\<rparr>,
        mg_events := mg_events mg @ [EvSnapshot s]\<rparr>))"

definition on_drive_command ::
    "SequenceTracker \<Rightarrow> Command option \<Rightarrow> ConnectError + Snapshot \<Rightarrow> Manager \<Rightarrow> Manager" where
  "on_drive_command tracker cmd swapped mg = (case cmd of
      None \<Rightarrow> finish mg
    | Some Disconnect \<Rightarrow> finish mg
    | Some (SetToken token) \<Rightarrow> (case swap_token token swapped mg of
        (Inl e, mg') \<Rightarrow> mg'\<lparr>mg_replies := mg_replies mg' @ [Replied (Inl e)]\<rparr>
      | (Inr s, mg') \<Rightarrow> mg'\<lparr>mg_phase := Driving (start_tracking s),
          mg_replies := mg_replies mg' @ [Replied (Inr ())]\<rparr>))"

definition on_drive_socket ::
    "platform \<Rightarrow> SequenceTracker \<Rightarrow> (string + ClientMsg) option \<Rightarrow> Manager \<Rightarrow> Manager" where
  "on_drive_socket P tracker msg mg = (case msg of
      Some (Inr (CmText t)) \<Rightarrow> (case decode_server_str P t of
          Inl _ \<Rightarrow> start_attempt 1 mg
        | Inr frame \<Rightarrow> (case handle_frame frame tracker (mg_events mg) of
            (Inl _, tracker', events) \<Rightarrow> start_attempt 1 (mg\<lparr>mg_events := events\<rparr>)
          | (Inr _, tracker', events) \<Rightarrow> mg\<lparr>mg_events := events, mg_phase := Driving tracker'\<rparr>))
    | Some (Inr (CmPing _)) \<Rightarrow> mg
    | Some (Inr (CmPong _)) \<Rightarrow> mg
    | _ \<Rightarrow> start_attempt 1 mg)"

text \<open>One step; an input the phase does not wait for changes nothing.\<close>

definition manager_step :: "platform \<Rightarrow> (nat \<Rightarrow> nat) \<Rightarrow> ManagerInput \<Rightarrow> Manager \<Rightarrow> Manager" where
  "manager_step P scale inp mg = (case (mg_phase mg, inp) of
      (Opening attempt, Opened res) \<Rightarrow> on_opened scale attempt res mg
    | (Delaying attempt, DelayElapsed) \<Rightarrow> start_attempt attempt mg
    | (Delaying attempt, CommandReceived cmd _) \<Rightarrow> on_delay_command attempt cmd mg
    | (Driving tracker, CommandReceived cmd swapped) \<Rightarrow> on_drive_command tracker cmd swapped mg
    | (Driving tracker, SocketYielded msg) \<Rightarrow> on_drive_socket P tracker msg mg
    | _ \<Rightarrow> mg)"

definition manager_run :: "platform \<Rightarrow> (nat \<Rightarrow> nat) \<Rightarrow> ManagerInput list \<Rightarrow> Manager \<Rightarrow> Manager" where
  "manager_run P scale inputs mg = fold (manager_step P scale) inputs mg"

section \<open>The public handle\<close>

datatype ClientError = ClBuilderMissing string | ClManagerGone | ClSetToken string

record ClientBuilder =
  cb_url :: "string option"
  cb_token :: "Token option"
  cb_scene :: "SceneId option"
  cb_session :: "SessionId option"
  cb_max_reconnect_attempts :: "u32 option"

definition client_builder :: ClientBuilder where
  "client_builder = \<lparr>cb_url = None, cb_token = None, cb_scene = None, cb_session = None,
     cb_max_reconnect_attempts = None\<rparr>"

definition builder_url :: "string \<Rightarrow> ClientBuilder \<Rightarrow> ClientBuilder" where
  "builder_url url b = b\<lparr>cb_url := Some url\<rparr>"

definition builder_token :: "Token \<Rightarrow> ClientBuilder \<Rightarrow> ClientBuilder" where
  "builder_token token b = b\<lparr>cb_token := Some token\<rparr>"

definition builder_scene :: "SceneId \<Rightarrow> ClientBuilder \<Rightarrow> ClientBuilder" where
  "builder_scene scene b = b\<lparr>cb_scene := Some scene\<rparr>"

definition builder_session :: "SessionId \<Rightarrow> ClientBuilder \<Rightarrow> ClientBuilder" where
  "builder_session session b = b\<lparr>cb_session := Some session\<rparr>"

definition builder_max_reconnect_attempts :: "u32 option \<Rightarrow> ClientBuilder \<Rightarrow> ClientBuilder" where
  "builder_max_reconnect_attempts mx b = b\<lparr>cb_max_reconnect_attempts := mx\<rparr>"

definition client_build :: "ClientBuilder \<Rightarrow> ClientError + Manager" where
  "client_build b = (case cb_url b of
      None \<Rightarrow> Inl (ClBuilderMissing ''url'')
    | Some url \<Rightarrow> (case cb_token b of
        None \<Rightarrow> Inl (ClBuilderMissing ''token'')
      | Some token \<Rightarrow> Inr (manager_start \<lparr>ms_url = url, ms_token = token, ms_scene = cb_scene b,
          ms_session = cb_session b, ms_max_reconnect_attempts = cb_max_reconnect_attempts b\<rparr>)))"

text \<open>
  \<open>set_token\<close> once the command was queued: the answer to the caller. \<open>show_connect_error\<close> prints
  the error.
\<close>

definition set_token_result :: "(ConnectError \<Rightarrow> string) \<Rightarrow> Reply \<Rightarrow> ClientError + unit" where
  "set_token_result show_connect_error reply = (case reply of
      Replied (Inr _) \<Rightarrow> Inr ()
    | Replied (Inl e) \<Rightarrow> Inl (ClSetToken (show_connect_error e))
    | ReplyDropped \<Rightarrow> Inl ClManagerGone)"

section \<open>Delivery\<close>

text \<open>A stream of frames through \<open>handle_frame\<close>, stopping at the first gap.\<close>

fun handle_frames :: "ServerFrame list \<Rightarrow> SequenceTracker \<Rightarrow> Event list
    \<Rightarrow> (FrameDispatch + unit) \<times> SequenceTracker \<times> Event list" where
  "handle_frames [] tracker events = (Inr (), tracker, events)"
| "handle_frames (f # fs) tracker events = (case handle_frame f tracker events of
      (Inl g, tracker', events') \<Rightarrow> (Inl g, tracker', events')
    | (Inr _, tracker', events') \<Rightarrow> handle_frames fs tracker' events')"

fun event_seq :: "Event \<Rightarrow> u64 option" where
  "event_seq (EvSnapshot s) = Some (snapshot_seq s)"
| "event_seq (EvDelta d) = Some (delta_seq d)"
| "event_seq (EvSceneChanged c) = Some (changed_seq c)"
| "event_seq (EvError e) = Some (error_seq e)"
| "event_seq (EvStatus _) = None"

fun is_scene_changed :: "ServerFrame \<Rightarrow> bool" where
  "is_scene_changed (FSceneChanged _) = True"
| "is_scene_changed _ = False"

text \<open>What a frame does when the tracker holds a baseline and the frame is not a scene change.\<close>

lemma handle_frame_cases:
  assumes "tracker_last t \<noteq> 0" "\<not> is_scene_changed f" "handle_frame f t evs = (Inr u, t', evs')"
  shows "t' = t \<and> evs' = evs \<or>
    (\<exists>e s. evs' = evs @ [e] \<and> event_seq e = Some s \<and> unat s = Suc (unat (tracker_last t)) \<and> t' = \<lparr>tracker_last = s\<rparr>)"
  using assms
  by (cases f) (auto simp: handle_frame_def observe_seq_cases Let_def split: if_splits)

lemma handle_frames_contiguous:
  "handle_frames fs t evs = (Inr u, t', evs') \<Longrightarrow> tracker_last t \<noteq> 0 \<Longrightarrow> list_all (\<lambda>f. \<not> is_scene_changed f) fs
    \<Longrightarrow> tracker_last t' \<noteq> 0 \<and> unat (tracker_last t) \<le> unat (tracker_last t') \<and>
      (\<exists>new. evs' = evs @ new \<and> map (map_option unat \<circ> event_seq) new =
        map Some [Suc (unat (tracker_last t)) ..< Suc (unat (tracker_last t'))])"
proof (induction fs arbitrary: t evs)
  case (Cons f fs)
  obtain t1 evs1 where 1: "handle_frame f t evs = (Inr (), t1, evs1)"
      "handle_frames fs t1 evs1 = (Inr u, t', evs')"
    using Cons.prems(1) by (auto split: prod.splits sum.splits)
  from handle_frame_cases [OF Cons.prems(2) _ 1(1)] Cons.prems(3)
  consider "t1 = t" "evs1 = evs"
    | e s where "evs1 = evs @ [e]" "event_seq e = Some s" "unat s = Suc (unat (tracker_last t))" "t1 = \<lparr>tracker_last = s\<rparr>"
    by auto
  then show ?case
  proof cases
    case 1
    then show ?thesis using Cons.IH [OF \<open>handle_frames fs t1 evs1 = _\<close>] Cons.prems by simp
  next
    case 2
    then have "tracker_last t1 \<noteq> 0" by auto
    then obtain new where new: "tracker_last t' \<noteq> 0" "unat s \<le> unat (tracker_last t')" "evs' = evs1 @ new"
        "map (map_option unat \<circ> event_seq) new = map Some [Suc (unat s) ..< Suc (unat (tracker_last t'))]"
      using Cons.IH [OF 1(2)] Cons.prems(3) 2 by (auto simp: comp_def simp del: upt_Suc)
    have "[Suc (unat (tracker_last t)) ..< Suc (unat (tracker_last t'))] =
        unat s # [Suc (unat s) ..< Suc (unat (tracker_last t'))]"
      using 2 new(2) by (subst upt_rec) simp
    with 2 new show ?thesis by (intro conjI exI [of _ "e # new"]) (auto simp: comp_def simp del: upt_Suc)
  qed
qed simp

lemma start_tracking_last: "snapshot_seq s \<noteq> 0 \<Longrightarrow> start_tracking s = \<lparr>tracker_last = snapshot_seq s\<rparr>"
  by (simp add: start_tracking_def observe_seq_fresh tracker_new_def)

section \<open>Properties\<close>

text \<open>
  C11. Whatever frames arrive after a snapshot, as long as the client does not reconnect and no
  scene change arrives, the numbered events it delivers carry exactly the consecutive numbers after
  the snapshot's: none is lost, repeated or reordered.
\<close>
theorem client_delivers_contiguously:
  assumes "handle_frames fs (start_tracking s) evs = (Inr u, t', evs')" "snapshot_seq s \<noteq> 0"
    "list_all (\<lambda>f. \<not> is_scene_changed f) fs"
  shows "\<exists>new. evs' = evs @ new \<and> map (map_option unat \<circ> event_seq) new =
    map Some [Suc (unat (snapshot_seq s)) ..< Suc (unat (tracker_last t'))]"
  using handle_frames_contiguous [of fs "start_tracking s" evs u t' evs'] assms
  by (simp add: start_tracking_last)

definition sample_snapshot :: Snapshot where
  "sample_snapshot = \<lparr>snapshot_seq = 3, snapshot_scene_id = ''s'', snapshot_scene_version = ''v'',
     snapshot_state = [], snapshot_ts = None\<rparr>"

definition sample_delta :: "u64 \<Rightarrow> ServerFrame" where
  "sample_delta n = FDelta \<lparr>delta_seq = n, delta_patches = [], delta_ts = None, delta_cause = None\<rparr>"

theorem client_delivers_contiguously_witness:
  "\<exists>new. snd (snd (handle_frames [sample_delta 4, sample_delta 4, sample_delta 5] (start_tracking sample_snapshot) []))
    = [] @ new \<and> map (map_option unat \<circ> event_seq) new = map Some [Suc 3 ..< Suc 5]"
proof -
  let ?fs = "[sample_delta 4, sample_delta 4, sample_delta 5]"
  have "fst (handle_frames ?fs (start_tracking sample_snapshot) []) = Inr ()"
    "fst (snd (handle_frames ?fs (start_tracking sample_snapshot) [])) = \<lparr>tracker_last = 5\<rparr>"
    by code_simp+
  then have "handle_frames ?fs (start_tracking sample_snapshot) [] = (Inr (), \<lparr>tracker_last = 5\<rparr>,
      snd (snd (handle_frames ?fs (start_tracking sample_snapshot) [])))"
    by (metis prod.collapse)
  from client_delivers_contiguously [OF this] show ?thesis
    by (simp add: sample_delta_def sample_snapshot_def)
qed

lemma backoff_positive: "attempt \<noteq> 0 \<Longrightarrow> attempt \<noteq> 1 \<Longrightarrow> 0 < backoff_base_ms attempt"
  by (simp add: backoff_base_ms_def)

text \<open>\<open>k\<close> failed attempts, each followed by its delay.\<close>

definition failures :: "nat \<Rightarrow> ConnectError \<Rightarrow> ManagerInput list" where
  "failures k e = concat (replicate k [Opened (Inl e), DelayElapsed])"

lemma unat_of_nat_u32: "n < 2 ^ 32 \<Longrightarrow> unat (of_nat n :: u32) = n"
  by (simp add: unsigned_of_nat take_bit_nat_eq_self_iff)

text \<open>Whether a client still tries after \<open>k\<close> failures; without a limit the \<open>u32\<close> counter is the bound.\<close>

definition attempts_left :: "nat \<Rightarrow> u32 option \<Rightarrow> bool" where
  "attempts_left k mx = (case mx of Some m \<Rightarrow> k < max 1 (unat m) | None \<Rightarrow> Suc k < 2 ^ 32)"

lemma attempts_left_mono: "attempts_left (Suc k) mx \<Longrightarrow> attempts_left k mx"
  by (auto simp: attempts_left_def split: option.splits)

lemma failed_attempts:
  assumes "\<forall>b. 0 < b \<longrightarrow> 0 < scale b" "attempts_left k (ms_max_reconnect_attempts st)"
  shows "manager_run P scale (failures k e) (manager_start st) =
    \<lparr>mg_state = st, mg_phase = Opening (of_nat (Suc k)),
     mg_events = replicate (Suc k) (EvStatus Connecting), mg_replies = []\<rparr>"
  using assms(2)
proof (induction k)
  case 0
  then show ?case by (simp add: manager_run_def failures_def manager_start_def start_attempt_def)
next
  case (Suc k)
  let ?mx = "ms_max_reconnect_attempts st"
  have bound: "Suc (Suc k) < 2 ^ 32"
    using Suc.prems unsigned_less [of "the ?mx", where ?'a = nat] by (auto simp: attempts_left_def split: option.splits)
  have unat: "unat (of_nat (Suc k) :: u32) = Suc k" "unat (of_nat (Suc (Suc k)) :: u32) = Suc (Suc k)"
    using bound by (simp_all add: unat_of_nat_u32 del: of_nat_Suc)
  have "\<not> (case ?mx of Some m \<Rightarrow> m \<le> (of_nat (Suc k) :: u32) | None \<Rightarrow> False)"
    using Suc.prems unat by (auto simp: attempts_left_def word_le_nat_alt simp del: of_nat_Suc split: option.splits)
  moreover have "(of_nat (Suc k) :: u32) + 1 = of_nat (Suc (Suc k))" by simp
  moreover have "0 < backoff_for_attempt scale (of_nat (Suc (Suc k)))"
  proof -
    have "(of_nat (Suc (Suc k)) :: u32) \<noteq> 0" "(of_nat (Suc (Suc k)) :: u32) \<noteq> 1"
      using unat(2) by (metis unsigned_0 nat.distinct(1), metis unsigned_1 One_nat_def nat.inject nat.distinct(1))
    then show ?thesis using assms(1) by (simp add: backoff_for_attempt_def backoff_positive del: of_nat_Suc)
  qed
  moreover have "failures (Suc k) e = failures k e @ [Opened (Inl e), DelayElapsed]"
    by (simp add: failures_def replicate_append_same [symmetric])
  ultimately show ?case
    using Suc.IH [OF attempts_left_mono [OF Suc.prems]]
    by (simp add: manager_run_def manager_step_def on_opened_def start_attempt_def replicate_append_same
        del: of_nat_Suc)
qed

text \<open>
  C28. The client recovers: as long as it may still try, any number of failed attempts followed by one
  that succeeds leaves it live, with the snapshot delivered and its number as the baseline.
\<close>
theorem client_recovers:
  assumes "\<forall>b. 0 < b \<longrightarrow> 0 < scale b" "attempts_left k (ms_max_reconnect_attempts st)" "snapshot_seq s \<noteq> 0"
  shows "let mg = manager_run P scale (failures k e @ [Opened (Inr s)]) (manager_start st) in
    mg_phase mg = Driving \<lparr>tracker_last = snapshot_seq s\<rparr>
    \<and> mg_events mg = replicate (Suc k) (EvStatus Connecting) @ [EvStatus Live, EvSnapshot s]"
  using failed_attempts [OF assms(1,2), of P e] assms(3)
  by (simp add: Let_def manager_run_def manager_step_def on_opened_def start_tracking_last del: of_nat_Suc)


definition sample_manager_state :: ManagerState where
  "sample_manager_state = \<lparr>ms_url = ''ws://h'', ms_token = ''tok'', ms_scene = None, ms_session = None,
     ms_max_reconnect_attempts = Some 2\<rparr>"

theorem client_recovers_witness:
  "mg_phase (manager_run sample_platform (\<lambda>b. b) (failures 1 CEClosed @ [Opened (Inr sample_snapshot)])
    (manager_start sample_manager_state)) = Driving \<lparr>tracker_last = 3\<rparr>"
  using client_recovers [of "\<lambda>b. b" 1 sample_manager_state sample_snapshot sample_platform CEClosed]
  by (simp add: sample_manager_state_def sample_snapshot_def attempts_left_def Let_def)


text \<open>
  A token given while the client waits to reconnect is lost: the command is consumed, its
  caller is told that the manager is gone, and the manager goes on with the old token.
\<close>
theorem set_token_during_delay_lost:
  assumes "mg_phase mg = Delaying attempt"
  shows "let mg' = manager_step P scale (CommandReceived (Some (SetToken token)) swapped) mg in
    mg_phase mg' = Opening attempt \<and> ms_token (mg_state mg') = ms_token (mg_state mg)
    \<and> mg_replies mg' = mg_replies mg @ [ReplyDropped]
    \<and> set_token_result show_error ReplyDropped = Inl ClManagerGone"
  using assms
  by (simp add: Let_def manager_step_def on_delay_command_def start_attempt_def set_token_result_def)

theorem set_token_during_delay_lost_witness:
  "ms_token (mg_state (manager_step sample_platform (\<lambda>b. b) (CommandReceived (Some (SetToken ''new'')) (Inl CEClosed))
    \<lparr>mg_state = sample_manager_state, mg_phase = Delaying 2, mg_events = [], mg_replies = []\<rparr>)) = ''tok''"
  using set_token_during_delay_lost [of "\<lparr>mg_state = sample_manager_state, mg_phase = Delaying 2,
      mg_events = [], mg_replies = []\<rparr>" 2 sample_platform "\<lambda>b. b" "''new''" "Inl CEClosed" "\<lambda>_. []"]
  by (simp add: Let_def sample_manager_state_def)

end
