(* ===== verification/Delivery.thy ===== *)
theory Delivery
  imports Ws_Handler Client
begin

text \<open>
  The two ends put together: the messages a connection handler writes are what the client's manager
  reads. This theory follows the texts of one connection from the server's main loop to the
  client's events, and says what a consumer of those events has rebuilt.
\<close>

section \<open>From the server's messages to the client's inputs\<close>

fun message_texts :: "WsMessage list \<Rightarrow> string list" where
  "message_texts [] = []"
| "message_texts (MText t # ms) = t # message_texts ms"
| "message_texts (_ # ms) = message_texts ms"

text \<open>The texts as the client sees them: the first ends \<open>open\<close>, the others arrive in \<open>drive\<close>.\<close>

fun client_inputs :: "platform \<Rightarrow> string list \<Rightarrow> ManagerInput list" where
  "client_inputs P [] = []"
| "client_inputs P (t # ts) = Opened (await_snapshot P [(Inr (CmText t), Inr ())])
     # map (\<lambda>t. SocketYielded (Some (Inr (CmText t)))) ts"

text \<open>The state a consumer of the event stream holds: snapshots replace it, deltas patch it.\<close>

fun apply_event :: "Event \<Rightarrow> State \<Rightarrow> State" where
  "apply_event (EvSnapshot s) st = snapshot_state s"
| "apply_event (EvDelta d) st = bt_insert_all (map (\<lambda>p. (patch_path p, patch_value p)) (delta_patches d)) st"
| "apply_event _ st = st"

definition client_view :: "Event list \<Rightarrow> State" where
  "client_view evs = fold apply_event evs []"

abbreviation payload_frame :: "DeltaPayload \<Rightarrow> ServerFrame" where
  "payload_frame d \<equiv> delta_frame (dp_seq d) (dp_patches d) (dp_cause d)"

definition payload_event :: "DeltaPayload \<Rightarrow> Event" where
  "payload_event d = EvDelta \<lparr>delta_seq = dp_seq d, delta_patches = dp_patches d, delta_ts = None,
     delta_cause = dp_cause d\<rparr>"

text \<open>Whether a scene's leaves, or a delta, survive the trip through JSON text.\<close>

abbreviation state_transportable :: "Scene \<Rightarrow> bool" where
  "state_transportable s \<equiv> list_all (\<lambda>kv. payload_safe (snd kv)) (scene_state s)"

text \<open>No leaf of the scene is an object.\<close>

abbreviation state_servable :: "Scene \<Rightarrow> bool" where
  "state_servable s \<equiv> list_all (\<lambda>kv. \<not> is_object (snd kv)) (scene_state s)"

abbreviation delta_transportable :: "DeltaPayload \<Rightarrow> bool" where
  "delta_transportable d \<equiv> list_all (\<lambda>p. payload_safe (patch_value p)) (dp_patches d)"

lemma message_texts_append [simp]: "message_texts (xs @ ys) = message_texts xs @ message_texts ys"
  by (induction xs rule: message_texts.induct) auto

lemma message_texts_MText [simp]: "message_texts (map (\<lambda>x. MText (f x)) xs) = map f xs"
  by (induction xs) auto

section \<open>The server's side\<close>

lemma ws_send_unbounded:
  "cn_budget (snd w) = None \<Longrightarrow>
    ws_send P f w = (Inr (), (fst w, (snd w)\<lparr>cn_out := cn_out (snd w) @ [MText (server_text P f)]\<rparr>))"
  by (simp add: ws_send_def encode_server_text socket_send_def Let_def)

lemma run_loop_deltas:
  "cn_budget (snd w) = None \<Longrightarrow> map (\<lambda>(_, _, _, ev). ev) evs = map (\<lambda>d. FromDeltas (RxOk d)) new \<Longrightarrow>
    \<exists>w'. run_loop P evs rs w = (None, w') \<and>
      cn_out (snd w') = cn_out (snd w) @ map (\<lambda>d. MText (server_text P (payload_frame d))) new"
proof (induction evs arbitrary: w new)
  case (Cons e evs)
  obtain env env' others ev where e: "e = (env, env', others, ev)" using prod_cases4 by blast
  then obtain d ds where new: "new = d # ds" "ev = FromDeltas (RxOk d)"
      "map (\<lambda>(_, _, _, ev). ev) evs = map (\<lambda>d. FromDeltas (RxOk d)) ds"
    using Cons.prems(2) by auto
  let ?w = "(others (fst w), (snd w)\<lparr>cn_out := cn_out (snd w) @ [MText (server_text P (payload_frame d))]\<rparr>)"
  show ?case
    using Cons.IH [OF _ new(3), of ?w] Cons.prems(1)
    by (simp add: e new run_step_def send_delta_def ws_send_unbounded continue_or_end_def)
qed simp

lemma connection_opens:
  assumes "recv_subscribe P first = Inr sub" "auth (subscribe_token sub) = Inr identity"
    "resolve_scene srv sub = Some r" "sc_rejection (scene_at srv r) = None"
    "subscribe_since_sequence sub = None" "cn_budget conn = None"
  shows "run_open P auth env first (srv, conn) =
    (Running \<lparr>run_current = r, run_identity = identity, run_rx = r\<rparr>,
     (srv, conn\<lparr>cn_scene := Some r,
        cn_out := cn_out conn @ [MText (server_text P (snapshot_frame env (scene_at srv r)))]\<rparr>))"
  using assms
  by (simp add: run_open_def Let_def send_initial_def send_snapshot_def ws_send_unbounded continue_or_end_def)

lemma connection_writes:
  assumes "recv_subscribe P first = Inr sub" "auth (subscribe_token sub) = Inr identity"
    "resolve_scene srv sub = Some r" "sc_rejection (scene_at srv r) = None"
    "subscribe_since_sequence sub = None" "cn_budget conn = None" "cn_out conn = []"
    "map (\<lambda>(_, _, _, ev). ev) evs = map (\<lambda>d. FromDeltas (RxOk d)) new"
  shows "\<exists>w'. handle_connection P auth env first evs (srv, conn) = (None, w') \<and>
    message_texts (cn_out (snd w')) =
      server_text P (snapshot_frame env (scene_at srv r)) # map (\<lambda>d. server_text P (payload_frame d)) new"
proof -
  let ?w = "(srv, conn\<lparr>cn_scene := Some r,
    cn_out := cn_out conn @ [MText (server_text P (snapshot_frame env (scene_at srv r)))]\<rparr>)"
  let ?rs = "\<lparr>run_current = r, run_identity = identity, run_rx = r\<rparr>"
  obtain w' where w': "run_loop P evs ?rs ?w = (None, w')"
    "cn_out (snd w') = cn_out (snd ?w) @ map (\<lambda>d. MText (server_text P (payload_frame d))) new"
    using run_loop_deltas [OF _ assms(8), of ?w P ?rs] assms(6) by auto
  have "handle_connection P auth env first evs (srv, conn) = run_loop P evs ?rs ?w"
    by (simp add: handle_connection_def connection_opens [where auth = auth and identity = identity, OF assms(1-6)])
  with w' assms(7) show ?thesis by (intro exI [of _ w']) simp
qed

section \<open>The client's side\<close>

lemma drive_delta:
  assumes "mg_phase mg = Driving \<lparr>tracker_last = n\<rparr>" "n \<noteq> 0" "unat (dp_seq d) = Suc (unat n)"
    "decode_server P text = Inr (payload_frame d)"
  shows "manager_step P scale (SocketYielded (Some (Inr (CmText text)))) mg =
    mg\<lparr>mg_events := mg_events mg @ [payload_event d], mg_phase := Driving \<lparr>tracker_last = dp_seq d\<rparr>\<rparr>"
  using assms
  by (simp add: manager_step_def on_drive_socket_def handle_frame_def delta_frame_def payload_event_def
      observe_seq_cases)

lemma drive_deltas:
  "mg_phase mg = Driving \<lparr>tracker_last = n\<rparr> \<Longrightarrow> n \<noteq> 0 \<Longrightarrow>
    map (unat \<circ> dp_seq) new = [Suc (unat n) ..< Suc (unat m)] \<Longrightarrow> unat n \<le> unat m \<Longrightarrow>
    \<forall>d \<in> set new. decode_server P (f d) = Inr (payload_frame d) \<Longrightarrow>
    manager_run P scale (map (\<lambda>d. SocketYielded (Some (Inr (CmText (f d))))) new) mg =
      mg\<lparr>mg_events := mg_events mg @ map payload_event new, mg_phase := Driving \<lparr>tracker_last = m\<rparr>\<rparr>"
proof (induction new arbitrary: mg n)
  case Nil
  then have "[Suc (unat n) ..< Suc (unat m)] = []" by simp
  then have "unat n = unat m" using Nil.prems(4) by (simp only: upt_eq_Nil_conv) simp
  then have "n = m" by (simp add: word_unat_eq_iff)
  with Nil show ?case by (cases mg) (simp add: manager_run_def)
next
  case (Cons d ds)
  then have "Suc (unat n) \<le> unat m" by (cases "unat n = unat m") (simp_all del: upt_Suc)
  then have "[Suc (unat n) ..< Suc (unat m)] = Suc (unat n) # [Suc (Suc (unat n)) ..< Suc (unat m)]"
    by (simp add: upt_conv_Cons del: upt_Suc)
  with Cons.prems(3) have d: "unat (dp_seq d) = Suc (unat n)"
    and ds: "map (unat \<circ> dp_seq) ds = [Suc (unat (dp_seq d)) ..< Suc (unat m)]"
    by (auto simp: comp_def simp del: upt_Suc)
  let ?mg = "mg\<lparr>mg_events := mg_events mg @ [payload_event d], mg_phase := Driving \<lparr>tracker_last = dp_seq d\<rparr>\<rparr>"
  have "manager_step P scale (SocketYielded (Some (Inr (CmText (f d))))) mg = ?mg"
    using Cons.prems d by (intro drive_delta) auto
  moreover have "dp_seq d \<noteq> 0" using d by auto
  ultimately show ?case
    using Cons.IH [of ?mg "dp_seq d", OF _ _ ds] Cons.prems(5) d \<open>Suc (unat n) \<le> unat m\<close>
    by (simp add: manager_run_def)
qed

lemma client_view_deltas:
  "fold apply_event (map payload_event new) st =
    fold (\<lambda>d. bt_insert_all (map (\<lambda>p. (patch_path p, patch_value p)) (dp_patches d))) new st"
  by (induction new arbitrary: st) (simp_all add: payload_event_def)

section \<open>Frames of a legal scene\<close>

lemma store_legal_servable: "store_legal s \<Longrightarrow> state_servable s"
  by (auto simp: list_all_iff scene_state_def store_legal_def bt_set_conv snapshot_wf snapshot_get)

lemma snapshot_decodes:
  assumes "json_text_ok P" "state_servable s" "state_transportable s"
  shows "decode_server P (server_text P (snapshot_frame env s)) = Inr (snapshot_frame env s)"
  using assms
  by (intro decode_server_text) (simp_all add: snapshot_frame_def scene_state_def snapshot_wf)

text \<open>A leaf that is an object makes the snapshot of its scene undecodable.\<close>

lemma snapshot_refused:
  assumes "json_text_ok P" "\<not> state_servable s" "state_transportable s"
  shows "\<exists>e. decode_server P (server_text P (snapshot_frame env s)) = Inl e"
  using assms
  by (intro decode_server_illegal) (simp_all add: snapshot_frame_def scene_state_def snapshot_wf)

lemma delta_decodes:
  assumes "json_text_ok P" "record_legal rc" "delta_transportable (payload rc)"
  shows "decode_server P (server_text P (payload_frame (payload rc))) = Inr (payload_frame (payload rc))"
  using assms
  by (intro decode_server_text)
    (auto simp: payload_def delta_frame_def record_legal_def list_all_iff patch_wf_def patch_safe_def)

lemma records_decode:
  assumes "json_text_ok P" "list_all record_legal log" "list_all delta_transportable (map payload log)"
  shows "\<forall>d \<in> set (map payload log). decode_server P (server_text P (payload_frame d)) = Inr (payload_frame d)"
  using assms(2,3) delta_decodes [OF assms(1)] by (auto simp: list.pred_set)

lemma history_decodes:
  assumes "json_text_ok P" "history s log t" "list_all delta_transportable (sc_sent t)"
  shows "\<forall>d \<in> set (map payload log). decode_server P (server_text P (payload_frame d)) = Inr (payload_frame d)"
  using assms by (intro records_decode) (simp_all add: history_def)

text \<open>A manager that is up to date with \<open>s\<close> and reads the deltas of a history.\<close>

lemma driving_client_follows:
  assumes "json_text_ok P" "history s log t" "list_all delta_transportable (map payload log)" "sc_seq s \<noteq> 0"
    "mg_phase mg = Driving \<lparr>tracker_last = sc_seq s\<rparr>" "client_view (mg_events mg) = scene_state s"
  shows "let mg' = manager_run P scale (map (\<lambda>d. SocketYielded (Some (Inr (CmText (server_text P (payload_frame d))))))
        (map payload log)) mg in
      mg_phase mg' = Driving \<lparr>tracker_last = sc_seq t\<rparr> \<and> client_view (mg_events mg') = scene_state t"
proof -
  have "map (unat \<circ> dp_seq) (map payload log) = [Suc (unat (sc_seq s)) ..< Suc (unat (sc_seq t))]"
    "unat (sc_seq s) \<le> unat (sc_seq t)"
    using assms(2) by (simp_all add: history_def seqs_from_def payload_def comp_def)
  then have "manager_run P scale (map (\<lambda>d. SocketYielded (Some (Inr (CmText (server_text P (payload_frame d))))))
      (map payload log)) mg =
      mg\<lparr>mg_events := mg_events mg @ map payload_event (map payload log), mg_phase := Driving \<lparr>tracker_last = sc_seq t\<rparr>\<rparr>"
    using records_decode [OF assms(1) _ assms(3)] assms(2)
    by (intro drive_deltas [OF assms(5,4)]) (auto simp: history_def)
  moreover have "fold apply_event (map payload_event (map payload log)) (scene_state s) = scene_state t"
    using assms(2) by (simp only: client_view_deltas) (simp add: history_def payload_updates)
  ultimately show ?thesis
    using assms(6) by (simp add: Let_def client_view_def)
qed

text \<open>A manager that opens, for the first time or again, with a snapshot of \<open>s\<close> and then reads the deltas.\<close>

lemma client_opens_and_follows:
  assumes "json_text_ok P" "state_servable s" "sc_seq s \<noteq> 0" "state_transportable s"
    "history s log t" "list_all delta_transportable (sc_sent t)" "mg_phase mg = Opening attempt"
  shows "let mg' = manager_run P scale (client_inputs P (server_text P (snapshot_frame env s)
        # map (\<lambda>d. server_text P (payload_frame d)) (map payload log))) mg in
      mg_phase mg' = Driving \<lparr>tracker_last = sc_seq t\<rparr> \<and> client_view (mg_events mg') = scene_state t"
proof -
  let ?mg0 = "manager_step P scale (Opened (await_snapshot P
    [(Inr (CmText (server_text P (snapshot_frame env s))), Inr ())])) mg"
  have mg0: "mg_phase ?mg0 = Driving \<lparr>tracker_last = sc_seq s\<rparr>" "client_view (mg_events ?mg0) = scene_state s"
    using snapshot_decodes [OF assms(1,2,4), of env] assms(3,7)
    by (simp_all add: snapshot_frame_def manager_step_def on_opened_def start_tracking_last current_seq_def client_view_def)
  have "list_all delta_transportable (map payload log)" using assms(5,6) by (simp add: history_def)
  from driving_client_follows [OF assms(1,5) this assms(3) mg0, of scale] show ?thesis
    by (simp add: Let_def manager_run_def comp_def)
qed

lemma client_follows_history:
  assumes "json_text_ok P" "state_servable s" "sc_seq s \<noteq> 0" "state_transportable s"
    "history s log t" "list_all delta_transportable (sc_sent t)"
  shows "let mg = manager_run P scale (client_inputs P (server_text P (snapshot_frame env s)
        # map (\<lambda>d. server_text P (payload_frame d)) (map payload log))) (manager_start st) in
      mg_phase mg = Driving \<lparr>tracker_last = sc_seq t\<rparr> \<and> client_view (mg_events mg) = scene_state t"
  by (rule client_opens_and_follows [OF assms]) (simp add: manager_start_def start_attempt_def)

text \<open>
  A whole connection: the client's subscription is let in, the scene goes through a history, the
  broadcast receiver yields what was sent, and the client reads what the handler wrote.
\<close>

lemma connection_serves_client:
  assumes "json_text_ok P"
    and client: "sub = \<lparr>subscribe_token = ms_token st, subscribe_scene = ms_scene st,
      subscribe_session = ms_session st, subscribe_since_sequence = None\<rparr>"
      "first = Some (Some (Inr (MText (client_text P (subscribe_frame (ms_token st) (ms_scene st) (ms_session st))))))"
    and server: "auth (ms_token st) = Inr identity" "resolve_scene srv sub = Some r"
      "sc_rejection (scene_at srv r) = None" "cn_budget conn = None" "cn_out conn = []"
    and scene: "scene_wf (scene_at srv r)" "state_servable (scene_at srv r)" "sc_seq (scene_at srv r) \<noteq> 0"
      "state_transportable (scene_at srv r)"
    and steps: "(scene_step ^^ n) (scene_at srv r) t" "unat (sc_seq (scene_at srv r)) + n < 2 ^ 64"
      "list_all delta_transportable (sc_sent t)"
    and inputs: "map (\<lambda>(_, _, _, ev). ev) evs =
      map (\<lambda>d. FromDeltas (RxOk d)) (drop (length (sc_sent (scene_at srv r))) (sc_sent t))"
    and mg: "mg_phase mg = Opening attempt"
  shows "\<exists>w'. handle_connection P auth env first evs (srv, conn) = (None, w') \<and>
    (let mg' = manager_run P scale (client_inputs P (message_texts (cn_out (snd w')))) mg in
      mg_phase mg' = Driving \<lparr>tracker_last = sc_seq t\<rparr> \<and> client_view (mg_events mg') = scene_state t)"
proof -
  let ?s = "scene_at srv r"
  obtain log where log: "history ?s log t"
    using history_steps [OF steps(1) scene(1) steps(2)] by blast
  then have new: "drop (length (sc_sent ?s)) (sc_sent t) = map payload log"
    by (simp add: history_def)
  have recv: "recv_subscribe P first = Inr sub"
    using assms(1) by (simp add: client recv_subscribe_def subscribe_frame_def decode_client_text)
  obtain w' where "handle_connection P auth env first evs (srv, conn) = (None, w')"
    "message_texts (cn_out (snd w')) = server_text P (snapshot_frame env ?s)
      # map (\<lambda>d. server_text P (payload_frame d)) (map payload log)"
    using connection_writes [OF recv, of auth identity srv r conn evs "map payload log" env] inputs client(1) server
    by (auto simp: new)
  then show ?thesis
    using client_opens_and_follows [OF assms(1) scene(2-4) log steps(3) mg, of scale env] by auto
qed

section \<open>Swaps and errors\<close>

text \<open>What a client in its drive loop does with the text of a frame.\<close>

lemma drive_frame:
  assumes "mg_phase mg = Driving tracker" "decode_server P text = Inr frame"
    "handle_frame frame tracker (mg_events mg) = (Inr u, tracker', evs)"
  shows "manager_step P scale (SocketYielded (Some (Inr (CmText text)))) mg =
    mg\<lparr>mg_events := evs, mg_phase := Driving tracker'\<rparr>"
  using assms by (simp add: manager_step_def on_drive_socket_def)

abbreviation changed_frame :: "Env \<Rightarrow> Scene \<Rightarrow> u64 \<Rightarrow> ServerFrame" where
  "changed_frame env s seq \<equiv> FSceneChanged \<lparr>changed_seq = seq, changed_scene_id = sc_id s,
     changed_scene_version = sc_version s, changed_ts = Some (now_iso env), changed_from_scene_id = None,
     changed_transition = None\<rparr>"

abbreviation advanced :: "scene_ref \<Rightarrow> Server \<Rightarrow> Server" where
  "advanced r srv \<equiv> update_scene r ((scene_at srv r)\<lparr>sc_seq := sc_seq (scene_at srv r) + 1\<rparr>) srv"

lemma scene_swap_writes:
  assumes "server_scene i srv = Some new" "cn_budget conn = None" "run_current rs = old"
  shows "on_scene_swap P env env' i rs (srv, conn) =
    (Running (rs\<lparr>run_current := new, run_rx := new\<rparr>),
     (advanced old srv, conn\<lparr>cn_scene := Some new, cn_out := cn_out conn @
        [MText (server_text P (changed_frame env (scene_at (advanced old srv) new) (sc_seq (scene_at srv old) + 1))),
         MText (server_text P (snapshot_frame env' (scene_at (advanced old srv) new)))]\<rparr>))"
  using assms
  by (simp add: on_scene_swap_def advance_seq_for_change_def advance_seq_def Let_def send_scene_changed_def
      send_snapshot_def ws_send_unbounded)

lemma changed_decodes:
  "json_text_ok P \<Longrightarrow> decode_server P (server_text P (changed_frame env s seq)) = Inr (changed_frame env s seq)"
  by (intro decode_server_text) simp_all

text \<open>A scene change in order resets the tracker, so the snapshot behind it is taken whatever its number.\<close>

lemma client_follows_swap:
  assumes "json_text_ok P" "mg_phase mg = Driving \<lparr>tracker_last = n\<rparr>" "n \<noteq> 0" "unat seq = Suc (unat n)"
    "state_servable s" "state_transportable s" "sc_seq s \<noteq> 0"
  shows "let mg' = manager_run P scale (map (\<lambda>t. SocketYielded (Some (Inr (CmText t))))
        [server_text P (changed_frame env s seq), server_text P (snapshot_frame env' s)]) mg in
      mg_phase mg' = Driving \<lparr>tracker_last = sc_seq s\<rparr> \<and> client_view (mg_events mg') = scene_state s"
  using assms(2-4,7) snapshot_decodes [OF assms(1,5,6), of env'] changed_decodes [OF assms(1), where env = env and s = s and seq = seq]
  by (simp add: Let_def manager_run_def manager_step_def on_drive_socket_def handle_frame_def observe_seq_cases
      snapshot_frame_def tracker_reset_def observe_seq_fresh current_seq_def client_view_def)

end
