(* ===== verification/Tasks.thy ===== *)
theory Tasks
  imports Main
begin

text \<open>
  Tasks that share a state. A task is what it still has to do; \<open>micro\<close> is its next step on the shared
  state, taken under the locks that step holds, and \<open>fin\<close> says that it has ended. Any task may take the
  next turn.
\<close>

inductive task_turn :: "('t \<Rightarrow> 's \<Rightarrow> 't \<times> 's) \<Rightarrow> ('t \<Rightarrow> bool) \<Rightarrow> 's \<times> 't list \<Rightarrow> 's \<times> 't list \<Rightarrow> bool"
  for micro fin where
  turn: "\<not> fin t \<Longrightarrow> micro t s = (t', s') \<Longrightarrow> task_turn micro fin (s, xs @ t # ys) (s', xs @ t' # ys)"

inductive_cases task_turnE: "task_turn micro fin (s, ts) (s', ts')"

text \<open>A scheduler: the tasks take their steps in the given order.\<close>

fun run_tasks :: "('t \<Rightarrow> 's \<Rightarrow> 't \<times> 's) \<Rightarrow> ('t \<Rightarrow> bool) \<Rightarrow> nat list \<Rightarrow> 's \<times> 't list \<Rightarrow> 's \<times> 't list" where
  "run_tasks micro fin [] x = x"
| "run_tasks micro fin (i # is) (s, ts) =
     (if i < length ts \<and> \<not> fin (ts ! i)
      then (let (t', s') = micro (ts ! i) s in run_tasks micro fin is (s', ts[i := t']))
      else run_tasks micro fin is (s, ts))"

lemma tasks_reachable: "(task_turn micro fin)\<^sup>*\<^sup>* x (run_tasks micro fin is x)"
proof (induction "is" arbitrary: x)
  case (Cons i "is")
  obtain s ts where x: "x = (s, ts)" by fastforce
  show ?case
  proof (cases "i < length ts \<and> \<not> fin (ts ! i)")
    case True
    obtain t' s' where m: "micro (ts ! i) s = (t', s')" by fastforce
    have "task_turn micro fin (s, take i ts @ ts ! i # drop (Suc i) ts) (s', take i ts @ t' # drop (Suc i) ts)"
      using True m by (intro turn) simp_all
    then have "task_turn micro fin (s, ts) (s', ts[i := t'])"
      using True by (simp add: id_take_nth_drop [symmetric] upd_conv_take_nth_drop)
    with Cons.IH True m show ?thesis by (simp add: x) (meson converse_rtranclp_into_rtranclp)
  qed (use Cons.IH x in auto)
qed simp

text \<open>What every step of every task keeps, of the state and of each task, all of them keep.\<close>

lemma tasks_invariant:
  assumes "(task_turn micro fin)\<^sup>*\<^sup>* (s, ts) (s', ts')" "I s" "list_all J ts"
    and step: "\<And>t s t' s'. micro t s = (t', s') \<Longrightarrow> I s \<Longrightarrow> J t \<Longrightarrow> I s' \<and> J t'"
  shows "I s' \<and> list_all J ts'"
  using assms(1)
proof (induction "(s', ts')" arbitrary: s' ts' rule: rtranclp_induct)
  case base
  then show ?case using assms(2,3) by simp
next
  case (step y)
  obtain u us where y: "y = (u, us)" by fastforce
  with step have u: "I u" "list_all J us" by simp_all
  from step(2) [unfolded y] obtain t t' xs ys where m: "us = xs @ t # ys" "ts' = xs @ t' # ys" "micro t u = (t', s')"
    by (rule task_turnE)
  with assms(4) [OF m(3) u(1)] u(2) show ?case by simp
qed

end
