(* ===== verification/Interleaving.thy ===== *)
theory Interleaving
  imports Delivery Tasks "HOL-Library.Multiset"
begin

text \<open>
  Emissions that overlap in time. \<open>Scene::emit_with_cause\<close> and \<open>Scene::set\<close> take four locks one after
  the other: the store's, the counter's, the replay buffer's and the broadcast channel's. Scenes are
  shared between tasks, so another emission can run between any two of them. Here an emission is a
  task of four atomic steps, and any number of tasks interleave. The other theories treat an
  emission as one step; this one says what that leaves out.
\<close>

section \<open>Emissions as tasks\<close>

datatype EmitTask =
    ToApply "Patch list" "Cause option"
  | ToNumber "Patch list" "Cause option"
  | ToRecord u64 "Patch list" "Cause option"
  | ToSend u64 "Patch list" "Cause option"
  | EmitDone

text \<open>What runs before the first lock: the patches are parsed and checked.\<close>

definition emit_task :: "(string \<times> json) list \<Rightarrow> Cause option \<Rightarrow> EmitTask" where
  "emit_task patches cause = (case parse_patches patches of
      Inl _ \<Rightarrow> EmitDone
    | Inr parsed \<Rightarrow> if parsed = [] then EmitDone else ToApply parsed cause)"

fun emit_micro :: "EmitTask \<Rightarrow> Scene \<Rightarrow> EmitTask \<times> Scene" where
  "emit_micro (ToApply parsed cause) s = (ToNumber parsed cause,
     s\<lparr>sc_store := store_apply (map (\<lambda>p. (patch_path p, patch_value p)) parsed) (sc_store s)\<rparr>)"
| "emit_micro (ToNumber parsed cause) s = (let (seq, s') = advance_seq s in (ToRecord seq parsed cause, s'))"
| "emit_micro (ToRecord seq parsed cause) s = (ToSend seq parsed cause,
     s\<lparr>sc_replay := replay_push \<lparr>rec_seq = seq, rec_patches = parsed, rec_cause = cause\<rparr> (sc_replay s)\<rparr>)"
| "emit_micro (ToSend seq parsed cause) s = (EmitDone,
     s\<lparr>sc_sent := sc_sent s @ [\<lparr>dp_seq = seq, dp_patches = parsed, dp_cause = cause\<rparr>]\<rparr>)"
| "emit_micro EmitDone s = (EmitDone, s)"

abbreviation interleaved :: "Scene \<times> EmitTask list \<Rightarrow> Scene \<times> EmitTask list \<Rightarrow> bool" where
  "interleaved \<equiv> task_turn emit_micro (\<lambda>t. t = EmitDone)"

abbreviation run_schedule :: "nat list \<Rightarrow> Scene \<times> EmitTask list \<Rightarrow> Scene \<times> EmitTask list" where
  "run_schedule \<equiv> run_tasks emit_micro (\<lambda>t. t = EmitDone)"

lemmas schedule_reachable = tasks_reachable [of emit_micro "\<lambda>t. t = EmitDone"]

section \<open>What a set of tasks still holds\<close>

fun task_number :: "EmitTask \<Rightarrow> nat list" where
  "task_number (ToRecord seq _ _) = [unat seq]"
| "task_number (ToSend seq _ _) = [unat seq]"
| "task_number _ = []"

fun task_batch :: "EmitTask \<Rightarrow> (Patch list \<times> Cause option) list" where
  "task_batch (ToApply ps c) = [(ps, c)]"
| "task_batch (ToNumber ps c) = [(ps, c)]"
| "task_batch (ToRecord _ ps c) = [(ps, c)]"
| "task_batch (ToSend _ ps c) = [(ps, c)]"
| "task_batch EmitDone = []"

fun unnumbered :: "EmitTask \<Rightarrow> bool" where
  "unnumbered (ToApply _ _) = True"
| "unnumbered (ToNumber _ _) = True"
| "unnumbered _ = False"

text \<open>
  Since the start at \<open>s\<close> with tasks \<open>ts0\<close>: the numbers sent and held are the consecutive ones past the
  start, the batches sent and held are those of the tasks, and each task takes at most one number.
\<close>

definition accounted :: "Scene \<Rightarrow> EmitTask list \<Rightarrow> Scene \<times> EmitTask list \<Rightarrow> bool" where
  "accounted s ts0 x \<longleftrightarrow> (let (t, ts) = x in
     \<exists>new. sc_sent t = sc_sent s @ new
       \<and> mset (map (unat \<circ> dp_seq) new) + mset (concat (map task_number ts))
           = mset [Suc (unat (sc_seq s)) ..< Suc (unat (sc_seq t))]
       \<and> mset (map (\<lambda>d. (dp_patches d, dp_cause d)) new) + mset (concat (map task_batch ts))
           = mset (concat (map task_batch ts0))
       \<and> unat (sc_seq s) \<le> unat (sc_seq t)
       \<and> unat (sc_seq t) + length (filter unnumbered ts) = unat (sc_seq s) + length (filter unnumbered ts0))"

lemma accounted_step:
  assumes "interleaved x y" "accounted s ts0 x" "unat (sc_seq s) + length (filter unnumbered ts0) < 2 ^ 64"
  shows "accounted s ts0 y"
  using assms(1)
proof (cases rule: task_turn.cases)
  case (turn t u t' u' xs ys)
  obtain new where new: "sc_sent u = sc_sent s @ new"
    "mset (map (unat \<circ> dp_seq) new) + mset (concat (map task_number (xs @ t # ys)))
       = mset [Suc (unat (sc_seq s)) ..< Suc (unat (sc_seq u))]"
    "mset (map (\<lambda>d. (dp_patches d, dp_cause d)) new) + mset (concat (map task_batch (xs @ t # ys)))
       = mset (concat (map task_batch ts0))"
    "unat (sc_seq s) \<le> unat (sc_seq u)"
    "unat (sc_seq u) + length (filter unnumbered (xs @ t # ys)) = unat (sc_seq s) + length (filter unnumbered ts0)"
    using assms(2) by (auto simp: accounted_def turn(1) simp del: upt_Suc)
  show ?thesis
  proof (cases t)
    case (ToApply ps c)
    with new turn show ?thesis
      by (auto simp: accounted_def simp del: upt_Suc intro!: exI [of _ new])
  next
    case (ToNumber ps c)
    have "Suc (unat (sc_seq u)) < 2 ^ 64" using new(5) assms(3) by (simp add: ToNumber)
    then have seq: "unat (sc_seq u + 1) = Suc (unat (sc_seq u))" by (rule unat_add_one)
    have "mset [Suc (unat (sc_seq s)) ..< Suc (Suc (unat (sc_seq u)))] =
        add_mset (Suc (unat (sc_seq u))) (mset [Suc (unat (sc_seq s)) ..< Suc (unat (sc_seq u))])"
      using new(4) by simp
    with new turn seq ToNumber show ?thesis
      by (auto simp: accounted_def advance_seq_def Let_def simp del: upt_Suc intro!: exI [of _ new])
  next
    case (ToRecord n ps c)
    with new turn show ?thesis
      by (auto simp: accounted_def simp del: upt_Suc intro!: exI [of _ new])
  next
    case (ToSend n ps c)
    with new turn show ?thesis
      by (auto simp: accounted_def simp del: upt_Suc intro!: exI [of _ "new @ [\<lparr>dp_seq = n, dp_patches = ps, dp_cause = c\<rparr>]"])
  qed (use turn in simp)
qed

lemma accounted_reachable:
  assumes "interleaved\<^sup>*\<^sup>* (s, ts0) x" "unat (sc_seq s) + length (filter unnumbered ts0) < 2 ^ 64"
    "concat (map task_number ts0) = []"
  shows "accounted s ts0 x"
  using assms(1)
proof (induction rule: rtranclp_induct)
  case base
  then show ?case using assms(3) by (simp add: accounted_def)
next
  case (step y z)
  then show ?case using accounted_step assms(2) by blast
qed

section \<open>Properties\<close>

text \<open>The tasks of a list of requests, as they stand before their first lock.\<close>

definition fresh_tasks :: "((string \<times> json) list \<times> Cause option) list \<Rightarrow> EmitTask list" where
  "fresh_tasks reqs = map (\<lambda>(patches, cause). emit_task patches cause) reqs"

lemma fresh_tasks_facts:
  "concat (map task_number (fresh_tasks reqs)) = []"
  "length (filter unnumbered (fresh_tasks reqs)) = length (concat (map task_batch (fresh_tasks reqs)))"
  by (induction reqs) (auto simp: fresh_tasks_def emit_task_def split: sum.splits)

text \<open>
  The micro steps are the emission: a task that runs to its end without interruption does to the
  scene exactly what \<open>emit_with_cause\<close> does.
\<close>
theorem alone_is_emit:
  "((\<lambda>(t, u). emit_micro t u) ^^ 4) (emit_task patches cause, s) =
    (EmitDone, snd (emit_with_cause patches cause s))"
proof -
  have four: "(f ^^ 4) x = f (f (f (f x)))" for f :: "'a \<Rightarrow> 'a" and x
    by (simp add: numeral_eq_Suc)
  show ?thesis
    by (auto simp: four emit_task_def emit_with_cause_def advance_seq_def Let_def split: sum.splits)
qed

lemma emits_accounted:
  assumes "interleaved\<^sup>*\<^sup>* (s, fresh_tasks reqs) (t, ts)" "list_all (\<lambda>x. x = EmitDone) ts"
    "unat (sc_seq s) + length reqs < 2 ^ 64"
  shows "\<exists>new. sc_sent t = sc_sent s @ new
    \<and> mset (map (unat \<circ> dp_seq) new) = mset [Suc (unat (sc_seq s)) ..< Suc (unat (sc_seq t))]
    \<and> mset (map (\<lambda>d. (dp_patches d, dp_cause d)) new) = mset (concat (map task_batch (fresh_tasks reqs)))"
proof -
  have "length (filter unnumbered (fresh_tasks reqs)) \<le> length reqs"
    using length_filter_le [of unnumbered "fresh_tasks reqs"] by (simp add: fresh_tasks_def)
  then have "accounted s (fresh_tasks reqs) (t, ts)"
    using assms(3) by (intro accounted_reachable [OF assms(1)]) (simp_all add: fresh_tasks_facts)
  moreover have "concat (map task_number ts) = []" "concat (map task_batch ts) = []"
    using assms(2) by (induction ts) auto
  ultimately show ?thesis by (auto simp: accounted_def simp del: upt_Suc)
qed

text \<open>
  C13. However emissions overlap, none is lost, repeated or torn: when all have run to their end, the
  deltas sent carry each of the next numbers exactly once and each request's batch exactly once,
  whole and with its own cause.
\<close>
theorem overlapping_emits_lose_nothing:
  assumes "interleaved\<^sup>*\<^sup>* (s, fresh_tasks reqs) (t, ts)" "list_all (\<lambda>x. x = EmitDone) ts"
    "unat (sc_seq s) + length reqs < 2 ^ 64"
  shows "\<exists>new. sc_sent t = sc_sent s @ new
    \<and> mset (map (unat \<circ> dp_seq) new) = mset [Suc (unat (sc_seq s)) ..< Suc (unat (sc_seq t))]
    \<and> mset (map (\<lambda>d. (dp_patches d, dp_cause d)) new) = mset (concat (map task_batch (fresh_tasks reqs)))"
  using assms by (rule emits_accounted)

theorem overlapping_emits_lose_nothing_witness:
  "let t = fst (run_schedule [1, 1, 1, 1] (scene_new ''main'' ''v'', fresh_tasks [([], None), ([(''a'', jnat 0)], None)]))
   in mset (map (unat \<circ> dp_seq) (sc_sent t)) = {#2#}"
proof -
  let ?s = "scene_new ''main'' ''v''"
  let ?reqs = "[([], None), ([(''a'', jnat 0)], None)] :: ((string \<times> json) list \<times> Cause option) list"
  let ?x = "run_schedule [1, 1, 1, 1] (?s, fresh_tasks ?reqs)"
  have "leaf_path_parse ''a'' = Inr ''a''" by code_simp
  then have fresh: "fresh_tasks ?reqs = [EmitDone, ToApply [patch_new ''a'' (jnat 0)] None]"
    by (simp add: fresh_tasks_def emit_task_def check_leaf_value_def jnat_def)
  have x: "list_all (\<lambda>x. x = EmitDone) (snd ?x)" "sc_seq (fst ?x) = 2"
    by (simp_all add: fresh advance_seq_def Let_def scene_new_def)
  have s: "unat (sc_seq ?s) = 1" "sc_sent ?s = []" by (simp_all add: scene_new_def)
  have run: "interleaved\<^sup>*\<^sup>* (?s, fresh_tasks ?reqs) (fst ?x, snd ?x)"
    unfolding prod.collapse by (rule schedule_reachable)
  have "{Suc (Suc 0) ..< 3} = {2 :: nat}" by auto
  with overlapping_emits_lose_nothing [OF run x(1)] s x(2) show ?thesis by (auto simp: Let_def simp del: upt_Suc run_tasks.simps)
qed

section \<open>Writers of different leaves\<close>

text \<open>The batch of a task that has not reached the store, and what a batch does to the leaves.\<close>

fun unapplied :: "EmitTask \<Rightarrow> Patch list list" where
  "unapplied (ToApply ps _) = [ps]"
| "unapplied _ = []"

definition write_batch :: "Patch list \<Rightarrow> (string \<rightharpoonup> json) \<Rightarrow> (string \<rightharpoonup> json)" where
  "write_batch ps m = m ++ map_of (rev (map (\<lambda>p. (patch_path p, patch_value p)) ps))"

definition batch_leaves :: "Patch list \<Rightarrow> string set" where
  "batch_leaves ps = patch_path ` set ps"

lemma write_batch_commute:
  "a = b \<or> batch_leaves a \<inter> batch_leaves b = {} \<Longrightarrow> write_batch a \<circ> write_batch b = write_batch b \<circ> write_batch a"
proof (erule disjE)
  assume "batch_leaves a \<inter> batch_leaves b = {}"
  then have "dom (map_of (rev (map (\<lambda>p. (patch_path p, patch_value p)) a))) \<inter>
      dom (map_of (rev (map (\<lambda>p. (patch_path p, patch_value p)) b))) = {}"
    by (simp add: dom_map_of_conv_image_fst batch_leaves_def image_image)
  then have "map_of (rev (map (\<lambda>p. (patch_path p, patch_value p)) a)) ++ map_of (rev (map (\<lambda>p. (patch_path p, patch_value p)) b))
      = map_of (rev (map (\<lambda>p. (patch_path p, patch_value p)) b)) ++ map_of (rev (map (\<lambda>p. (patch_path p, patch_value p)) a))"
    by (rule map_add_comm)
  then show ?thesis by (intro ext) (simp only: comp_apply write_batch_def map_add_assoc [symmetric])
qed simp

lemma fold_deltas_get:
  "bt_get (fold (\<lambda>d. bt_insert_all (map (\<lambda>p. (patch_path p, patch_value p)) (dp_patches d))) ds st) =
    fold write_batch (map dp_patches ds) (bt_get st)"
  by (induction ds arbitrary: st) (simp_all add: get_insert_all write_batch_def)

lemma fold_deltas_wf:
  "bt_wf st \<Longrightarrow> bt_wf (fold (\<lambda>d. bt_insert_all (map (\<lambda>p. (patch_path p, patch_value p)) (dp_patches d))) ds st)"
  by (induction ds arbitrary: st) simp_all

text \<open>The store holds some of the batches, applied in some order, and the tasks hold the others.\<close>

definition stored :: "Scene \<Rightarrow> EmitTask list \<Rightarrow> Scene \<times> EmitTask list \<Rightarrow> bool" where
  "stored s ts0 x \<longleftrightarrow> (let (t, ts) = x in hm_wf (sc_store t) \<and>
     (\<exists>app. bt_get (scene_state t) = fold write_batch app (bt_get (scene_state s))
       \<and> mset app + mset (concat (map unapplied ts)) = mset (concat (map unapplied ts0))))"

lemma stored_step:
  assumes "interleaved x y" "stored s ts0 x"
  shows "stored s ts0 y"
  using assms(1)
proof (cases rule: task_turn.cases)
  case (turn t u t' u' xs ys)
  obtain app where app: "hm_wf (sc_store u)" "bt_get (scene_state u) = fold write_batch app (bt_get (scene_state s))"
    "mset app + mset (concat (map unapplied (xs @ t # ys))) = mset (concat (map unapplied ts0))"
    using assms(2) by (auto simp: stored_def turn(1))
  show ?thesis
  proof (cases t)
    case (ToApply ps c)
    then have "bt_get (scene_state u') = write_batch ps (bt_get (scene_state u))" "hm_wf (sc_store u')"
      using turn(4) app(1) by (auto simp: scene_state_def snapshot_get store_apply_alt get_insert_all write_batch_def)
    with app ToApply turn(4) show ?thesis
      by (auto simp: stored_def turn(2) intro!: exI [of _ "app @ [ps]"])
  qed (use app turn in \<open>auto simp: stored_def advance_seq_def Let_def scene_state_def intro!: exI [of _ app]\<close>)
qed

lemma stored_reachable:
  assumes "interleaved\<^sup>*\<^sup>* (s, ts0) x" "scene_wf s"
  shows "stored s ts0 x"
  using assms(1)
proof (induction rule: rtranclp_induct)
  case base
  then show ?case using assms(2) by (auto simp: stored_def scene_wf_def intro!: exI [of _ "[]"])
next
  case (step y z)
  then show ?case using stored_step by blast
qed

lemma fresh_unapplied: "concat (map unapplied (fresh_tasks reqs)) = map fst (concat (map task_batch (fresh_tasks reqs)))"
  by (induction reqs) (auto simp: fresh_tasks_def emit_task_def split: sum.splits)

lemma fresh_batches:
  "ps \<in> set (concat (map unapplied (fresh_tasks reqs))) \<Longrightarrow>
    \<exists>r \<in> set reqs. ps = map (\<lambda>(path, v). patch_new path v) (fst r)"
  by (force simp: fresh_tasks_def emit_task_def parse_patches_Inr split: sum.splits if_splits)

text \<open>Any two requests write different leaves, or are the same batch.\<close>

definition disjoint_requests :: "((string \<times> json) list \<times> Cause option) list \<Rightarrow> bool" where
  "disjoint_requests reqs \<longleftrightarrow>
     (\<forall>x \<in> set reqs. \<forall>y \<in> set reqs. fst x = fst y \<or> fst ` set (fst x) \<inter> fst ` set (fst y) = {})"

lemma requests_commute:
  assumes "disjoint_requests reqs" "a \<in> set (concat (map unapplied (fresh_tasks reqs)))"
    "b \<in> set (concat (map unapplied (fresh_tasks reqs)))"
  shows "write_batch a \<circ> write_batch b = write_batch b \<circ> write_batch a"
proof -
  obtain x y where xy: "x \<in> set reqs" "a = map (\<lambda>(path, v). patch_new path v) (fst x)"
      "y \<in> set reqs" "b = map (\<lambda>(path, v). patch_new path v) (fst y)"
    using fresh_batches [OF assms(2)] fresh_batches [OF assms(3)] by metis
  then have "fst x = fst y \<or> fst ` set (fst x) \<inter> fst ` set (fst y) = {}"
    using assms(1) unfolding disjoint_requests_def by blast
  moreover have "batch_leaves (map (\<lambda>(path, v). patch_new path v) kvs) = fst ` set kvs" for kvs
    by (simp add: batch_leaves_def patch_new_def image_image case_prod_beta)
  ultimately show ?thesis unfolding xy(2,4) by (intro write_batch_commute) metis
qed

text \<open>
  C14. Emissions to different leaves may overlap in any way: once all have run to their end, the deltas
  they sent, applied to the state before in any order at all, give the scene's state. So a subscriber
  ends right whether it takes them in the order they were sent or in the order of their numbers.
\<close>
theorem disjoint_emits_converge:
  assumes "interleaved\<^sup>*\<^sup>* (s, fresh_tasks reqs) (t, ts)" "list_all (\<lambda>x. x = EmitDone) ts"
    "unat (sc_seq s) + length reqs < 2 ^ 64" "scene_wf s" "disjoint_requests reqs"
  shows "\<exists>new. sc_sent t = sc_sent s @ new \<and> (\<forall>ds. mset ds = mset new \<longrightarrow>
    fold (\<lambda>d. bt_insert_all (map (\<lambda>p. (patch_path p, patch_value p)) (dp_patches d))) ds (scene_state s) = scene_state t)"
proof -
  obtain new where new: "sc_sent t = sc_sent s @ new"
    "mset (map (\<lambda>d. (dp_patches d, dp_cause d)) new) = mset (concat (map task_batch (fresh_tasks reqs)))"
    using emits_accounted [OF assms(1-3)] by blast
  obtain app where app: "bt_get (scene_state t) = fold write_batch app (bt_get (scene_state s))"
    "mset app = mset (concat (map unapplied (fresh_tasks reqs)))"
  proof -
    have "concat (map unapplied ts) = []" using assms(2) by (induction ts) auto
    with that stored_reachable [OF assms(1,4)] show ?thesis by (auto simp: stored_def)
  qed
  have "fold (\<lambda>d. bt_insert_all (map (\<lambda>p. (patch_path p, patch_value p)) (dp_patches d))) ds (scene_state s) = scene_state t"
    if ds: "mset ds = mset new" for ds
  proof (rule bt_ext)
    have "mset (map dp_patches ds) = image_mset fst (mset (map (\<lambda>d. (dp_patches d, dp_cause d)) new))"
      using ds by (simp add: multiset.map_comp comp_def)
    also have "\<dots> = mset app" unfolding new(2) app(2) fresh_unapplied by simp
    finally have "fold write_batch app = fold write_batch (map dp_patches ds)"
      using requests_commute [OF assms(5)] mset_eq_setD [OF app(2)] by (intro fold_multiset_equiv) simp_all
    then show "bt_get (fold (\<lambda>d. bt_insert_all (map (\<lambda>p. (patch_path p, patch_value p)) (dp_patches d))) ds (scene_state s))
        = bt_get (scene_state t)"
      by (simp add: fold_deltas_get app(1))
  qed (simp_all add: fold_deltas_wf scene_state_def snapshot_wf)
  with new(1) show ?thesis by blast
qed

theorem disjoint_emits_converge_witness:
  "let t = fst (run_schedule [0, 1, 1, 1, 1, 0, 0, 0]
       (scene_new ''main'' ''v'', fresh_tasks [([(''a'', jnat 0)], None), ([(''b'', JNull)], None)]))
   in map (\<lambda>d. patch_path (hd (dp_patches d))) (sc_sent t) = [''b'', ''a''] \<and>
      fold (\<lambda>d. bt_insert_all (map (\<lambda>p. (patch_path p, patch_value p)) (dp_patches d))) (rev (sc_sent t)) [] = scene_state t"
proof -
  let ?s = "scene_new ''main'' ''v''"
  let ?reqs = "[([(''a'', jnat 0)], None), ([(''b'', JNull)], None)] :: ((string \<times> json) list \<times> Cause option) list"
  let ?x = "run_schedule [0, 1, 1, 1, 1, 0, 0, 0] (?s, fresh_tasks ?reqs)"
  have "leaf_path_parse ''a'' = Inr ''a''" "leaf_path_parse ''b'' = Inr ''b''" by code_simp+
  then have fresh: "fresh_tasks ?reqs = [ToApply [patch_new ''a'' (jnat 0)] None, ToApply [patch_new ''b'' JNull] None]"
    by (simp add: fresh_tasks_def emit_task_def check_leaf_value_def jnat_def)
  have x: "list_all (\<lambda>x. x = EmitDone) (snd ?x)"
    "sc_sent (fst ?x) = [\<lparr>dp_seq = 2, dp_patches = [patch_new ''b'' JNull], dp_cause = None\<rparr>,
       \<lparr>dp_seq = 3, dp_patches = [patch_new ''a'' (jnat 0)], dp_cause = None\<rparr>]"
    by (simp_all add: fresh advance_seq_def Let_def scene_new_def)
  have s: "unat (sc_seq ?s) + length ?reqs < 2 ^ 64" "sc_sent ?s = []" "scene_state ?s = []"
    by (simp_all add: scene_new_def scene_state_def store_snapshot_def store_new_def)
  have run: "interleaved\<^sup>*\<^sup>* (?s, fresh_tasks ?reqs) (fst ?x, snd ?x)"
    unfolding prod.collapse by (rule schedule_reachable)
  have "disjoint_requests ?reqs" by (simp add: disjoint_requests_def)
  then obtain new where "sc_sent (fst ?x) = new" "\<And>ds. mset ds = mset new \<Longrightarrow>
      fold (\<lambda>d. bt_insert_all (map (\<lambda>p. (patch_path p, patch_value p)) (dp_patches d))) ds [] = scene_state (fst ?x)"
    using disjoint_emits_converge [OF run x(1) s(1) scene_wf_new] unfolding s(2,3) append_Nil by blast
  then have "fold (\<lambda>d. bt_insert_all (map (\<lambda>p. (patch_path p, patch_value p)) (dp_patches d))) (rev (sc_sent (fst ?x))) []
      = scene_state (fst ?x)" by simp
  moreover have "map (\<lambda>d. patch_path (hd (dp_patches d))) (sc_sent (fst ?x)) = [''b'', ''a'']"
    unfolding x(2) by (simp add: patch_new_def)
  ultimately show ?thesis unfolding Let_def by (rule conjI [rotated])
qed

section \<open>Two writers of one leaf\<close>

text \<open>The first task writes the store first and takes its number last.\<close>

abbreviation crossed :: "nat list" where
  "crossed \<equiv> [0, 1, 1, 1, 1, 0, 0, 0]"

lemma two_writers:
  fixes k :: string and v w :: json and c1 c2 :: "Cause option"
  assumes "scene_wf s"
  defines "x \<equiv> run_schedule crossed (s, [ToApply [patch_new k v] c1, ToApply [patch_new k w] c2])"
  shows "snd x = [EmitDone, EmitDone]" "sc_seq (fst x) = sc_seq s + 2" "bt_get (scene_state (fst x)) k = Some w"
    "sc_sent (fst x) = sc_sent s @ [\<lparr>dp_seq = sc_seq s + 1, dp_patches = [patch_new k w], dp_cause = c2\<rparr>,
       \<lparr>dp_seq = sc_seq s + 2, dp_patches = [patch_new k v], dp_cause = c1\<rparr>]"
proof -
  have "sc_store (fst x) = store_apply [(k, w)] (store_apply [(k, v)] (sc_store s))"
    by (simp add: x_def advance_seq_def Let_def patch_new_def)
  then show "bt_get (scene_state (fst x)) k = Some w"
    using assms(1) by (simp add: scene_state_def scene_wf_def snapshot_get store_apply_alt get_insert_all)
qed (simp_all add: x_def advance_seq_def Let_def)

text \<open>
  C36. Two emissions that write the same leaf at the same time can leave every subscriber wrong for
  good. The store is written in one order and the numbers are taken in the other: the deltas arrive
  in sequence, so a client that was up to date accepts both and reports nothing, but it ends with
  the value the scene no longer has.
\<close>
theorem overlapping_emits_diverge:
  assumes "json_text_ok P" "scene_wf s" "Suc (Suc (unat (sc_seq s))) < 2 ^ 64" "sc_seq s \<noteq> 0"
    "valid_path k" "\<not> is_object v" "\<not> is_object w" "payload_safe v" "payload_safe w"
    "mg_phase mg = Driving \<lparr>tracker_last = sc_seq s\<rparr>" "client_view (mg_events mg) = scene_state s"
  shows "\<exists>t. interleaved\<^sup>*\<^sup>* (s, [emit_task [(k, v)] None, emit_task [(k, w)] None]) (t, [EmitDone, EmitDone])
    \<and> (let texts = map (\<lambda>d. server_text P (payload_frame d)) (drop (length (sc_sent s)) (sc_sent t));
           mg' = manager_run P scale (map (\<lambda>x. SocketYielded (Some (Inr (CmText x)))) texts) mg
       in mg_phase mg' = Driving \<lparr>tracker_last = sc_seq t\<rparr>
          \<and> bt_get (client_view (mg_events mg')) k = Some v \<and> bt_get (scene_state t) k = Some w)"
proof -
  have tasks: "emit_task [(k, x)] None = ToApply [patch_new k x] None" if "\<not> is_object x" for x
    using assms(5) that by (simp add: emit_task_def check_leaf_value_def)
  let ?x = "run_schedule crossed (s, [emit_task [(k, v)] None, emit_task [(k, w)] None])"
  let ?d1 = "\<lparr>dp_seq = sc_seq s + 1, dp_patches = [patch_new k w], dp_cause = None\<rparr>"
  let ?d2 = "\<lparr>dp_seq = sc_seq s + 2, dp_patches = [patch_new k v], dp_cause = None\<rparr>"
  note x = two_writers [OF assms(2), of k v None w None, folded tasks [OF assms(6)] tasks [OF assms(7)]]
  have n: "unat (sc_seq s + 1) = Suc (unat (sc_seq s))" "unat (sc_seq s + 2) = Suc (Suc (unat (sc_seq s)))"
    using unat_add_one [of "sc_seq s"] unat_add_one [of "sc_seq s + 1"] assms(3) by (simp_all add: add.assoc)
  have "map (unat \<circ> dp_seq) [?d1, ?d2] = [Suc (unat (sc_seq s)) ..< Suc (unat (sc_seq s + 2))]"
    by (simp add: n upt_conv_Cons)
  moreover have "\<forall>d \<in> set [?d1, ?d2]. decode_server P (server_text P (payload_frame d)) = Inr (payload_frame d)"
    using assms(1,5-9) by (auto simp: delta_frame_def patch_new_def patch_wf_def patch_safe_def is_value_legal_def
        intro!: decode_server_text)
  ultimately have "manager_run P scale (map (\<lambda>d. SocketYielded (Some (Inr (CmText (server_text P (payload_frame d)))))) [?d1, ?d2]) mg =
      mg\<lparr>mg_events := mg_events mg @ map payload_event [?d1, ?d2], mg_phase := Driving \<lparr>tracker_last = sc_seq s + 2\<rparr>\<rparr>"
    by (intro drive_deltas [OF assms(10,4)]) (simp_all add: n)
  moreover have "bt_get (client_view (mg_events mg @ map payload_event [?d1, ?d2])) k = Some v"
    using assms(11) by (simp add: client_view_def payload_event_def patch_new_def get_insert_all)
  moreover have "interleaved\<^sup>*\<^sup>* (s, [emit_task [(k, v)] None, emit_task [(k, w)] None]) (fst ?x, [EmitDone, EmitDone])"
    using schedule_reachable [of _ crossed] x(1) by (metis prod.collapse)
  ultimately show ?thesis
    using x by (intro exI [of _ "fst ?x"]) (simp add: Let_def)
qed

theorem overlapping_emits_diverge_witness:
  "\<exists>t. interleaved\<^sup>*\<^sup>* (scene_new ''main'' ''v'', [emit_task [(''a'', jnat 0)] None, emit_task [(''a'', JNull)] None])
      (t, [EmitDone, EmitDone]) \<and> bt_get (scene_state t) ''a'' = Some JNull"
proof -
  let ?mg = "\<lparr>mg_state = sample_manager_state, mg_phase = Driving \<lparr>tracker_last = 1\<rparr>, mg_events = [], mg_replies = []\<rparr>"
  have "is_ok (validate_path ''a'')" by code_simp
  then have "valid_path ''a''" by (simp only: validate_path_ok)
  moreover have "payload_safe (jnat 0)" "payload_safe JNull"
    by (simp_all add: payload_safe_def safe_at_def jnat_def)
  moreover have "scene_state (scene_new ''main'' ''v'') = []"
    by (simp add: scene_state_def scene_new_def store_snapshot_def store_new_def)
  ultimately show ?thesis
    using overlapping_emits_diverge [OF sample_json_text_ok scene_wf_new [of "''main''" "''v''"],
        of "''a''" "jnat 0" JNull ?mg "\<lambda>b. b"]
    by (auto simp: scene_new_def jnat_def client_view_def Let_def)
qed

section \<open>Deltas out of order\<close>

text \<open>The first task takes its number first and broadcasts last.\<close>

abbreviation overtaken :: "nat list" where
  "overtaken \<equiv> [0, 0, 1, 1, 1, 1, 0, 0]"

lemma overtaken_writers:
  fixes s :: Scene and p q :: Patch and c1 c2 :: "Cause option"
  defines "x \<equiv> run_schedule overtaken (s, [ToApply [p] c1, ToApply [q] c2])"
  shows "snd x = [EmitDone, EmitDone]"
    "sc_sent (fst x) = sc_sent s @ [\<lparr>dp_seq = sc_seq s + 2, dp_patches = [q], dp_cause = c2\<rparr>,
       \<lparr>dp_seq = sc_seq s + 1, dp_patches = [p], dp_cause = c1\<rparr>]"
    "sc_replay (fst x) = replay_push \<lparr>rec_seq = sc_seq s + 1, rec_patches = [p], rec_cause = c1\<rparr>
       (replay_push \<lparr>rec_seq = sc_seq s + 2, rec_patches = [q], rec_cause = c2\<rparr> (sc_replay s))"
  by (simp_all add: x_def advance_seq_def Let_def add.commute)

text \<open>
  Two overlapping emissions can be broadcast and recorded in the order opposite to their numbers,
  whatever leaves they write. A client that was up to date takes the first for a gap and reconnects;
  one that resumes from before them is told by the replay buffer of a fresh scene that it is not
  covered, although the buffer holds both records.
\<close>
theorem overlapping_emits_reorder:
  assumes "json_text_ok P" "scene_wf s" "Suc (Suc (unat (sc_seq s))) < 2 ^ 64" "sc_seq s \<noteq> 0"
    "valid_path k" "\<not> is_object v" "valid_path l" "\<not> is_object w" "payload_safe w"
    "mg_phase mg = Driving \<lparr>tracker_last = sc_seq s\<rparr>"
  shows "\<exists>t first second. interleaved\<^sup>*\<^sup>* (s, [emit_task [(k, v)] None, emit_task [(l, w)] None]) (t, [EmitDone, EmitDone])
    \<and> sc_sent t = sc_sent s @ [first, second] \<and> unat (dp_seq first) = Suc (unat (dp_seq second))
    \<and> manager_step P scale (SocketYielded (Some (Inr (CmText (server_text P (payload_frame first)))))) mg = start_attempt 1 mg
    \<and> (rb_records (sc_replay s) = [] \<longrightarrow> 1 < rb_cap (sc_replay s) \<longrightarrow>
        length (rb_records (sc_replay t)) = 2 \<and> \<not> slice_covered (scene_replay_since (sc_seq s) t))"
proof -
  have tasks: "emit_task [(k, v)] None = ToApply [patch_new k v] None" "emit_task [(l, w)] None = ToApply [patch_new l w] None"
    using assms(5-8) by (simp_all add: emit_task_def check_leaf_value_def)
  let ?x = "run_schedule overtaken (s, [emit_task [(k, v)] None, emit_task [(l, w)] None])"
  let ?d1 = "\<lparr>dp_seq = sc_seq s + 2, dp_patches = [patch_new l w], dp_cause = None\<rparr>"
  let ?d2 = "\<lparr>dp_seq = sc_seq s + 1, dp_patches = [patch_new k v], dp_cause = None\<rparr>"
  note x = overtaken_writers [of s "patch_new k v" None "patch_new l w" None, folded tasks]
  have n: "unat (sc_seq s + 1) = Suc (unat (sc_seq s))" "unat (sc_seq s + 2) = Suc (Suc (unat (sc_seq s)))"
    using unat_add_one [of "sc_seq s"] unat_add_one [of "sc_seq s + 1"] assms(3) by (simp_all add: add.assoc)
  have "decode_server P (server_text P (payload_frame ?d1)) = Inr (payload_frame ?d1)"
    using assms(1,7-9) by (auto simp: delta_frame_def patch_new_def patch_wf_def patch_safe_def is_value_legal_def
        intro!: decode_server_text)
  moreover have "handle_frame (payload_frame ?d1) \<lparr>tracker_last = sc_seq s\<rparr> evs = (Inl Gap, \<lparr>tracker_last = sc_seq s\<rparr>, evs)" for evs
    using assms(4) by (simp add: handle_frame_def delta_frame_def observe_seq_cases n)
  ultimately have "manager_step P scale (SocketYielded (Some (Inr (CmText (server_text P (payload_frame ?d1)))))) mg = start_attempt 1 mg"
    using assms(10) by (simp add: manager_step_def on_drive_socket_def)
  moreover have "length (rb_records (sc_replay (fst ?x))) = 2 \<and> \<not> slice_covered (scene_replay_since (sc_seq s) (fst ?x))"
    if "rb_records (sc_replay s) = []" "1 < rb_cap (sc_replay s)"
    unfolding scene_replay_since_def x(3)
    using that by (simp add: replay_since_def replay_push_def Let_def word_less_nat_alt n)
  moreover have "interleaved\<^sup>*\<^sup>* (s, [emit_task [(k, v)] None, emit_task [(l, w)] None]) (fst ?x, [EmitDone, EmitDone])"
    using schedule_reachable [of _ overtaken] x(1) by (metis prod.collapse)
  ultimately show ?thesis
    using x(2) by (intro exI [of _ "fst ?x"] exI [of _ ?d1] exI [of _ ?d2]) (simp add: n)
qed

theorem overlapping_emits_reorder_witness:
  "\<exists>t first second. interleaved\<^sup>*\<^sup>* (scene_new ''main'' ''v'', [emit_task [(''a'', jnat 0)] None, emit_task [(''b'', JNull)] None])
      (t, [EmitDone, EmitDone]) \<and> sc_sent t = [first, second] \<and> unat (dp_seq first) = Suc (unat (dp_seq second))
    \<and> \<not> slice_covered (scene_replay_since 1 t)"
proof -
  let ?mg = "\<lparr>mg_state = sample_manager_state, mg_phase = Driving \<lparr>tracker_last = 1\<rparr>, mg_events = [], mg_replies = []\<rparr>"
  have "is_ok (validate_path ''a'')" "is_ok (validate_path ''b'')" by code_simp+
  then have "valid_path ''a''" "valid_path ''b''" by (simp_all only: validate_path_ok)
  moreover have "payload_safe JNull" by (simp add: payload_safe_def safe_at_def)
  ultimately show ?thesis
    using overlapping_emits_reorder [OF sample_json_text_ok scene_wf_new [of "''main''" "''v''"], of "''a''" "jnat 0" "''b''" JNull ?mg "\<lambda>b. b"]
    by (auto simp: scene_new_def replay_new_def DEFAULT_REPLAY_BUFFER_SIZE_def jnat_def)
qed

end
