(* ===== verification/Joining.thy ===== *)
theory Joining
  imports Interleaving "HOL-Library.Sublist"
begin

text \<open>
  A subscriber that joins a scene while a writer is emitting. The connection handler takes separate
  looks at the scene: it subscribes to the broadcast channel, then reads the replay buffer when the
  client resumes, or else the counter and the state for a snapshot. On a \<open>subscribe\<close> frame it does so in
  this order; on a scene swap it subscribes last. The writer's emissions are taken apart into their
  locked steps, so each look can fall between any two of them.
\<close>

section \<open>The broadcast receiver\<close>

text \<open>A receiver yields what is sent after it was created, in order; it is its position in the channel.\<close>

definition scene_subscribe :: "Scene \<Rightarrow> nat" where
  "scene_subscribe s = length (sc_sent s)"

definition rx_pending :: "nat \<Rightarrow> Scene \<Rightarrow> DeltaPayload list" where
  "rx_pending rx s = drop rx (sc_sent s)"

section \<open>The looks of a handler\<close>

datatype JoinAction = JoinSubscribe | JoinCheckSince u64 | JoinReadReplay u64 | JoinReadSeq | JoinReadState

record Joiner =
  jn_rx :: nat
  jn_replayed :: "ReplayRecord list option"
  jn_seq :: u64
  jn_state :: State

definition joiner_init :: Joiner where
  "joiner_init = \<lparr>jn_rx = 0, jn_replayed = None, jn_seq = 0, jn_state = []\<rparr>"

text \<open>
  \<open>run\<close> subscribes and then replays what \<open>since_sequence\<close> asks for or calls \<open>send_snapshot\<close>; the swap calls
  \<open>send_snapshot\<close> and then subscribes.
\<close>

definition snapshot_looks :: "JoinAction list" where
  "snapshot_looks = [JoinReadSeq, JoinReadState]"

definition handshake_order :: "u64 option \<Rightarrow> JoinAction list" where
  "handshake_order since = JoinSubscribe # (case since of None \<Rightarrow> snapshot_looks | Some n \<Rightarrow> [JoinCheckSince n])"

definition swap_order :: "JoinAction list" where
  "swap_order = snapshot_looks @ [JoinSubscribe]"

text \<open>A look, with the looks that are left after it.\<close>

fun join_look :: "JoinAction \<Rightarrow> Scene \<Rightarrow> JoinAction list \<times> Joiner \<Rightarrow> JoinAction list \<times> Joiner" where
  "join_look JoinSubscribe s (todo, j) = (todo, j\<lparr>jn_rx := scene_subscribe s\<rparr>)"
| "join_look (JoinCheckSince n) s (todo, j) =
     (if 0 < n \<and> n \<le> current_seq s then (JoinReadReplay n # todo, j) else (snapshot_looks @ todo, j))"
| "join_look (JoinReadReplay n) s (todo, j) =
     (let slice = scene_replay_since n s in
      if slice_covered slice then (todo, j\<lparr>jn_replayed := Some (slice_records slice)\<rparr>)
      else (snapshot_looks @ todo, j))"
| "join_look JoinReadSeq s (todo, j) = (todo, j\<lparr>jn_seq := current_seq s\<rparr>)"
| "join_look JoinReadState s (todo, j) = (todo, j\<lparr>jn_state := scene_state s\<rparr>)"

definition join_snapshot :: "Env \<Rightarrow> Scene \<Rightarrow> Joiner \<Rightarrow> ServerFrame" where
  "join_snapshot env s j = FSnapshot \<lparr>snapshot_seq = jn_seq j, snapshot_scene_id = sc_id s,
     snapshot_scene_version = sc_version s, snapshot_state = jn_state j, snapshot_ts = Some (now_iso env)\<rparr>"

lemma send_records_out:
  "cn_budget (snd w) = None \<Longrightarrow> snd (send_records P rs w) = (fst w, (snd w)\<lparr>cn_out := cn_out (snd w)
     @ map (\<lambda>r. MText (server_text P (delta_frame (rec_seq r) (rec_patches r) (rec_cause r)))) rs\<rparr>)"
proof (induction rs arbitrary: w)
  case (Cons r rs)
  then show ?case by (simp add: send_delta_def ws_send_unbounded)
qed simp

text \<open>What the handler writes first: the replayed records, or the snapshot.\<close>

definition join_frames :: "Env \<Rightarrow> Scene \<Rightarrow> Joiner \<Rightarrow> ServerFrame list" where
  "join_frames env s j = (case jn_replayed j of
      Some recs \<Rightarrow> map (\<lambda>r. delta_frame (rec_seq r) (rec_patches r) (rec_cause r)) recs
    | None \<Rightarrow> [join_snapshot env s j])"

fun take_looks :: "nat \<Rightarrow> Scene \<Rightarrow> JoinAction list \<times> Joiner \<Rightarrow> JoinAction list \<times> Joiner" where
  "take_looks 0 s x = x"
| "take_looks (Suc k) s ([], j) = ([], j)"
| "take_looks (Suc k) s (a # todo, j) = take_looks k s (join_look a s (todo, j))"

text \<open>Taken without interruption, the looks are \<open>send_initial\<close>: the frames written are the same.\<close>

lemma join_alone:
  fixes w P env r and sub :: Subscribe
  assumes "cn_budget (snd w) = None"
  defines "x \<equiv> take_looks 5 (scene_at (fst w) r) (handshake_order (subscribe_since_sequence sub), joiner_init)"
  shows "fst x = []"
    "snd (send_initial P env sub r w) = (fst w, (snd w)\<lparr>cn_out := cn_out (snd w)
       @ map (\<lambda>f. MText (server_text P f)) (join_frames env (scene_at (fst w) r) (snd x))\<rparr>)"
proof -
  have five: "(5 :: nat) = Suc (Suc (Suc (Suc (Suc 0))))" by simp
  show "fst x = []"
    by (simp add: x_def five handshake_order_def snapshot_looks_def Let_def split: option.splits)
  show "snd (send_initial P env sub r w) = (fst w, (snd w)\<lparr>cn_out := cn_out (snd w)
      @ map (\<lambda>f. MText (server_text P f)) (join_frames env (scene_at (fst w) r) (snd x))\<rparr>)"
    using send_records_out [OF assms(1)] assms(1)
    by (simp add: x_def five handshake_order_def snapshot_looks_def Let_def send_initial_def send_snapshot_def ws_send_unbounded
        join_frames_def joiner_init_def join_snapshot_def snapshot_frame_def comp_def split: option.splits)
qed

section \<open>One writer, one joiner\<close>

type_synonym request = "(string \<times> json) list \<times> Cause option"

text \<open>The scene, the writer's emission in progress and its further requests, the looks left, what was seen.\<close>

type_synonym race = "Scene \<times> EmitTask \<times> request list \<times> JoinAction list \<times> Joiner"

inductive join_race :: "race \<Rightarrow> race \<Rightarrow> bool" where
  writer_step: "t \<noteq> EmitDone \<Longrightarrow> emit_micro t s = (t', s') \<Longrightarrow>
    join_race (s, t, reqs, todo, j) (s', t', reqs, todo, j)"
| writer_next: "join_race (s, EmitDone, (ps, c) # reqs, todo, j) (s, emit_task ps c, reqs, todo, j)"
| joiner_look: "join_look a s (todo, j) = (todo', j') \<Longrightarrow>
    join_race (s, t, reqs, a # todo, j) (s, t, reqs, todo', j')"

text \<open>A scheduler: at each turn the writer (\<open>True\<close>) or the joiner moves, if it can.\<close>

fun race_turn :: "bool \<Rightarrow> race \<Rightarrow> race" where
  "race_turn writer (s, t, reqs, todo, j) =
     (if writer \<and> t \<noteq> EmitDone then (let (t', s') = emit_micro t s in (s', t', reqs, todo, j))
      else if writer then (case reqs of
          [] \<Rightarrow> (s, t, reqs, todo, j)
        | (ps, c) # reqs' \<Rightarrow> (s, emit_task ps c, reqs', todo, j))
      else (case todo of
          [] \<Rightarrow> (s, t, reqs, todo, j)
        | a # rest \<Rightarrow> (let (todo', j') = join_look a s (rest, j) in (s, t, reqs, todo', j'))))"

lemma look_race: "join_race (s, t, reqs, a # todo, j) (s, t, reqs, join_look a s (todo, j))"
  by (cases "join_look a s (todo, j)") (simp add: joiner_look)

lemma race_turn_step: "join_race\<^sup>*\<^sup>* x (race_turn b x)"
  by (cases x) (auto split: list.splits prod.splits intro: join_race.intros look_race)

lemma races_reachable: "join_race\<^sup>*\<^sup>* x (fold race_turn bs x)"
proof (induction bs arbitrary: x)
  case (Cons b bs)
  then show ?case using race_turn_step [of x b] by (simp add: rtranclp_trans)
qed simp

text \<open>The race always ends: every step takes from what is left to do, and only a finished race has no step.\<close>

fun task_left :: "EmitTask \<Rightarrow> nat" where
  "task_left (ToApply _ _) = 4"
| "task_left (ToNumber _ _) = 3"
| "task_left (ToRecord _ _ _) = 2"
| "task_left (ToSend _ _ _) = 1"
| "task_left EmitDone = 0"

fun look_left :: "JoinAction \<Rightarrow> nat" where
  "look_left (JoinCheckSince _) = 4"
| "look_left (JoinReadReplay _) = 3"
| "look_left _ = 1"

definition race_left :: "race \<Rightarrow> nat" where
  "race_left = (\<lambda>(s, t, reqs, todo, j). task_left t + 5 * length reqs + sum_list (map look_left todo))"

lemma join_race_decreases: "join_race x y \<Longrightarrow> race_left y < race_left x"
proof (induction rule: join_race.induct)
  case (writer_step t s t' s' reqs todo j)
  then show ?case by (cases t) (auto simp: race_left_def advance_seq_def Let_def)
next
  case (writer_next s ps c reqs todo j)
  then show ?case by (cases "emit_task ps c") (auto simp: race_left_def)
next
  case (joiner_look a s todo j todo' j' t reqs)
  then show ?case by (cases a) (auto simp: race_left_def snapshot_looks_def Let_def split: if_splits)
qed

lemma join_race_wf: "wfp join_race\<inverse>\<inverse>"
  using join_race_decreases by (intro wfp_if_convertible_to_nat [where f = race_left]) simp

lemma join_race_stuck: "(\<nexists>y. join_race x y) \<longleftrightarrow> (\<exists>s j. x = (s, EmitDone, [], [], j))"
proof -
  obtain s t reqs todo j where x: "x = (s, t, reqs, todo, j)" by (cases x) auto
  have "\<exists>y. join_race x y" if "t \<noteq> EmitDone" using that join_race.writer_step x by (metis surj_pair)
  moreover have "\<exists>y. join_race x y" if "t = EmitDone" "reqs \<noteq> []"
    using that join_race.writer_next x by (cases reqs) (auto, blast)
  moreover have "\<exists>y. join_race x y" if "todo \<noteq> []" using that look_race x by (cases todo) blast+
  moreover have "\<not> join_race (s, EmitDone, [], [], j) y" for y by (auto elim: join_race.cases)
  ultimately show ?thesis using x by blast
qed

lemma race_finishes: "\<exists>t j. join_race\<^sup>*\<^sup>* x (t, EmitDone, [], [], j)"
  using join_race_wf
proof (induction x rule: wfp_induct_rule)
  case (less x)
  show ?case
  proof (cases "\<exists>y. join_race x y")
    case True
    then obtain y where y: "join_race x y" by blast
    with less obtain t j where "join_race\<^sup>*\<^sup>* y (t, EmitDone, [], [], j)" by blast
    with y show ?thesis by (meson converse_rtranclp_into_rtranclp)
  next
    case False
    with join_race_stuck [of x] show ?thesis by blast
  qed
qed

section \<open>An emission in progress\<close>

text \<open>
  A writer in the middle of an emission is a scene between two histories: \<open>begun\<close> is the record the
  store already holds and the channel does not have yet, \<open>mid_scene\<close> what became of the last scene
  with no emission under way.
\<close>

fun begun :: "EmitTask \<Rightarrow> Scene \<Rightarrow> ReplayRecord list" where
  "begun (ToNumber ps c) u = [next_record ps c u]"
| "begun (ToRecord _ ps c) u = [next_record ps c u]"
| "begun (ToSend _ ps c) u = [next_record ps c u]"
| "begun _ u = []"

fun mid_scene :: "EmitTask \<Rightarrow> Scene \<Rightarrow> Scene" where
  "mid_scene (ToNumber ps c) u = u\<lparr>sc_store := store_apply (record_updates (next_record ps c u)) (sc_store u)\<rparr>"
| "mid_scene (ToRecord _ ps c) u = u\<lparr>sc_store := store_apply (record_updates (next_record ps c u)) (sc_store u),
     sc_seq := sc_seq u + 1\<rparr>"
| "mid_scene (ToSend _ ps c) u = u\<lparr>sc_store := store_apply (record_updates (next_record ps c u)) (sc_store u),
     sc_seq := sc_seq u + 1, sc_replay := replay_push (next_record ps c u) (sc_replay u)\<rparr>"
| "mid_scene _ u = u"

fun task_for :: "EmitTask \<Rightarrow> Scene \<Rightarrow> bool" where
  "task_for EmitDone u = True"
| "task_for (ToApply ps c) u = record_legal (next_record ps c u)"
| "task_for (ToNumber ps c) u = record_legal (next_record ps c u)"
| "task_for (ToRecord n ps c) u = (n = sc_seq u + 1 \<and> record_legal (next_record ps c u))"
| "task_for (ToSend n ps c) u = (n = sc_seq u + 1 \<and> record_legal (next_record ps c u))"

lemma task_for_fresh: "task_for (emit_task ps c) u" "begun (emit_task ps c) u = []" "mid_scene (emit_task ps c) u = u"
  by (auto simp: emit_task_def parse_patches_Inr record_legal_def next_record_def patch_new_def
      is_value_legal_def list_all_iff split: sum.splits)

text \<open>A step of the writer stays within the same emission, or completes it.\<close>

lemma emit_micro_mid:
  assumes "task_for t u" "t \<noteq> EmitDone" "emit_micro t (mid_scene t u) = (t', s')"
  obtains (within) "task_for t' u" "s' = mid_scene t' u" "prefix (begun t u) (begun t' u)" "t' \<noteq> EmitDone"
  | (done_) ps c where "t' = EmitDone" "begun t u = [next_record ps c u]" "s' = commit (next_record ps c u) u"
      "record_legal (next_record ps c u)"
proof (cases t)
  case (ToApply ps c)
  with assms have "t' = ToNumber ps c" "s' = mid_scene t' u" by (auto simp: record_updates_def next_record_def)
  with ToApply assms(1) show ?thesis by (intro within) simp_all
next
  case (ToNumber ps c)
  with assms have "t' = ToRecord (sc_seq u + 1) ps c" "s' = mid_scene t' u"
    by (auto simp: advance_seq_def Let_def)
  with ToNumber assms(1) show ?thesis by (intro within) simp_all
next
  case (ToRecord n ps c)
  with assms have "t' = ToSend n ps c" "s' = mid_scene t' u" by (auto simp: next_record_def)
  with ToRecord assms(1) show ?thesis by (intro within) simp_all
next
  case (ToSend n ps c)
  with assms have "t' = EmitDone" "s' = commit (next_record ps c u) u"
    by (auto simp: commit_def payload_def next_record_def)
  with ToSend assms(1) show ?thesis by (intro done_) auto
qed (use assms(2) in simp)

text \<open>What the store, the counter and the channel show of an emission in progress.\<close>

lemma mid_scene_shows:
  assumes "history s0 log u" "task_for t u" "Suc (unat (sc_seq u)) < 2 ^ 64"
  shows "scene_subscribe (mid_scene t u) = length (sc_sent s0) + length log"
    "scene_state (mid_scene t u) = fold apply_record (log @ begun t u) (scene_state s0)"
    "\<exists>b. unat (sc_seq (mid_scene t u)) = unat (sc_seq s0) + b \<and> length log \<le> b \<and> b \<le> length (log @ begun t u)"
proof -
  have u: "hm_wf (sc_store u)" "scene_state u = fold apply_record log (scene_state s0)"
    "unat (sc_seq u) = unat (sc_seq s0) + length log" "sc_sent u = sc_sent s0 @ map payload log"
    using assms(1) by (simp_all add: history_def scene_wf_def)
  show "scene_subscribe (mid_scene t u) = length (sc_sent s0) + length log"
    using u(4) by (cases t) (simp_all add: scene_subscribe_def)
  show "scene_state (mid_scene t u) = fold apply_record (log @ begun t u) (scene_state s0)"
    using u(1,2) by (cases t) (simp_all add: apply_record_def scene_state_def snapshot_apply)
  show "\<exists>b. unat (sc_seq (mid_scene t u)) = unat (sc_seq s0) + b \<and> length log \<le> b \<and> b \<le> length (log @ begun t u)"
    using u(3) assms(3) by (cases t) (auto simp: unat_add_one)
qed

text \<open>The ring holds a prefix of what the store holds: all that the channel has, or all of it.\<close>

lemma mid_scene_replay:
  assumes "history s0 log u" "task_for t u" "Suc (unat (sc_seq u)) < 2 ^ 64" "scene_wf s0"
    "slice_covered (scene_replay_since (sc_seq s0) (mid_scene t u))"
  shows "\<exists>b. slice_records (scene_replay_since (sc_seq s0) (mid_scene t u)) = take b (log @ begun t u)
    \<and> length log \<le> b \<and> b \<le> length (log @ begun t u)"
proof -
  have room: "Suc (unat (sc_seq s0)) < 2 ^ 64" using assms(1,3) by (simp add: history_def)
  have "\<exists>b v. history s0 (take b (log @ begun t u)) v \<and> sc_replay v = sc_replay (mid_scene t u)
    \<and> length log \<le> b \<and> b \<le> length (log @ begun t u)"
  proof (cases t)
    case (ToSend n ps c)
    have "history s0 (log @ [next_record ps c u]) (commit (next_record ps c u) u)"
      using assms(2,3) ToSend by (intro history_commit [OF assms(1)]) (simp_all add: next_record_def)
    then show ?thesis
      using ToSend by (intro exI [of _ "Suc (length log)"] exI [of _ "commit (next_record ps c u) u"]) (simp add: commit_def)
  qed (use assms(1) in \<open>auto intro!: exI [of _ "length log"] exI [of _ u]\<close>)
  then obtain b v where v: "history s0 (take b (log @ begun t u)) v" "sc_replay v = sc_replay (mid_scene t u)"
    "length log \<le> b" "b \<le> length (log @ begun t u)" by blast
  then show ?thesis
    using history_replay_since [OF assms(4) v(1) room] assms(5) by (auto simp: scene_replay_since_def intro!: exI [of _ b])
qed

section \<open>What the joiner knows\<close>

text \<open>
  With the handshake's order: the receiver starts at the \<open>a\<close>-th record since \<open>s0\<close>; the snapshot is
  numbered after the \<open>b\<close>-th and holds the first \<open>c\<close>, and \<open>a \<le> b \<le> c\<close>; the replay holds the first \<open>b\<close>.
  \<open>m\<close> records are in the channel, \<open>recs\<close> in the store. A client that resumes was up to date at \<open>s0\<close>.
\<close>

definition subscribed_at :: "Scene \<Rightarrow> nat \<Rightarrow> nat \<Rightarrow> Joiner \<Rightarrow> bool" where
  "subscribed_at s0 m a j \<longleftrightarrow> jn_rx j = length (sc_sent s0) + a \<and> a \<le> m"

definition replayed_at :: "ReplayRecord list \<Rightarrow> nat \<Rightarrow> nat \<Rightarrow> Joiner \<Rightarrow> bool" where
  "replayed_at recs a b j \<longleftrightarrow> jn_replayed j = Some (take b recs) \<and> a \<le> b \<and> b \<le> length recs"

definition numbered_at :: "Scene \<Rightarrow> ReplayRecord list \<Rightarrow> nat \<Rightarrow> nat \<Rightarrow> Joiner \<Rightarrow> bool" where
  "numbered_at s0 recs a b j \<longleftrightarrow> unat (jn_seq j) = unat (sc_seq s0) + b \<and> a \<le> b \<and> b \<le> length recs"

definition stated_at :: "Scene \<Rightarrow> ReplayRecord list \<Rightarrow> nat \<Rightarrow> nat \<Rightarrow> Joiner \<Rightarrow> bool" where
  "stated_at s0 recs b c j \<longleftrightarrow> jn_state j = fold apply_record (take c recs) (scene_state s0)
     \<and> b \<le> c \<and> c \<le> length recs"

inductive knows :: "Scene \<Rightarrow> nat \<Rightarrow> ReplayRecord list \<Rightarrow> JoinAction list \<Rightarrow> Joiner \<Rightarrow> bool" for s0 m recs where
  at_start: "since = None \<or> since = Some (sc_seq s0) \<Longrightarrow> jn_replayed j = None \<Longrightarrow> knows s0 m recs (handshake_order since) j"
| at_resume: "subscribed_at s0 m a j \<Longrightarrow> jn_replayed j = None \<Longrightarrow>
    todo = [JoinCheckSince (sc_seq s0)] \<or> todo = [JoinReadReplay (sc_seq s0)] \<Longrightarrow> knows s0 m recs todo j"
| at_snapshot: "subscribed_at s0 m a j \<Longrightarrow> jn_replayed j = None \<Longrightarrow> knows s0 m recs snapshot_looks j"
| at_state: "subscribed_at s0 m a j \<Longrightarrow> jn_replayed j = None \<Longrightarrow> numbered_at s0 recs a b j \<Longrightarrow>
    knows s0 m recs [JoinReadState] j"
| with_snapshot: "subscribed_at s0 m a j \<Longrightarrow> jn_replayed j = None \<Longrightarrow> numbered_at s0 recs a b j \<Longrightarrow>
    stated_at s0 recs b c j \<Longrightarrow> knows s0 m recs [] j"
| with_replay: "subscribed_at s0 m a j \<Longrightarrow> replayed_at recs a b j \<Longrightarrow> knows s0 m recs [] j"

lemmas at_defs = subscribed_at_def replayed_at_def numbered_at_def stated_at_def

lemma knows_mono:
  assumes "knows s0 m recs todo j" "m \<le> m'" "prefix recs recs'"
  shows "knows s0 m' recs' todo j"
proof -
  obtain rest where recs': "recs' = recs @ rest" using assms(3) by (auto elim: prefixE)
  have "subscribed_at s0 m a j \<Longrightarrow> subscribed_at s0 m' a j" "replayed_at recs a b j \<Longrightarrow> replayed_at recs' a b j"
    "numbered_at s0 recs a b j \<Longrightarrow> numbered_at s0 recs' a b j"
    "stated_at s0 recs b c j \<Longrightarrow> stated_at s0 recs' b c j" for a b c
    using assms(2) by (auto simp: at_defs recs')
  with assms(1) show ?thesis by (cases rule: knows.cases) (metis knows.intros)+
qed

text \<open>Each look adds to what is known, whatever the writer is doing; first the looks of a resumption.\<close>

lemma knows_resume:
  assumes "subscribed_at s0 (length log) i j" "jn_replayed j = None"
    "a = JoinCheckSince (sc_seq s0) \<or> a = JoinReadReplay (sc_seq s0)" "join_look a (mid_scene t u) ([], j) = (todo', j')"
    "history s0 log u" "task_for t u" "Suc (unat (sc_seq u)) < 2 ^ 64" "scene_wf s0"
  shows "knows s0 (length log) (log @ begun t u) todo' j'"
proof (cases "a = JoinReadReplay (sc_seq s0) \<and> slice_covered (scene_replay_since (sc_seq s0) (mid_scene t u))")
  case True
  then obtain b where "slice_records (scene_replay_since (sc_seq s0) (mid_scene t u)) = take b (log @ begun t u)"
    "length log \<le> b" "b \<le> length (log @ begun t u)" using mid_scene_replay [OF assms(5-8)] by blast
  with True assms(1,4) have "replayed_at (log @ begun t u) i b j'" "subscribed_at s0 (length log) i j'" "todo' = []"
    by (auto simp: Let_def replayed_at_def subscribed_at_def)
  then show ?thesis by (auto intro: with_replay)
next
  case False
  with assms(1-4) show ?thesis
    by (auto simp: Let_def split: if_splits intro: knows.at_resume knows.at_snapshot)
qed

lemma knows_look:
  assumes "knows s0 (length log) (log @ begun t u) (a # todo) j" "join_look a (mid_scene t u) (todo, j) = (todo', j')"
    "history s0 log u" "task_for t u" "Suc (unat (sc_seq u)) < 2 ^ 64" "scene_wf s0"
  shows "knows s0 (length log) (log @ begun t u) todo' j'"
proof -
  note mid = mid_scene_shows [OF assms(3-5)]
  from assms(1) show ?thesis
  proof (cases rule: knows.cases)
    case (at_start since)
    then have "subscribed_at s0 (length log) (length log) j'" "jn_replayed j' = None"
      "todo' = snapshot_looks \<or> todo' = [JoinCheckSince (sc_seq s0)]"
      using assms(2) mid(1) by (auto simp: handshake_order_def subscribed_at_def split: option.splits)
    then show ?thesis by (auto intro: at_snapshot at_resume)
  next
    case (at_resume i)
    with assms(2) show ?thesis by (intro knows_resume [OF _ _ _ _ assms(3-6)]) auto
  next
    case (at_snapshot i)
    then obtain b where "numbered_at s0 (log @ begun t u) i b j'" "subscribed_at s0 (length log) i j'" "jn_replayed j' = None"
      "todo' = [JoinReadState]"
      using assms(2) mid(3) by (auto simp: snapshot_looks_def numbered_at_def subscribed_at_def current_seq_def)
    then show ?thesis by (auto intro: at_state)
  next
    case (at_state i b)
    then have "stated_at s0 (log @ begun t u) b (length (log @ begun t u)) j'" "numbered_at s0 (log @ begun t u) i b j'"
      "subscribed_at s0 (length log) i j'" "jn_replayed j' = None" "todo' = []"
      using assms(2) mid(2) by (auto simp: at_defs)
    then show ?thesis by (auto intro: with_snapshot)
  qed
qed

definition race_inv :: "Scene \<Rightarrow> nat \<Rightarrow> race \<Rightarrow> bool" where
  "race_inv s0 n x \<longleftrightarrow> (case x of (s, t, reqs, todo, j) \<Rightarrow>
     \<exists>log u. history s0 log u \<and> task_for t u \<and> s = mid_scene t u
       \<and> length log + length (task_batch t) + length reqs \<le> n
       \<and> knows s0 (length log) (log @ begun t u) todo j)"

lemma race_inv_step:
  assumes "join_race x y" "race_inv s0 n x" "Suc (unat (sc_seq s0) + n) < 2 ^ 64" "scene_wf s0"
  shows "race_inv s0 n y"
  using assms(1)
proof (cases rule: join_race.cases)
  case (writer_step t s t' s' reqs todo j)
  obtain log u where u: "history s0 log u" "task_for t u" "s = mid_scene t u"
    "length log + length (task_batch t) + length reqs \<le> n" "knows s0 (length log) (log @ begun t u) todo j"
    using assms(2) by (auto simp: race_inv_def writer_step(1))
  have micro: "emit_micro t (mid_scene t u) = (t', s')" using writer_step(4) u(3) by simp
  from u(2) writer_step(3) micro show ?thesis
  proof (cases rule: emit_micro_mid)
    case within
    have "length (task_batch t') = length (task_batch t)"
      using writer_step(3,4) within(4) by (cases t) (auto simp: advance_seq_def Let_def)
    with u within knows_mono [OF u(5) order_refl, of "log @ begun t' u"] show ?thesis
      by (auto simp: race_inv_def writer_step(2))
  next
    case (done_ ps c)
    have batch: "length (task_batch t) = 1" using writer_step(3) by (cases t) auto
    have "Suc (unat (sc_seq u)) < 2 ^ 64" using u(1,4) assms(3) by (simp add: history_def)
    then have "history s0 (log @ [next_record ps c u]) s'"
      unfolding done_(3) using u(1) done_(4) by (intro history_commit) (simp_all add: next_record_def)
    moreover have "knows s0 (Suc (length log)) (log @ [next_record ps c u]) todo j"
      using knows_mono [OF u(5)] done_(2) by simp
    ultimately show ?thesis
      using u(4) batch done_(1)
      by (auto simp: race_inv_def writer_step(2) intro!: exI [of _ "log @ [next_record ps c u]"] exI [of _ s'])
  qed
next
  case (writer_next s ps c reqs todo j)
  have "length (task_batch (emit_task ps c)) \<le> 1" by (cases "emit_task ps c") auto
  then show ?thesis
    using assms(2) by (auto simp: race_inv_def writer_next task_for_fresh)
next
  case (joiner_look a s todo j todo' j' t reqs)
  obtain log u where u: "history s0 log u" "task_for t u" "s = mid_scene t u"
    "length log + length (task_batch t) + length reqs \<le> n" "knows s0 (length log) (log @ begun t u) (a # todo) j"
    using assms(2) by (auto simp: race_inv_def joiner_look(1))
  have "Suc (unat (sc_seq u)) < 2 ^ 64" using u(1,4) assms(3) by (simp add: history_def)
  then have "knows s0 (length log) (log @ begun t u) todo' j'"
    using knows_look [OF u(5) joiner_look(3) [unfolded u(3)] u(1,2) _ assms(4)] by blast
  then show ?thesis
    using u by (auto simp: race_inv_def joiner_look(2))
qed

lemma race_inv_reachable:
  assumes "join_race\<^sup>*\<^sup>* (s, EmitDone, reqs, handshake_order since, joiner_init) x" "scene_wf s0" "history s0 log0 s"
    "since = None \<or> since = Some (sc_seq s0)" "Suc (unat (sc_seq s) + length reqs) < 2 ^ 64"
  shows "race_inv s0 (length log0 + length reqs) x"
  using assms(1)
proof (induction rule: rtranclp_induct)
  case base
  have "knows s0 (length log0) log0 (handshake_order since) joiner_init"
    using assms(4) by (intro at_start) (auto simp: joiner_init_def)
  then show ?case using assms(3) by (auto simp: race_inv_def intro!: exI [of _ log0] exI [of _ s])
next
  case (step y z)
  have "Suc (unat (sc_seq s0) + (length log0 + length reqs)) < 2 ^ 64"
    using assms(3,5) by (simp add: history_def)
  with step show ?case using race_inv_step assms(2) by blast
qed

text \<open>When writer and joiner are done: their positions in the one log of what was written since \<open>s0\<close>.\<close>

lemma race_done:
  assumes "join_race\<^sup>*\<^sup>* (s, EmitDone, reqs, handshake_order since, joiner_init) (t, EmitDone, [], [], j)"
    "scene_wf s0" "history s0 log0 s" "since = None \<or> since = Some (sc_seq s0)" "Suc (unat (sc_seq s) + length reqs) < 2 ^ 64"
  obtains log a where "history s0 log t" "jn_rx j = length (sc_sent s0) + a"
    "jn_replayed j = None \<and> (\<exists>b c. numbered_at s0 log a b j \<and> stated_at s0 log b c j) \<or> (\<exists>b. replayed_at log a b j)"
proof -
  obtain log where log: "history s0 log t" "knows s0 (length log) log [] j"
    using race_inv_reachable [OF assms] by (auto simp: race_inv_def)
  from log(2) show ?thesis
    by (cases rule: knows.cases) (use that [OF log(1)] in \<open>auto simp: handshake_order_def snapshot_looks_def subscribed_at_def\<close>)
qed

section \<open>The client's side of a late join\<close>

text \<open>Writing a batch again changes nothing, so a delta the snapshot already holds is harmless.\<close>

lemma insert_all_again:
  assumes "bt_wf m"
  shows "bt_insert_all ys (bt_insert_all (xs @ ys) m) = bt_insert_all (xs @ ys) m"
  using assms by (intro bt_ext) (auto simp: get_insert_all map_add_assoc [symmetric] map_add_def fun_eq_iff split: option.splits)

lemma fold_apply_record: "fold apply_record log st = bt_insert_all (concat (map record_updates log)) st"
  by (induction log arbitrary: st) (simp_all add: apply_record_def bt_insert_all_def)

lemma replay_overlap:
  assumes "bt_wf st" "b \<le> c" "c \<le> length log"
  shows "fold apply_record (drop b log) (fold apply_record (take c log) st) = fold apply_record log st"
proof -
  define mid where "mid = take (c - b) (drop b log)"
  have split: "take c log = take b log @ mid" "drop b log = mid @ drop c log"
    using assms(2) append_take_drop_id [of "c - b" "drop b log"]
    by (simp_all add: mid_def take_add [symmetric] flip: append_take_drop_id)
  have "fold apply_record mid (fold apply_record (take b log @ mid) st) = fold apply_record (take b log @ mid) st"
    using insert_all_again [OF assms(1)] by (simp only: fold_apply_record map_append concat_append)
  then have "fold apply_record (mid @ drop c log) (fold apply_record (take b log @ mid) st) =
      fold apply_record (take b log @ (mid @ drop c log)) st"
    by simp
  then show ?thesis by (simp only: split(1) split(2) [symmetric] append_take_drop_id)
qed

lemma drive_duplicates:
  assumes "mg_phase mg = Driving \<lparr>tracker_last = n\<rparr>" "n \<noteq> 0"
    "\<forall>d \<in> set ds. unat (dp_seq d) \<le> unat n \<and> decode_server P (f d) = Inr (payload_frame d)"
  shows "manager_run P scale (map (\<lambda>d. SocketYielded (Some (Inr (CmText (f d))))) ds) mg = mg"
  using assms(3)
proof (induction ds)
  case (Cons d ds)
  have "manager_step P scale (SocketYielded (Some (Inr (CmText (f d))))) mg = mg"
    using assms(1,2) Cons.prems
    by (cases mg) (simp add: manager_step_def on_drive_socket_def handle_frame_def delta_frame_def observe_seq_cases)
  with Cons show ?case by (simp add: manager_run_def)
qed (simp add: manager_run_def)

text \<open>A property of every value written is one of every value of the result.\<close>

lemma insert_all_values:
  assumes "bt_wf m" "list_all (\<lambda>kv. Q (snd kv)) m" "list_all (\<lambda>kv. Q (snd kv)) kvs"
  shows "list_all (\<lambda>kv. Q (snd kv)) (bt_insert_all kvs m)"
proof -
  have "Q v" if "(k, v) \<in> set (bt_insert_all kvs m)" for k v
  proof -
    have "bt_get (bt_insert_all kvs m) k = Some v" using that assms(1) by (simp add: bt_wf_distinct)
    then have "map_of (rev kvs) k = Some v \<or> bt_get m k = Some v"
      by (auto simp: get_insert_all)
    then show ?thesis
      using assms map_of_SomeD [of "rev kvs" k v] bt_set_conv [of m k v] by (fastforce simp: list_all_iff)
  qed
  then show ?thesis by (auto simp: list_all_iff)
qed

lemma records_values:
  assumes "bt_wf st" "list_all (\<lambda>kv. Q (snd kv)) st" "list_all (\<lambda>r. list_all (\<lambda>p. Q (patch_value p)) (rec_patches r)) log"
  shows "list_all (\<lambda>kv. Q (snd kv)) (fold apply_record log st)"
  unfolding fold_apply_record
  using assms(3) by (intro insert_all_values [OF assms(1,2)]) (fastforce simp: list_all_iff record_updates_def)

text \<open>What the joiner's snapshot says, it says as a frame that decodes.\<close>

lemma join_snapshot_decodes:
  assumes "json_text_ok P" "jn_state j = fold apply_record (take c log) (scene_state s)"
    "state_servable s" "state_transportable s" "history s log t" "list_all delta_transportable (sc_sent t)"
  shows "decode_server P (server_text P (join_snapshot env u j)) = Inr (join_snapshot env u j)"
proof -
  have wf: "bt_wf (scene_state s)" by (simp add: scene_state_def snapshot_wf)
  have log: "list_all record_legal (take c log)" "list_all delta_transportable (map payload (take c log))"
    using assms(5,6) by (auto simp: history_def list_all_iff dest: in_set_takeD)
  have "list_all (\<lambda>kv. \<not> is_object (snd kv)) (jn_state j)"
    unfolding assms(2) using log(1)
    by (intro records_values [OF wf assms(3)]) (auto simp: list_all_iff record_legal_def is_value_legal_def)
  moreover have "list_all (\<lambda>kv. payload_safe (snd kv)) (jn_state j)"
    unfolding assms(2) using log(2)
    by (intro records_values [OF wf assms(4)]) (auto simp: list_all_iff payload_def)
  moreover have "bt_wf (jn_state j)" using wf by (simp add: assms(2) fold_apply_record)
  ultimately show ?thesis
    using assms(1) by (intro decode_server_text) (simp_all add: join_snapshot_def)
qed

text \<open>The records of a history from the \<open>a\<close>-th on, read by a client that has the first \<open>b\<close>.\<close>

lemma drive_overlap:
  assumes "history s log t" "mg_phase mg = Driving \<lparr>tracker_last = n\<rparr>" "n \<noteq> 0"
    "unat n = unat (sc_seq s) + b" "a \<le> b" "b \<le> length log"
    "\<forall>d \<in> set (map payload log). decode_server P (f d) = Inr (payload_frame d)"
  shows "manager_run P scale (map (\<lambda>d. SocketYielded (Some (Inr (CmText (f d))))) (map payload (drop a log))) mg =
    mg\<lparr>mg_events := mg_events mg @ map payload_event (map payload (drop b log)),
       mg_phase := Driving \<lparr>tracker_last = sc_seq t\<rparr>\<rparr>"
proof -
  define early where "early = map payload (take (b - a) (drop a log))"
  define late where "late = map payload (drop b log)"
  have "take (b - a) (drop a log) @ drop b log = drop a log"
    using assms(5) append_take_drop_id [of "b - a" "drop a log"] by simp
  then have split: "map payload (drop a log) = early @ late" by (simp add: early_def late_def flip: map_append)
  have seqs: "seqs_from (sc_seq s) log" "unat (sc_seq t) = unat (sc_seq s) + length log"
    using assms(1) by (simp_all add: history_def)
  have "unat (dp_seq d) \<le> unat n" if early: "d \<in> set early" for d
  proof -
    obtain r where "r \<in> set (take (b - a) (drop a log))" "d = payload r"
      using early by (auto simp: early_def)
    then obtain i where "i < length (take (b - a) (drop a log))" "d = payload (take (b - a) (drop a log) ! i)"
      by (auto simp only: in_set_conv_nth)
    then have "d = payload (log ! (a + i))" "a + i < b" using assms(5,6) by auto
    then show ?thesis using seqs_from_nth [OF seqs(1), of "a + i"] assms(4,6) by (simp add: payload_def)
  qed
  moreover have "set early \<subseteq> set (map payload log)" "set late \<subseteq> set (map payload log)"
    by (auto simp: early_def late_def dest!: in_set_takeD in_set_dropD)
  ultimately have "manager_run P scale (map (\<lambda>d. SocketYielded (Some (Inr (CmText (f d))))) early) mg = mg"
    using assms(7) by (intro drive_duplicates [OF assms(2,3)]) blast
  moreover have "map (unat \<circ> dp_seq) late = [Suc (unat n) ..< Suc (unat (sc_seq t))]"
  proof -
    have "map (unat \<circ> dp_seq) late = drop b (map (unat \<circ> rec_seq) log)"
      by (simp add: late_def payload_def comp_def drop_map)
    then show ?thesis using seqs assms(4) by (simp add: seqs_from_def del: upt_Suc)
  qed
  then have "manager_run P scale (map (\<lambda>d. SocketYielded (Some (Inr (CmText (f d))))) late) mg =
      mg\<lparr>mg_events := mg_events mg @ map payload_event late, mg_phase := Driving \<lparr>tracker_last = sc_seq t\<rparr>\<rparr>"
    using assms(4,6,7) seqs(2) \<open>set late \<subseteq> _\<close> by (intro drive_deltas [OF assms(2,3)]) auto
  ultimately show ?thesis by (simp add: split manager_run_def late_def)
qed

text \<open>What the receiver yields, read by a client at the \<open>b\<close>-th record whose view holds the first \<open>c\<close>.\<close>

lemma live_texts_converge:
  assumes "json_text_ok P" "history s log t" "list_all delta_transportable (sc_sent t)"
    "mg_phase mg = Driving \<lparr>tracker_last = n\<rparr>" "n \<noteq> 0" "unat n = unat (sc_seq s) + b" "a \<le> b" "b \<le> c" "c \<le> length log"
    "client_view (mg_events mg) = fold apply_record (take c log) (scene_state s)"
  shows "let mg' = manager_run P scale (map (\<lambda>x. SocketYielded (Some (Inr (CmText x))))
        (map (\<lambda>d. server_text P (payload_frame d)) (rx_pending (length (sc_sent s) + a) t))) mg in
      mg_phase mg' = Driving \<lparr>tracker_last = sc_seq t\<rparr> \<and> client_view (mg_events mg') = scene_state t"
proof -
  have "rx_pending (length (sc_sent s) + a) t = map payload (drop a log)"
    using assms(2) by (simp add: rx_pending_def history_def drop_map)
  moreover have "manager_run P scale (map (\<lambda>d. SocketYielded (Some (Inr (CmText (server_text P (payload_frame d))))))
      (map payload (drop a log))) mg =
      mg\<lparr>mg_events := mg_events mg @ map payload_event (map payload (drop b log)),
        mg_phase := Driving \<lparr>tracker_last = sc_seq t\<rparr>\<rparr>"
    using assms(6-9) by (intro drive_overlap [OF assms(2,4,5)] history_decodes [OF assms(1-3)]) simp_all
  moreover have "fold apply_event (map payload_event (map payload (drop b log))) (client_view (mg_events mg)) = scene_state t"
    using replay_overlap [OF _ assms(8,9), of "scene_state s"] assms(2,10)
    by (simp only: client_view_deltas payload_updates) (simp add: history_def scene_state_def snapshot_wf)
  ultimately show ?thesis by (simp add: Let_def comp_def client_view_def)
qed

text \<open>A client up to date at \<open>s\<close> that reads the first \<open>b\<close> records.\<close>

lemma replay_texts_read:
  assumes "json_text_ok P" "history s log t" "list_all delta_transportable (sc_sent t)"
    "mg_phase mg = Driving \<lparr>tracker_last = sc_seq s\<rparr>" "sc_seq s \<noteq> 0" "b \<le> length log"
    "client_view (mg_events mg) = scene_state s"
  shows "\<exists>mg' n. manager_run P scale (map (\<lambda>r. SocketYielded (Some (Inr (CmText (server_text P (payload_frame (payload r)))))))
        (take b log)) mg = mg'
    \<and> mg_phase mg' = Driving \<lparr>tracker_last = n\<rparr> \<and> n \<noteq> 0 \<and> unat n = unat (sc_seq s) + b
    \<and> client_view (mg_events mg') = fold apply_record (take b log) (scene_state s)"
proof -
  define n where "n = sc_seq s + of_nat b"
  have seqs: "seqs_from (sc_seq s) log" "unat (sc_seq t) = unat (sc_seq s) + length log"
    using assms(2) by (simp_all add: history_def)
  then have "unat (sc_seq s) + b < 2 ^ 64" using assms(6) unsigned_less [of "sc_seq t", where ?'a = nat] by simp
  then have n: "unat n = unat (sc_seq s) + b"
    by (simp add: n_def unat_word_ariths unat_of_nat)
  then have "n \<noteq> 0" using assms(5) by (metis add_eq_0_iff_both_eq_0 unat_eq_zero)
  have "map (unat \<circ> dp_seq) (map payload (take b log)) = take b (map (unat \<circ> rec_seq) log)"
    by (simp add: payload_def comp_def take_map)
  also have "\<dots> = [Suc (unat (sc_seq s)) ..< Suc (unat n)]"
    using seqs(1) assms(6) n by (simp add: seqs_from_def take_upt del: upt_Suc)
  finally have "manager_run P scale (map (\<lambda>d. SocketYielded (Some (Inr (CmText (server_text P (payload_frame d))))))
      (map payload (take b log))) mg =
      mg\<lparr>mg_events := mg_events mg @ map payload_event (map payload (take b log)), mg_phase := Driving \<lparr>tracker_last = n\<rparr>\<rparr>"
    using history_decodes [OF assms(1-3)] n
    by (intro drive_deltas [OF assms(4,5)]) (auto dest: in_set_takeD)
  moreover have "fold apply_event (map payload_event (map payload (take b log))) (scene_state s) =
      fold apply_record (take b log) (scene_state s)"
    by (simp only: client_view_deltas payload_updates)
  ultimately show ?thesis
    using assms(7) n \<open>n \<noteq> 0\<close> by (simp add: comp_def client_view_def)
qed

text \<open>The two ways in: a client that opens with the snapshot, and one that reads the replay.\<close>

lemma snapshot_join:
  assumes "json_text_ok P" "state_servable s0" "state_transportable s0" "sc_seq s0 \<noteq> 0"
    and t: "history s0 log t" "list_all delta_transportable (sc_sent t)"
    and j: "jn_rx j = length (sc_sent s0) + a" "jn_replayed j = None" "numbered_at s0 log a b j" "stated_at s0 log b c j"
  shows "let mg = manager_run P scale (client_inputs P
        (map (server_text P) (join_frames env s j @ map payload_frame (rx_pending (jn_rx j) t)))) (manager_start st) in
      mg_phase mg = Driving \<lparr>tracker_last = sc_seq t\<rparr> \<and> client_view (mg_events mg) = scene_state t"
proof -
  have seq: "jn_seq j \<noteq> 0" using j(3) assms(4) by (metis add_eq_0_iff_both_eq_0 numbered_at_def unat_eq_zero)
  let ?mg0 = "manager_step P scale (Opened (await_snapshot P
    [(Inr (CmText (server_text P (join_snapshot env s j))), Inr ())])) (manager_start st)"
  have "mg_phase ?mg0 = Driving \<lparr>tracker_last = jn_seq j\<rparr>" "client_view (mg_events ?mg0) = jn_state j"
    using join_snapshot_decodes [OF assms(1) _ assms(2,3) t, of j c env s] j(4) seq
    by (simp_all add: stated_at_def join_snapshot_def manager_step_def manager_start_def start_attempt_def on_opened_def
        start_tracking_last client_view_def)
  then show ?thesis
    using live_texts_converge [OF assms(1) t, of ?mg0 "jn_seq j" b a c scale] seq j
    by (simp add: at_defs join_frames_def manager_run_def comp_def Let_def)
qed

lemma replay_join:
  assumes "json_text_ok P" "sc_seq s0 \<noteq> 0" and t: "history s0 log t" "list_all delta_transportable (sc_sent t)"
    and j: "jn_rx j = length (sc_sent s0) + a" "replayed_at log a b j"
    and mg: "mg_phase mg = Driving \<lparr>tracker_last = sc_seq s0\<rparr>" "client_view (mg_events mg) = scene_state s0"
  shows "let mg' = manager_run P scale (map (\<lambda>x. SocketYielded (Some (Inr (CmText x))))
        (map (server_text P) (join_frames env s j @ map payload_frame (rx_pending (jn_rx j) t)))) mg in
      mg_phase mg' = Driving \<lparr>tracker_last = sc_seq t\<rparr> \<and> client_view (mg_events mg') = scene_state t"
proof -
  obtain mg1 m where mg1: "manager_run P scale (map (\<lambda>r. SocketYielded (Some (Inr (CmText (server_text P (payload_frame (payload r)))))))
      (take b log)) mg = mg1" "mg_phase mg1 = Driving \<lparr>tracker_last = m\<rparr>" "m \<noteq> 0" "unat m = unat (sc_seq s0) + b"
    "client_view (mg_events mg1) = fold apply_record (take b log) (scene_state s0)"
    using replay_texts_read [OF assms(1) t mg(1) assms(2) _ mg(2), of b scale] j(2) by (auto simp: replayed_at_def)
  have "manager_run P scale (map (\<lambda>x. SocketYielded (Some (Inr (CmText x))))
      (map (server_text P) (join_frames env s j @ map payload_frame (rx_pending (jn_rx j) t)))) mg =
    manager_run P scale (map (\<lambda>x. SocketYielded (Some (Inr (CmText x))))
      (map (\<lambda>d. server_text P (payload_frame d)) (rx_pending (length (sc_sent s0) + a) t))) mg1"
    using j mg1(1) by (simp add: replayed_at_def join_frames_def manager_run_def payload_def comp_def)
  then show ?thesis
    using live_texts_converge [OF assms(1) t mg1(2-4), of a b scale] mg1(5) j(2) by (simp add: replayed_at_def)
qed

section \<open>Properties\<close>

text \<open>
  C2. Joining while a writer is at work. A connection subscribes to the broadcast and only then
  reads the replay buffer, if the client resumes, or the counter and the state; a writer runs any
  requests meanwhile, and the two interleave in any way at the granularity of the locks. The snapshot
  may then hold leaves newer than its number, and the receiver may yield deltas that the snapshot or
  the replay already covers. But a client that opens with the snapshot, and one that was up to date
  when it left and reads the replay, ends in its drive loop, without a reconnection, with the scene's
  number and exactly the scene's state once it has read what the receiver yields.
\<close>
theorem late_join_converges:
  assumes "json_text_ok P" "scene_wf s0" "(scene_step ^^ n) s0 s" "state_servable s0" "state_transportable s0" "sc_seq s0 \<noteq> 0"
    "unat (sc_seq s0) + n + length reqs < 2 ^ 64 - 1" "since = None \<or> since = Some (sc_seq s0)"
    "join_race\<^sup>*\<^sup>* (s, EmitDone, reqs, handshake_order since, joiner_init) (t, EmitDone, [], [], j)"
    "list_all delta_transportable (sc_sent t)"
  shows "let texts = map (server_text P) (join_frames env s j @ map payload_frame (rx_pending (jn_rx j) t));
      in_step = (\<lambda>mg. mg_phase mg = Driving \<lparr>tracker_last = sc_seq t\<rparr> \<and> client_view (mg_events mg) = scene_state t) in
    case jn_replayed j of
      None \<Rightarrow> in_step (manager_run P scale (client_inputs P texts) (manager_start st))
    | Some _ \<Rightarrow> (\<forall>mg. mg_phase mg = Driving \<lparr>tracker_last = sc_seq s0\<rparr> \<longrightarrow> client_view (mg_events mg) = scene_state s0 \<longrightarrow>
        in_step (manager_run P scale (map (\<lambda>x. SocketYielded (Some (Inr (CmText x)))) texts) mg))"
proof -
  obtain log0 where log0: "length log0 \<le> n" "history s0 log0 s"
    using history_steps [OF assms(3,2)] assms(7) by auto
  have room: "Suc (unat (sc_seq s) + length reqs) < 2 ^ 64" using log0 assms(7) by (simp add: history_def)
  obtain log a where log: "history s0 log t" "jn_rx j = length (sc_sent s0) + a"
    "jn_replayed j = None \<and> (\<exists>b c. numbered_at s0 log a b j \<and> stated_at s0 log b c j) \<or> (\<exists>b. replayed_at log a b j)"
    by (rule race_done [OF assms(9,2) log0(2) assms(8) room])
  from log(3) show ?thesis
  proof (elim disjE conjE exE)
    fix b c
    assume "jn_replayed j = None" "numbered_at s0 log a b j" "stated_at s0 log b c j"
    then show ?thesis
      using snapshot_join [OF assms(1,4-6) log(1) assms(10) log(2)] by (simp add: Let_def)
  next
    fix b
    assume j: "replayed_at log a b j"
    then have "jn_replayed j = Some (take b log)" by (simp add: replayed_at_def)
    then show ?thesis
      unfolding Let_def
      by (simp only: option.case)
        (intro allI impI replay_join [OF assms(1,6) log(1) assms(10) log(2) j, unfolded Let_def])
  qed
qed

text \<open>A delta that is in the replay and is sent after the replay was read: the client gets it twice.\<close>

abbreviation squeezed :: "bool list" where
  "squeezed \<equiv> [True, True, False, False, True, True, False, True]"

abbreviation squeezed_start :: race where
  "squeezed_start \<equiv> (scene_new ''main'' ''v'', EmitDone, [([(''a'', jnat 0)], None)], handshake_order (Some 1), joiner_init)"

lemma squeezed_race:
  defines "x \<equiv> fold race_turn squeezed squeezed_start"
  defines "d \<equiv> [patch_new ''a'' (jnat 0)]"
  shows "fst (snd x) = EmitDone" "fst (snd (snd x)) = []" "fst (snd (snd (snd x))) = []"
    "sc_sent (fst x) = [\<lparr>dp_seq = 2, dp_patches = d, dp_cause = None\<rparr>]" "sc_seq (fst x) = 2"
    "jn_replayed (snd (snd (snd (snd x)))) = Some [\<lparr>rec_seq = 2, rec_patches = d, rec_cause = None\<rparr>]"
    "jn_rx (snd (snd (snd (snd x)))) = 0"
proof -
  have "leaf_path_parse ''a'' = Inr ''a''" by code_simp
  then have task: "emit_task [(''a'', jnat 0)] None = ToApply d None"
    by (simp add: emit_task_def check_leaf_value_def jnat_def d_def)
  show "fst (snd x) = EmitDone" "fst (snd (snd x)) = []" "fst (snd (snd (snd x))) = []"
    "sc_sent (fst x) = [\<lparr>dp_seq = 2, dp_patches = d, dp_cause = None\<rparr>]" "sc_seq (fst x) = 2"
    "jn_replayed (snd (snd (snd (snd x)))) = Some [\<lparr>rec_seq = 2, rec_patches = d, rec_cause = None\<rparr>]"
    "jn_rx (snd (snd (snd (snd x)))) = 0"
    by (simp_all add: x_def task handshake_order_def advance_seq_def Let_def scene_new_def replay_new_def replay_push_def
        replay_since_def scene_replay_since_def scene_subscribe_def current_seq_def joiner_init_def
        DEFAULT_REPLAY_BUFFER_SIZE_def)
qed

theorem late_join_converges_witness:
  "let (t, _, _, _, j) = fold race_turn squeezed squeezed_start;
      texts = map (server_text sample_platform)
        (join_frames sample_env (scene_new ''main'' ''v'') j @ map payload_frame (rx_pending (jn_rx j) t));
      mg = manager_run sample_platform (\<lambda>b. b) (map (\<lambda>x. SocketYielded (Some (Inr (CmText x)))) texts)
        \<lparr>mg_state = sample_manager_state, mg_phase = Driving \<lparr>tracker_last = 1\<rparr>, mg_events = [], mg_replies = []\<rparr> in
    length texts = 2 \<and> mg_phase mg = Driving \<lparr>tracker_last = 2\<rparr> \<and> client_view (mg_events mg) = scene_state t"
proof -
  let ?s = "scene_new ''main'' ''v''"
  obtain t task reqs todo j where x: "fold race_turn squeezed squeezed_start = (t, task, reqs, todo, j)"
    by (metis prod_cases5)
  note f = squeezed_race [unfolded x, simplified]
  have "payload_safe (jnat 0)" by (simp add: payload_safe_def safe_at_def jnat_def)
  moreover have "scene_state ?s = []"
    by (simp add: scene_state_def scene_new_def store_snapshot_def store_new_def)
  moreover have "join_race\<^sup>*\<^sup>* squeezed_start (t, EmitDone, [], [], j)"
    using races_reachable [of squeezed_start squeezed] by (simp only: x f(1-3))
  ultimately show ?thesis
    using late_join_converges [OF sample_json_text_ok scene_wf_new [of "''main''" "''v''"], where n = 0 and s = ?s and t = t and j = j
        and since = "Some 1" and reqs = "[([(''a'', jnat 0)], None)]" and env = sample_env and scale = "\<lambda>b. b" and st = sample_manager_state]
    unfolding x by (simp add: f patch_new_def scene_new_def rx_pending_def join_frames_def client_view_def Let_def del: fold_simps)
qed

text \<open>
  C37. On a scene swap the handler reads the snapshot first and subscribes last, and so can lose a
  delta for good: an emission that falls between the two is neither in the snapshot nor yielded by
  the receiver. The client takes the swap, stays in its drive loop and reports nothing, but holds the
  value from before; its number is behind the scene's. The next delta of the scene, if there is one,
  is a gap that makes it reconnect.
\<close>
theorem swap_join_loses_delta:
  assumes "json_text_ok P" "scene_wf s" "state_servable s" "state_transportable s" "sc_seq s \<noteq> 0"
    "Suc (Suc (unat (sc_seq s))) < 2 ^ 64" "valid_path k" "\<not> is_object v" "bt_get (scene_state s) k \<noteq> Some v"
    "mg_phase mg = Driving \<lparr>tracker_last = n\<rparr>" "n \<noteq> 0" "unat seq = Suc (unat n)"
  shows "\<exists>t j. join_race\<^sup>*\<^sup>* (s, EmitDone, [([(k, v)], None)], swap_order, joiner_init) (t, EmitDone, [], [], j)
    \<and> sc_seq t = sc_seq s + 1 \<and> bt_get (scene_state t) k = Some v
    \<and> (let texts = server_text P (changed_frame env s seq) # server_text P (join_snapshot env' s j)
             # map (\<lambda>d. server_text P (payload_frame d)) (rx_pending (jn_rx j) t);
           mg' = manager_run P scale (map (\<lambda>x. SocketYielded (Some (Inr (CmText x)))) texts) mg in
       mg_phase mg' = Driving \<lparr>tracker_last = sc_seq s\<rparr> \<and> client_view (mg_events mg') = scene_state s
       \<and> client_view (mg_events mg') \<noteq> scene_state t
       \<and> (\<forall>d. dp_seq d = sc_seq t + 1 \<longrightarrow> decode_server P (server_text P (payload_frame d)) = Inr (payload_frame d)
            \<longrightarrow> manager_step P scale (SocketYielded (Some (Inr (CmText (server_text P (payload_frame d)))))) mg'
              = start_attempt 1 mg'))"
proof -
  have task: "emit_task [(k, v)] None = ToApply [patch_new k v] None"
    using assms(7,8) by (simp add: emit_task_def check_leaf_value_def)
  let ?x0 = "(s, EmitDone, [([(k, v)], None)], swap_order, joiner_init)"
  obtain t j where x: "fold race_turn [False, False, True, True, True, True, True, False] ?x0 = (t, EmitDone, [], [], j)"
    and t: "sc_store t = store_apply [(k, v)] (sc_store s)" "sc_seq t = sc_seq s + 1"
    and j: "rx_pending (jn_rx j) t = []" "jn_seq j = sc_seq s" "jn_state j = scene_state s"
    by (simp add: task swap_order_def snapshot_looks_def advance_seq_def Let_def scene_subscribe_def
        current_seq_def rx_pending_def patch_new_def)
  have "join_race\<^sup>*\<^sup>* ?x0 (t, EmitDone, [], [], j)" using races_reachable [of ?x0] x by metis
  moreover have "bt_get (scene_state t) k = Some v"
    using assms(2) by (simp add: scene_state_def t(1) scene_wf_def snapshot_get store_apply_alt get_insert_all)
  moreover have snap: "join_snapshot env' s j = snapshot_frame env' s"
    by (simp add: join_snapshot_def snapshot_frame_def j current_seq_def)
  let ?mg = "manager_run P scale (map (\<lambda>x. SocketYielded (Some (Inr (CmText x))))
    [server_text P (changed_frame env s seq), server_text P (snapshot_frame env' s)]) mg"
  have mg: "mg_phase ?mg = Driving \<lparr>tracker_last = sc_seq s\<rparr>" "client_view (mg_events ?mg) = scene_state s"
    using client_follows_swap [OF assms(1,10-12,3,4,5), of scale env env'] by (simp_all add: Let_def)
  moreover have "manager_step P scale (SocketYielded (Some (Inr (CmText (server_text P (payload_frame d)))))) ?mg
      = start_attempt 1 ?mg"
    if "dp_seq d = sc_seq t + 1" "decode_server P (server_text P (payload_frame d)) = Inr (payload_frame d)" for d
  proof -
    have "unat (dp_seq d) = Suc (Suc (unat (sc_seq s)))"
      using unat_add_one [of "sc_seq s"] unat_add_one [of "sc_seq s + 1"] assms(6) by (simp add: that(1) t(2) add.assoc)
    then have "handle_frame (payload_frame d) \<lparr>tracker_last = sc_seq s\<rparr> evs =
        (Inl Gap, \<lparr>tracker_last = sc_seq s\<rparr>, evs)" for evs
      using assms(5) by (simp add: handle_frame_def delta_frame_def observe_seq_cases)
    then show ?thesis using mg(1) that(2) by (simp add: manager_step_def on_drive_socket_def)
  qed
  ultimately show ?thesis
    using t(2) assms(9) by (intro exI [of _ t] exI [of _ j]) (auto simp: j(1) snap Let_def)
qed

theorem swap_join_loses_delta_witness:
  "\<exists>t j. join_race\<^sup>*\<^sup>* (scene_new ''main'' ''v'', EmitDone, [([(''a'', jnat 0)], None)], swap_order, joiner_init)
      (t, EmitDone, [], [], j) \<and> sc_seq t = 2 \<and> bt_get (scene_state t) ''a'' = Some (jnat 0)"
proof -
  let ?mg = "\<lparr>mg_state = sample_manager_state, mg_phase = Driving \<lparr>tracker_last = 1\<rparr>, mg_events = [], mg_replies = []\<rparr>"
  have "is_ok (validate_path ''a'')" by code_simp
  then have "valid_path ''a''" by (simp only: validate_path_ok)
  moreover have "scene_state (scene_new ''main'' ''v'') = []"
    by (simp add: scene_state_def scene_new_def store_snapshot_def store_new_def)
  ultimately show ?thesis
    using swap_join_loses_delta [OF sample_json_text_ok scene_wf_new [of "''main''" "''v''"], of "''a''" "jnat 0" ?mg 1 2
        sample_env sample_env "\<lambda>b. b"]
    by (auto simp: scene_new_def jnat_def Let_def)
qed

end
