(* ===== verification/Event_Stream.thy ===== *)
theory Event_Stream
  imports Delivery
begin

text \<open>
  The client's side towards its user: \<open>EventStream\<close> (\<open>events.rs\<close>) over the broadcast channel of the
  manager's events, and the handle's \<open>events\<close> and \<open>disconnect\<close> (\<open>client.rs\<close>). What the channel's stream
  adapter has ready is a list; when it is empty a poll is pending.
\<close>

definition EVENT_BUFFER :: nat where
  "EVENT_BUFFER = 256"

definition COMMAND_BUFFER :: nat where
  "COMMAND_BUFFER = 8"

section \<open>Polling\<close>

datatype 'a poll = Ready 'a | Pending

type_synonym event_stream = "Event rx_result list"

text \<open>\<open>poll_next\<close>: the loop skips a lag and ends at an event, at the end, or with nothing ready.\<close>

fun poll_next :: "event_stream \<Rightarrow> Event option poll \<times> event_stream" where
  "poll_next [] = (Pending, [])"
| "poll_next (RxOk ev # rest) = (Ready (Some ev), rest)"
| "poll_next (RxLagged _ # rest) = poll_next rest"
| "poll_next (RxClosed # rest) = (Ready None, RxClosed # rest)"

lemma poll_next_shrinks: "poll_next xs = (Ready (Some ev), rest) \<Longrightarrow> length rest < length xs"
  by (induction xs rule: poll_next.induct) auto

text \<open>A consumer that polls until nothing more is ready.\<close>

function drain :: "event_stream \<Rightarrow> Event list" where
  "drain xs = (case poll_next xs of (Ready (Some ev), rest) \<Rightarrow> ev # drain rest | _ \<Rightarrow> [])"
  by pat_completeness auto
termination
  by (relation "measure length") (auto dest: poll_next_shrinks [OF sym])

declare drain.simps [simp del]

section \<open>The handle\<close>

text \<open>\<open>events\<close>: a receiver that starts at the present end of the manager's events.\<close>

definition client_events :: "Manager \<Rightarrow> nat" where
  "client_events mg = length (mg_events mg)"

text \<open>
  A command goes into the manager's queue; it fails once the manager has ended, and waits (\<open>None\<close>)
  while the queue is full.
\<close>

definition send_command :: "Command \<Rightarrow> Manager \<Rightarrow> Command list \<Rightarrow> (ClientError + unit) option \<times> Command list" where
  "send_command cmd mg queue =
     (if mg_phase mg = Finished then (Some (Inl ClManagerGone), queue)
      else if length queue < COMMAND_BUFFER then (Some (Inr ()), queue @ [cmd])
      else (None, queue))"

definition client_disconnect :: "Manager \<Rightarrow> Command list \<Rightarrow> (ClientError + unit) option \<times> Command list" where
  "client_disconnect mg queue = send_command Disconnect mg queue"

section \<open>What a consumer sees\<close>

lemma drain_simps [simp]:
  "drain [] = []" "drain (RxOk ev # xs) = ev # drain xs" "drain (RxLagged n # xs) = drain xs" "drain (RxClosed # xs) = []"
  by (simp_all add: drain.simps [of "[]"] drain.simps [of "RxOk ev # xs"] drain.simps [of "RxLagged n # xs"]
      drain.simps [of "RxClosed # xs"]) (simp add: drain.simps [of xs])

lemma drain_ok: "drain (map RxOk evs) = evs"
  by (induction evs) simp_all

lemma drain_append: "list_all (\<lambda>x. x \<noteq> RxClosed) xs \<Longrightarrow> drain (xs @ ys) = drain xs @ drain ys"
proof (induction xs)
  case (Cons x xs)
  then show ?case by (cases x) simp_all
qed simp

text \<open>A lag leaves no trace: what is drained is the same with it or without.\<close>

lemma lag_invisible: "drain (xs @ RxLagged n # ys) = drain (xs @ ys)"
proof (induction xs)
  case (Cons x xs)
  then show ?case by (cases x) simp_all
qed simp

lemma client_view_snapshot: "client_view (evs @ EvSnapshot s # later) = fold apply_event later (snapshot_state s)"
  by (simp add: client_view_def)

section \<open>Properties\<close>

text \<open>
  A snapshot is the recovery anchor of a consumer that fell behind. Whatever part of the manager's
  events it lost before, once its stream has a snapshot event and everything after it, the state it
  has rebuilt is the one a consumer of all the events holds.
\<close>
theorem snapshot_recovers_consumer:
  assumes "mg_events mg = before @ EvSnapshot s # after" "list_all (\<lambda>x. x \<noteq> RxClosed) seen"
  shows "client_view (drain (seen @ RxOk (EvSnapshot s) # map RxOk after)) = client_view (mg_events mg)"
  using assms by (simp add: drain_append drain_ok client_view_snapshot)

theorem snapshot_recovers_consumer_witness:
  "let mg = on_opened (\<lambda>b. b) 1 (Inr sample_snapshot) (manager_start sample_manager_state) in
   client_view (drain [RxLagged 2, RxOk (EvSnapshot sample_snapshot)]) = client_view (mg_events mg)"
  using snapshot_recovers_consumer [of "on_opened (\<lambda>b. b) 1 (Inr sample_snapshot) (manager_start sample_manager_state)"
      "[EvStatus Connecting, EvStatus Live]" sample_snapshot "[]" "[RxLagged 2]"]
  by (simp add: on_opened_def manager_start_def start_attempt_def Let_def)

text \<open>
  Until then it is wrong without a sign: a consumer whose stream lost a delta of a leaf nobody writes
  again holds the old value, and what it was given is what a stream without the loss would give it.
\<close>
theorem lagged_consumer_stale:
  assumes "patch_path p = k" "delta_patches d = [p]" "bt_get (client_view evs) k = Some old" "patch_value p \<noteq> old"
  shows "drain (map RxOk evs @ [RxLagged 1]) = drain (map RxOk evs)
    \<and> client_view (drain (map RxOk evs @ [RxLagged 1])) \<noteq> client_view (evs @ [EvDelta d])"
proof -
  have "bt_get (client_view (evs @ [EvDelta d])) k = Some (patch_value p)"
    using assms(1,2) by (simp add: client_view_def)
  moreover have "drain (map RxOk evs @ [RxLagged 1]) = evs"
    using lag_invisible [of "map RxOk evs" 1 "[]"] by (simp add: drain_ok)
  ultimately show ?thesis using assms(3,4) by (auto simp: drain_ok)
qed

text \<open>A queued \<open>disconnect\<close> ends the manager at the next place where it takes commands.\<close>

lemma disconnect_ends:
  assumes "mg_phase mg = Driving tr \<or> mg_phase mg = Delaying n"
  shows "mg_phase (manager_step P scale (CommandReceived (Some Disconnect) opened) mg) = Finished"
  using assms by (auto simp: manager_step_def on_drive_command_def on_delay_command_def finish_def)

end
