(* ===== verification/Adapters.thy ===== *)
theory Adapters
  imports Scene Sample_Platform
begin

text \<open>
  The adapters (\<open>adapters/mod.rs\<close>, \<open>flatten.rs\<close>, \<open>http_poll.rs\<close>, \<open>websocket_subscribe.rs\<close>): tasks that
  read external JSON and write it to a scene, one delta per document. A task is a step function over
  what its awaits yield; instants and durations are natural numbers of one unit. The HTTP client and
  the WebSocket are not in the repository: their results are arguments.
\<close>

section \<open>Flattening\<close>

definition path_extend :: "string \<Rightarrow> string \<Rightarrow> string" where
  "path_extend path k = (if path = [] then k else path @ CHR ''.'' # k)"

fun walk :: "string \<Rightarrow> json \<Rightarrow> (string \<times> json) list" where
  "walk path (JObject m) = concat (map (\<lambda>kv. walk (path_extend path (fst kv)) (snd kv)) m)"
| "walk path v = (if path \<noteq> [] then [(path, v)] else [])"

definition flatten_into_pairs :: "string \<Rightarrow> json \<Rightarrow> (string \<times> json) list" where
  "flatten_into_pairs pre v = walk pre v"

section \<open>Periodic tasks\<close>

text \<open>The select loop of \<open>spawn_periodic\<close>: the next deadline, the shared scene.\<close>

record Periodic =
  pt_next :: nat
  pt_scene :: Scene

text \<open>
  What the loop waits for: the deadline, after which \<open>f\<close> yields patches and the clock reads \<open>now\<close>; or
  a change of \<open>cancel\<close> (whether the channel is closed, and the value).
\<close>

datatype PeriodicInput = Tick "(string \<times> json) list" nat | CancelSeen bool bool

definition periodic_start :: "nat \<Rightarrow> nat \<Rightarrow> Scene \<Rightarrow> Periodic" where
  "periodic_start now period scene = \<lparr>pt_next = now + period, pt_scene = scene\<rparr>"

definition periodic_tick :: "nat \<Rightarrow> (string \<times> json) list \<Rightarrow> nat \<Rightarrow> Periodic \<Rightarrow> Periodic" where
  "periodic_tick period patches now t =
     (let scene' = (if patches \<noteq> [] then snd (scene_emit patches (pt_scene t)) else pt_scene t);
          next1 = pt_next t + period
      in \<lparr>pt_next = (if next1 < now then now else next1), pt_scene = scene'\<rparr>)"

text \<open>\<open>None\<close>: the task has ended.\<close>

definition periodic_step :: "nat \<Rightarrow> PeriodicInput \<Rightarrow> Periodic \<Rightarrow> Periodic option" where
  "periodic_step period inp t = (case inp of
      Tick patches now \<Rightarrow> Some (periodic_tick period patches now t)
    | CancelSeen closed flag \<Rightarrow> if closed \<or> flag then None else Some t)"

section \<open>HTTP polling\<close>

record HttpPollConfig =
  hp_url :: string
  hp_interval :: nat
  hp_writes_to :: string
  hp_headers :: "(string \<times> string) list"
  hp_request_timeout :: "nat option"

text \<open>\<open>resp.json()\<close> reads the body and parses it.\<close>

datatype HttpResult = RequestFailed string | Response nat "string + string"

definition poll_once :: "platform \<Rightarrow> HttpPollConfig \<Rightarrow> (string \<Rightarrow> (string \<times> string) list \<Rightarrow> HttpResult)
    \<Rightarrow> (string \<times> json) list" where
  "poll_once P config send = (case send (hp_url config) (hp_headers config) of
      RequestFailed _ \<Rightarrow> []
    | Response status body \<Rightarrow>
        (if \<not> (200 \<le> status \<and> status < 300) then []
         else (case bindE body (from_slice P) of
             Inl _ \<Rightarrow> []
           | Inr v \<Rightarrow> flatten_into_pairs (hp_writes_to config) v)))"

text \<open>
  \<open>spawn\<close>: \<open>build\<close> is the HTTP client's builder given the timeout, \<open>shorten\<close> is \<open>mul_f32(0.8)\<close>. When the
  builder fails the task does nothing.
\<close>

definition http_poll_start ::
    "(nat \<Rightarrow> string + unit) \<Rightarrow> (nat \<Rightarrow> nat) \<Rightarrow> nat \<Rightarrow> HttpPollConfig \<Rightarrow> Scene \<Rightarrow> Periodic option" where
  "http_poll_start build shorten now config scene =
     (let timeout = (case hp_request_timeout config of Some t \<Rightarrow> t | None \<Rightarrow> shorten (hp_interval config)) in
      case build timeout of
        Inl _ \<Rightarrow> None
      | Inr _ \<Rightarrow> Some (periodic_start now (hp_interval config) scene))"

text \<open>The select loop is the one of \<open>spawn_periodic\<close>, with \<open>poll_once\<close> as the source of patches.\<close>

definition http_poll_tick :: "platform \<Rightarrow> HttpPollConfig \<Rightarrow> (string \<Rightarrow> (string \<times> string) list \<Rightarrow> HttpResult) \<Rightarrow> nat
    \<Rightarrow> Periodic \<Rightarrow> Periodic" where
  "http_poll_tick P config send now t = periodic_tick (hp_interval config) (poll_once P config send) now t"

section \<open>WebSocket subscription\<close>

record WsSubscribeConfig =
  wc_url :: string
  wc_writes_to :: string
  wc_backoff_initial :: nat
  wc_backoff_max :: nat

definition ws_subscribe_default :: WsSubscribeConfig where
  "ws_subscribe_default = \<lparr>wc_url = [], wc_writes_to = [], wc_backoff_initial = 250, wc_backoff_max = 30000\<rparr>"

datatype Outcome = FeedCancelled | FeedDisconnected | FeedConnected

definition apply_payload :: "platform \<Rightarrow> Scene \<Rightarrow> string \<Rightarrow> string \<Rightarrow> bool \<times> Scene" where
  "apply_payload P scene pre text = (case from_slice P text of
      Inl _ \<Rightarrow> (False, scene)
    | Inr v \<Rightarrow>
        (let pairs = flatten_into_pairs pre v in
         if pairs = [] then (False, scene)
         else (case scene_emit pairs scene of
             (Inl _, scene') \<Rightarrow> (False, scene')
           | (Inr _, scene') \<Rightarrow> (True, scene'))))"

datatype FeedMsg = FmText string | FmBinary | FmFrame | FmPing | FmPong | FmClose

datatype FeedInput = FeedCancel bool bool | FeedYields "(string + FeedMsg) option"

definition feed_outcome :: "bool \<Rightarrow> Outcome" where
  "feed_outcome produced = (if produced then FeedConnected else FeedDisconnected)"

text \<open>The read loop of \<open>run_once\<close>; \<open>None\<close>: the inputs ended and the loop is still waiting.\<close>

fun feed_read :: "platform \<Rightarrow> WsSubscribeConfig \<Rightarrow> FeedInput list \<Rightarrow> bool \<Rightarrow> Scene \<Rightarrow> Outcome option \<times> Scene" where
  "feed_read P config [] produced scene = (None, scene)"
| "feed_read P config (FeedCancel closed flag # ins) produced scene =
     (if closed \<or> flag then (Some FeedCancelled, scene) else feed_read P config ins produced scene)"
| "feed_read P config (FeedYields (Some (Inr (FmText text))) # ins) produced scene =
     (let (applied, scene') = apply_payload P scene (wc_writes_to config) text in
      feed_read P config ins (applied \<or> produced) scene')"
| "feed_read P config (FeedYields None # ins) produced scene = (Some (feed_outcome produced), scene)"
| "feed_read P config (FeedYields (Some (Inl e)) # ins) produced scene = (Some (feed_outcome produced), scene)"
| "feed_read P config (FeedYields (Some (Inr FmClose)) # ins) produced scene = (Some (feed_outcome produced), scene)"
| "feed_read P config (FeedYields (Some (Inr _)) # ins) produced scene = feed_read P config ins produced scene"

definition run_once :: "platform \<Rightarrow> WsSubscribeConfig \<Rightarrow> (string \<Rightarrow> string + unit) \<Rightarrow> FeedInput list \<Rightarrow> Scene
    \<Rightarrow> Outcome option \<times> Scene" where
  "run_once P config connect ins scene = (case connect (wc_url config) of
      Inl _ \<Rightarrow> (Some FeedDisconnected, scene)
    | Inr _ \<Rightarrow> feed_read P config ins False scene)"

record Feed =
  fd_backoff :: nat
  fd_scene :: Scene
  fd_slept :: "nat list"

definition feed_start :: "WsSubscribeConfig \<Rightarrow> Scene \<Rightarrow> Feed" where
  "feed_start config scene = \<lparr>fd_backoff = wc_backoff_initial config, fd_scene = scene, fd_slept = []\<rparr>"

text \<open>
  One round of \<open>spawn\<close>'s loop: the value of \<open>cancel\<close> at its head, the connection's result and what it
  yields, and what ends the wait: the sleep, or \<open>changed()\<close>, which also returns at once on a closed
  channel, with the value then read.
\<close>

datatype Wait = Slept | WaitChanged bool

record Round =
  rd_cancel :: bool
  rd_connect :: "string \<Rightarrow> string + unit"
  rd_inputs :: "FeedInput list"
  rd_wait :: Wait

datatype Flow = Stops | Loops | Reads

definition feed_round :: "platform \<Rightarrow> WsSubscribeConfig \<Rightarrow> Round \<Rightarrow> Feed \<Rightarrow> Flow \<times> Feed" where
  "feed_round P config rd fd =
     (if rd_cancel rd then (Stops, fd)
      else (let (outcome, scene) = run_once P config (rd_connect rd) (rd_inputs rd) (fd_scene fd);
                fd1 = fd\<lparr>fd_scene := scene\<rparr>
        in case outcome of
          None \<Rightarrow> (Reads, fd1)
        | Some FeedCancelled \<Rightarrow> (Stops, fd1)
        | Some FeedDisconnected \<Rightarrow>
            (let backoff' = min (fd_backoff fd * 2) (wc_backoff_max config) in
             case rd_wait rd of
               Slept \<Rightarrow> (Loops, fd1\<lparr>fd_slept := fd_slept fd1 @ [fd_backoff fd], fd_backoff := backoff'\<rparr>)
             | WaitChanged flag \<Rightarrow> if flag then (Stops, fd1) else (Loops, fd1\<lparr>fd_backoff := backoff'\<rparr>))
        | Some FeedConnected \<Rightarrow> (Loops, fd1\<lparr>fd_backoff := wc_backoff_initial config\<rparr>)))"

fun feed_rounds :: "platform \<Rightarrow> WsSubscribeConfig \<Rightarrow> Round list \<Rightarrow> Feed \<Rightarrow> Flow \<times> Feed" where
  "feed_rounds P config [] fd = (Loops, fd)"
| "feed_rounds P config (rd # rds) fd = (case feed_round P config rd fd of
      (Loops, fd') \<Rightarrow> feed_rounds P config rds fd'
    | (flow, fd') \<Rightarrow> (flow, fd'))"

section \<open>What flattening yields\<close>




lemma walk_leaf: "\<not> is_object v \<Longrightarrow> walk path v = (if path \<noteq> [] then [(path, v)] else [])"
  by (cases v) auto

lemma path_extend_foldl_empty: "foldl path_extend path ks = [] \<Longrightarrow> path = []"
  by (induction ks arbitrary: path) (auto simp: path_extend_def split: if_splits)



section \<open>Properties\<close>



text \<open>
  A feed document is applied whole or not at all: either the task records success, and then the
  text is JSON, it has leaves, all their paths are grammatical and the scene's state is the old one
  with exactly these leaves written; or the scene is left as it was.
\<close>
theorem payload_all_or_nothing:
  assumes "scene_wf scene"
  shows "case apply_payload P scene pre text of
      (True, scene') \<Rightarrow> (\<exists>v. from_slice P text = Inr v \<and> flatten_into_pairs pre v \<noteq> []
        \<and> legal_updates (flatten_into_pairs pre v)
        \<and> scene_state scene' = bt_insert_all (flatten_into_pairs pre v) (scene_state scene))
    | (False, scene') \<Rightarrow> scene' = scene"
proof (cases "from_slice P text")
  case (Inr v)
  let ?ps = "flatten_into_pairs pre v"
  show ?thesis
  proof (cases "legal_updates ?ps")
    case True
    then obtain t where "emit_with_cause ?ps None scene = (Inr (), t)" using emit_ok by blast
    moreover from this have "scene_state t = bt_insert_all ?ps (scene_state scene)"
      using emit_state [OF assms True, of None] by simp
    ultimately show ?thesis using True Inr by (simp add: apply_payload_def scene_emit_def Let_def)
  next
    case False
    then obtain e where "parse_patches ?ps = Inl e" using parse_patches_cases [of ?ps] by auto
    then show ?thesis using Inr by (simp add: apply_payload_def scene_emit_def emit_eq Let_def)
  qed
qed (simp add: apply_payload_def)

theorem payload_all_or_nothing_witness:
  "scene_state (snd (apply_payload sample_platform (scene_new ''s'' ''v'') ''game''
     (to_vec sample_platform (JObject [(''home'', jnat 3)])))) = [(''game.home'', jnat 3)]"
proof -
  let ?doc = "JObject [(''home'', jnat 3)]"
  let ?x = "apply_payload sample_platform (scene_new ''s'' ''v'') ''game'' (to_vec sample_platform ?doc)"
  have "fst ?x" by code_simp
  moreover have "from_slice sample_platform (to_vec sample_platform ?doc) = Inr ?doc"
    using sample_json_text_ok by (simp add: json_text_ok_def wire_safe_def jnat_def bt_wf_def)
  moreover have "flatten_into_pairs ''game'' ?doc = [(''game.home'', jnat 3)]"
    by (simp add: flatten_into_pairs_def path_extend_def jnat_def)
  moreover have "scene_state (scene_new ''s'' ''v'') = []" by code_simp
  ultimately show ?thesis
    using payload_all_or_nothing [of "scene_new ''s'' ''v''" sample_platform "to_vec sample_platform ?doc" "''game''",
        OF scene_wf_new]
    by (simp add: case_prod_beta split: bool.splits)
qed

text \<open>The deadlines after a run of ticks that ended at the given instants.\<close>

definition run_ticks :: "nat \<Rightarrow> ((string \<times> json) list \<times> nat) list \<Rightarrow> Periodic \<Rightarrow> Periodic" where
  "run_ticks period ticks t = fold (\<lambda>(patches, now). periodic_tick period patches now) ticks t"

lemma run_ticks_next:
  "pt_next (run_ticks period ticks t) = Max (insert (pt_next t + length ticks * period)
     ((\<lambda>i. snd (ticks ! i) + (length ticks - Suc i) * period) ` {..<length ticks}))"
proof (induction ticks rule: rev_induct)
  case Nil
  then show ?case by (simp add: run_ticks_def)
next
  case (snoc x ticks)
  let ?n = "length ticks"
  let ?f = "\<lambda>i. snd (ticks ! i) + (?n - Suc i) * period"
  have img: "(\<lambda>i. snd ((ticks @ [x]) ! i) + (?n - i) * period) ` {..<Suc ?n} =
      insert (snd x) ((\<lambda>i. ?f i + period) ` {..<?n})"
  proof -
    have "snd ((ticks @ [x]) ! i) + (?n - i) * period = ?f i + period" if "i < ?n" for i
      using that by (simp add: nth_append Suc_diff_Suc [symmetric])
    then show ?thesis by (simp add: lessThan_Suc)
  qed
  let ?A = "insert (pt_next t + ?n * period) (?f ` {..<?n})"
  have "(\<lambda>a. a + period) ` ?A = insert (pt_next t + Suc ?n * period) ((\<lambda>i. ?f i + period) ` {..<?n})"
    by (simp add: image_image add.commute add.left_commute)
  moreover have "Max ((\<lambda>a. a + period) ` ?A) = Max ?A + period"
    by (rule mono_Max_commute [symmetric]) (auto intro: monoI)
  ultimately have "Max (insert (snd x) (insert (pt_next t + Suc ?n * period) ((\<lambda>i. ?f i + period) ` {..<?n})))
      = max (snd x) (Max ?A + period)"
    by (subst Max_insert) auto
  moreover have "pt_next (run_ticks period (ticks @ [x]) t) = max (snd x) (pt_next (run_ticks period ticks t) + period)"
    by (cases x) (simp add: run_ticks_def periodic_tick_def Let_def max_def)
  ultimately show ?case
    using snoc by (simp add: img insert_commute)
qed

text \<open>
  The schedule of a periodic task does not drift: after \<open>n\<close> ticks the next deadline is the start
  plus \<open>n + 1\<close> periods, unless some tick ran late, and then it is that tick's end plus the periods
  since; whichever is latest.
\<close>
theorem periodic_schedule:
  "pt_next (run_ticks period ticks (periodic_start start period scene)) =
    Max (insert (start + Suc (length ticks) * period)
      ((\<lambda>i. snd (ticks ! i) + (length ticks - Suc i) * period) ` {..<length ticks}))"
  by (simp add: run_ticks_next periodic_start_def add.assoc)

section \<open>Reconnecting\<close>

lemma feed_rounds_snoc:
  "feed_rounds P config rds fd = (Loops, fd') \<Longrightarrow>
    feed_rounds P config (rds @ [rd]) fd = feed_round P config rd fd'"
proof (induction rds arbitrary: fd)
  case Nil
  then show ?case by (simp split: prod.splits Flow.splits)
next
  case (Cons r rds)
  then show ?case by (auto split: prod.splits Flow.splits)
qed

definition failing_round :: "Wait \<Rightarrow> Round" where
  "failing_round w = \<lparr>rd_cancel = False, rd_connect = \<lambda>_. Inl ''refused'', rd_inputs = [], rd_wait = w\<rparr>"

text \<open>
  The feed's delays double from the initial one up to the cap: after any number of rounds that
  fail to connect and sleep, the task is still trying, and the delays it slept are exactly these.
\<close>
theorem feed_backoff_exact:
  "\<exists>fd. feed_rounds P config (replicate k (failing_round Slept)) (feed_start config scene) = (Loops, fd)
    \<and> fd_scene fd = scene
    \<and> fd_slept fd = map (\<lambda>i. if i = 0 then wc_backoff_initial config
        else min (wc_backoff_initial config * 2 ^ i) (wc_backoff_max config)) [0..<k]
    \<and> fd_backoff fd = (if k = 0 then wc_backoff_initial config
        else min (wc_backoff_initial config * 2 ^ k) (wc_backoff_max config))"
proof (induction k)
  case 0
  then show ?case by (simp add: feed_start_def)
next
  case (Suc k)
  then obtain fd where fd: "feed_rounds P config (replicate k (failing_round Slept)) (feed_start config scene) = (Loops, fd)"
    "fd_scene fd = scene"
    "fd_slept fd = map (\<lambda>i. if i = 0 then wc_backoff_initial config
        else min (wc_backoff_initial config * 2 ^ i) (wc_backoff_max config)) [0..<k]"
    "fd_backoff fd = (if k = 0 then wc_backoff_initial config
        else min (wc_backoff_initial config * 2 ^ k) (wc_backoff_max config))" by blast
  have "min (fd_backoff fd * 2) (wc_backoff_max config) = min (wc_backoff_initial config * 2 ^ Suc k) (wc_backoff_max config)"
    by (auto simp: fd(4) min_def mult_ac)
  moreover have "replicate (Suc k) (failing_round Slept) = replicate k (failing_round Slept) @ [failing_round Slept]"
    by (simp add: replicate_append_same)
  ultimately show ?case
    using feed_rounds_snoc [OF fd(1)] fd(2-4)
    by (simp add: feed_round_def failing_round_def run_once_def Let_def del: replicate.simps)
qed

text \<open>
  When the owner of the cancel channel goes away without cancelling, the wait returns at once
  with the old value: a feed that cannot connect then retries any number of times without ever
  sleeping and without ever ending.
\<close>
theorem feed_spins_when_channel_closed:
  "\<exists>fd. feed_rounds P config (replicate k (failing_round (WaitChanged False))) (feed_start config scene) = (Loops, fd)
    \<and> fd_slept fd = []"
proof (induction k)
  case 0
  then show ?case by (simp add: feed_start_def)
next
  case (Suc k)
  then obtain fd where "feed_rounds P config (replicate k (failing_round (WaitChanged False))) (feed_start config scene) = (Loops, fd)"
    "fd_slept fd = []" by blast
  then show ?case
    using feed_rounds_snoc [of P config "replicate k (failing_round (WaitChanged False))" "feed_start config scene" fd
        "failing_round (WaitChanged False)"]
    by (simp add: replicate_append_same feed_round_def failing_round_def run_once_def Let_def)
qed

end
