(* ===== verification/Example_Servers.thy ===== *)
theory Example_Servers
  imports Server
begin

text \<open>
  The two programs under \<open>examples/\<close>: \<open>high-throughput-feed\<close>, which writes numbered metrics in
  rotation, and \<open>basic-scoreboard\<close>, which plays a match. Each sets up a server with one seeded scene
  and runs a task that writes to it on a timer; a tick of the task is a step here. Binding the
  listener and the clock are arguments; serving requests is the server's, modelled elsewhere.
\<close>

section \<open>Command line of the feed\<close>

record FeedArgs =
  fa_rate :: u32
  fa_paths :: u32
  fa_bind :: string

definition feed_args_default :: FeedArgs where
  "feed_args_default = \<lparr>fa_rate = 1000, fa_paths = 50, fa_bind = ''127.0.0.1:4001''\<rparr>"

text \<open>An option takes the next argument, whatever it is; a number that does not parse changes nothing.\<close>

definition parse_u32_or :: "u32 \<Rightarrow> string \<Rightarrow> u32" where
  "parse_u32_or old s = (case parse_uint (2 ^ 32) s of Some n \<Rightarrow> of_nat n | None \<Rightarrow> old)"

fun parse_feed_args :: "string list \<Rightarrow> FeedArgs \<Rightarrow> FeedArgs" where
  "parse_feed_args [] args = args"
| "parse_feed_args (arg # rest) args =
     (if arg = ''--rate'' then (case rest of
          [] \<Rightarrow> args
        | s # rest' \<Rightarrow> parse_feed_args rest' (args\<lparr>fa_rate := parse_u32_or (fa_rate args) s\<rparr>))
      else if arg = ''--paths'' then (case rest of
          [] \<Rightarrow> args
        | s # rest' \<Rightarrow> parse_feed_args rest' (args\<lparr>fa_paths := parse_u32_or (fa_paths args) s\<rparr>))
      else if arg = ''--bind'' then (case rest of
          [] \<Rightarrow> args
        | b # rest' \<Rightarrow> parse_feed_args rest' (args\<lparr>fa_bind := b\<rparr>))
      else parse_feed_args rest args)"

section \<open>Setting up\<close>

text \<open>The part of \<open>main\<close> both programs share: build the server, add the scene, seed it.\<close>

definition example_start :: "(string \<Rightarrow> string + unit) \<Rightarrow> string \<Rightarrow> MapAuthenticator \<Rightarrow> SceneId
    \<Rightarrow> (string \<times> json) list \<Rightarrow> ServerError + ((string \<Rightarrow> AuthError + Identity) \<times> scene_ref \<times> Server)" where
  "example_start bind_to addr auth scene_id defaults =
     (case builder_build bind_to (builder_auth (authenticate auth) (builder_listen addr server_builder)) of
        Inl e \<Rightarrow> Inl e
      | Inr (check, srv) \<Rightarrow> (case new_scene scene_id srv of
          (Inl e, _) \<Rightarrow> Inl e
        | (Inr r, srv') \<Rightarrow> Inr (check, r, update_scene r (scene_seed defaults (scene_at srv' r)) srv')))"

definition metric_path :: "nat \<Rightarrow> string" where
  "metric_path i = ''metric.'' @ show_nat i"

definition feed_seed :: "u32 \<Rightarrow> (string \<times> json) list" where
  "feed_seed paths = map (\<lambda>i. (metric_path i, jnat 0)) [0 ..< unat paths]"

definition feed_auth :: MapAuthenticator where
  "feed_auth = auth_insert ''viewer'' Viewer auth_new"

definition feed_main :: "(string \<Rightarrow> string + unit) \<Rightarrow> FeedArgs
    \<Rightarrow> ServerError + ((string \<Rightarrow> AuthError + Identity) \<times> scene_ref \<times> Server)" where
  "feed_main bind_to args = example_start bind_to (fa_bind args) feed_auth ''feed'' (feed_seed (fa_paths args))"

section \<open>The producer of the feed\<close>

text \<open>
  Instants are in nanoseconds. A tick is what happens after the sleep until \<open>pr_next\<close> ends; the clock
  is read to see whether a report is due, and again when one was made.
\<close>

record Producer =
  pr_next :: nat
  pr_counter :: u64
  pr_emitted :: u64
  pr_last_report :: nat
  pr_reports :: "u64 list"
  pr_scene :: Scene

definition producer_start :: "nat \<Rightarrow> nat \<Rightarrow> nat \<Rightarrow> Scene \<Rightarrow> Producer" where
  "producer_start interval now now' scene = \<lparr>pr_next = now + interval, pr_counter = 0, pr_emitted = 0,
     pr_last_report = now', pr_reports = [], pr_scene = scene\<rparr>"

definition producer_tick :: "nat \<Rightarrow> u32 \<Rightarrow> nat \<times> nat \<Rightarrow> Producer \<Rightarrow> Producer" where
  "producer_tick interval paths clock p =
     (let next' = pr_next p + interval;
          path = metric_path (unat (pr_counter p mod ucast paths));
          counter = pr_counter p + 1;
          scene = snd (scene_set path (JNumber (PosInt counter)) (pr_scene p));
          emitted = pr_emitted p + 1 in
      if 5000000000 \<le> fst clock - pr_last_report p
      then p\<lparr>pr_next := next', pr_counter := counter, pr_scene := scene,
        pr_reports := pr_reports p @ [emitted], pr_last_report := snd clock, pr_emitted := 0\<rparr>
      else p\<lparr>pr_next := next', pr_counter := counter, pr_scene := scene, pr_emitted := emitted\<rparr>)"

text \<open>\<open>args.paths.max(1)\<close>, which is what the task rotates over.\<close>

definition feed_rotation :: "FeedArgs \<Rightarrow> u32" where
  "feed_rotation args = max (fa_paths args) 1"

definition produce :: "nat \<Rightarrow> u32 \<Rightarrow> (nat \<times> nat) list \<Rightarrow> Producer \<Rightarrow> Producer" where
  "produce interval paths clocks p = fold (producer_tick interval paths) clocks p"

section \<open>The scoreboard\<close>

definition scoreboard_auth :: MapAuthenticator where
  "scoreboard_auth = auth_insert ''viewer-token'' Viewer (auth_insert ''op-token'' Operator auth_new)"

definition scoreboard_seed :: "(string \<times> json) list" where
  "scoreboard_seed = [(''show.title'', JString ''Lumencast demo''), (''score.home'', jnat 0), (''score.away'', jnat 0)]"

definition scoreboard_main :: "(string \<Rightarrow> string + unit)
    \<Rightarrow> ServerError + ((string \<Rightarrow> AuthError + Identity) \<times> scene_ref \<times> Server)" where
  "scoreboard_main bind_to = example_start bind_to ''127.0.0.1:4000'' scoreboard_auth ''main-stage'' scoreboard_seed"

text \<open>\<open>None\<close>: the clock stands before the epoch, and zero nanoseconds are taken.\<close>

definition rand_bool :: "u32 option \<Rightarrow> bool" where
  "rand_bool subsec_nanos = (case subsec_nanos of None \<Rightarrow> True | Some n \<Rightarrow> n mod 2 = 0)"

text \<open>\<open>json!\<close> of an \<open>i64\<close>.\<close>

definition json_i64 :: "64 word \<Rightarrow> json" where
  "json_i64 n = JNumber (if sint n < 0 then NegInt n else PosInt n)"

record Match =
  mt_home :: "64 word"
  mt_away :: "64 word"
  mt_scene :: Scene

definition match_tick :: "u32 option \<Rightarrow> Match \<Rightarrow> Match" where
  "match_tick nanos m =
     (let m1 = (if rand_bool nanos then m\<lparr>mt_home := mt_home m + 1\<rparr> else m\<lparr>mt_away := mt_away m + 1\<rparr>) in
      m1\<lparr>mt_scene := snd (scene_emit [(''score.home'', json_i64 (mt_home m1)), (''score.away'', json_i64 (mt_away m1))]
        (mt_scene m1))\<rparr>)"

definition match_start :: "Scene \<Rightarrow> Match" where
  "match_start scene = \<lparr>mt_home = 0, mt_away = 0, mt_scene = scene\<rparr>"

section \<open>Decimal numbers and metric names\<close>

lemma of_char_digit: "d < 10 \<Longrightarrow> (of_char (char_of (48 + d) :: char) :: nat) = 48 + d"
  by (simp add: of_char_of)

lemma digit_char: "d < 10 \<Longrightarrow> is_ascii_digit (char_of (48 + d :: nat))"
  by (simp add: is_ascii_digit_def less_eq_char_def of_char_digit)

lemma show_nat_digits: "show_nat n \<noteq> [] \<and> list_all is_ascii_digit (show_nat n)"
proof (induction n rule: show_nat.induct)
  case (1 n)
  then show ?case by (cases "n < 10") (simp_all add: show_nat.simps [of n] digit_char)
qed

lemma digits_value_show: "digits_value (show_nat n) = n"
proof (induction n rule: show_nat.induct)
  case (1 n)
  have "digits_value (ds @ [d]) = digits_value ds * 10 + (of_char d - 48)" for ds d
    by (simp add: digits_value_def)
  then show ?case
    using 1 by (cases "n < 10") (simp_all add: show_nat.simps [of n] of_char_digit digits_value_def)
qed

lemma show_nat_inject: "show_nat m = show_nat n \<longleftrightarrow> m = n"
  by (metis digits_value_show)

lemma parse_uint_show: "n < bound \<Longrightarrow> parse_uint bound (show_nat n) = Some n"
proof -
  assume "n < bound"
  moreover have "hd (show_nat n) \<noteq> CHR ''+''"
    using show_nat_digits [of n] by (cases "show_nat n") (auto simp: is_ascii_digit_def less_eq_char_def)
  ultimately show ?thesis using show_nat_digits [of n] by (simp add: parse_uint_def digits_value_show)
qed

lemma metric_path_valid: "valid_path (metric_path i)"
proof -
  have dot: "CHR ''.'' \<notin> set (show_nat i)"
    using show_nat_digits [of i] by (auto simp: list_all_iff is_ascii_digit_def less_eq_char_def)
  have "metric_path i = ''metric'' @ CHR ''.'' # show_nat i" by (simp add: metric_path_def)
  then have "split_on CHR ''.'' (metric_path i) = [''metric'', show_nat i]"
    using dot by (simp only: split_on_append) (simp add: split_on_no_sep)
  moreover have "is_identifier ''metric''" by code_simp
  ultimately show ?thesis
    using show_nat_digits [of i] by (simp add: valid_path_def valid_seg_def is_segment_token_def is_index_def starts_with_def)
qed

lemma metric_path_inject: "metric_path i = metric_path j \<longleftrightarrow> i = j"
  by (simp add: metric_path_def show_nat_inject)

section \<open>What the programs set up\<close>

lemma example_start_ok:
  assumes "bind_to addr = Inr ()"
  shows "example_start bind_to addr auth i defaults = Inr (authenticate auth, 0,
    \<lparr>srv_heap = [scene_seed defaults (scene_new i placeholder_version)], srv_scenes = hm_insert i 0 [], srv_active = Some i,
      srv_events = [], srv_config = config_default\<rparr>)"
  using assms
  by (simp add: example_start_def builder_build_def builder_auth_def builder_listen_def server_builder_def new_scene_def
      new_scene_with_version_def add_scene_def Let_def update_scene_def scene_new_def)

lemma store_seed_alt: "store_seed kvs s = hm_insert_all kvs s"
  by (simp add: store_seed_def hm_insert_all_def)

lemma seeded_scene:
  "scene_wf (scene_seed defaults (scene_new i v))" "sc_seq (scene_seed defaults (scene_new i v)) = 1"
  "bt_get (scene_state (scene_seed defaults (scene_new i v))) = map_of (rev defaults)"
  using scene_wf_new [of i v]
  by (simp_all add: scene_wf_def scene_seed_def scene_new_def scene_state_def snapshot_get store_seed_alt
      store_new_def get_insert_all)

text \<open>One write of a legal value: the leaf changes, the others stay, one number is taken, one delta sent.\<close>

lemma emit_effect:
  assumes "scene_wf s" "legal_updates kvs" "kvs \<noteq> []" "Suc (unat (sc_seq s)) < 2 ^ 64"
  shows "fst (emit_with_cause kvs c s) = Inr ()" "scene_wf (snd (emit_with_cause kvs c s))"
    "unat (sc_seq (snd (emit_with_cause kvs c s))) = Suc (unat (sc_seq s))"
    "bt_get (scene_state (snd (emit_with_cause kvs c s))) = bt_get (scene_state s) ++ map_of (rev kvs)"
    "length (sc_sent (snd (emit_with_cause kvs c s))) = Suc (length (sc_sent s))"
proof -
  obtain k v rest where kvs: "kvs = (k, v) # rest" using assms(3) by (metis list.exhaust prod.exhaust)
  have "parse_patches kvs = Inr (map (\<lambda>(path, v). patch_new path v) kvs)"
    using assms(2) by (simp add: parse_patches_Inr)
  then have e: "emit_with_cause kvs c s = (Inr (), commit (next_record (map (\<lambda>(path, v). patch_new path v) kvs) c s) s)"
    by (simp add: emit_eq kvs)
  obtain ext where "length ext \<le> 1" "history s ext (snd (emit_with_cause kvs c s))"
    using history_emit [OF history_refl [OF assms(1)] assms(4), of kvs c] by auto
  then show "scene_wf (snd (emit_with_cause kvs c s))" by (simp add: history_def)
  show "bt_get (scene_state (snd (emit_with_cause kvs c s))) = bt_get (scene_state s) ++ map_of (rev kvs)"
    using emit_state [OF assms(1,2)] by (simp add: get_insert_all)
  show "fst (emit_with_cause kvs c s) = Inr ()" "unat (sc_seq (snd (emit_with_cause kvs c s))) = Suc (unat (sc_seq s))"
    "length (sc_sent (snd (emit_with_cause kvs c s))) = Suc (length (sc_sent s))"
    using assms(4) by (simp_all add: e commit_def next_record_def unat_add_one)
qed

section \<open>Rotation\<close>

text \<open>
  \<open>last_write p n i\<close>: the count of the last of \<open>n\<close> ticks that fell on metric \<open>i\<close> of \<open>p\<close>, zero if none did.
\<close>

definition last_write :: "nat \<Rightarrow> nat \<Rightarrow> nat \<Rightarrow> nat" where
  "last_write p n i = (if i < n then n - (n - 1 - i) mod p else 0)"

lemma last_write_Suc:
  assumes "i < p"
  shows "last_write p (Suc n) i = (if i = n mod p then Suc n else last_write p n i)"
proof (cases "i \<le> n")
  case True
  show ?thesis
  proof (cases "i = n mod p")
    case True
    then have "(n - i) mod p = 0" by (metis minus_mod_eq_mult_div mod_mult_self1_is_0)
    with True \<open>i \<le> n\<close> show ?thesis by (simp add: last_write_def less_Suc_eq_le)
  next
    case False
    have "(n - i) mod p \<noteq> 0"
    proof
      assume "(n - i) mod p = 0"
      then have "n mod p = i mod p" using \<open>i \<le> n\<close> by (metis mod_add_self2 le_add_diff_inverse mod_add_right_eq add_0_right)
      with False assms show False by simp
    qed
    moreover from this have "i < n" using \<open>i \<le> n\<close> by (cases "i = n") auto
    then have "n - i = Suc (n - 1 - i)" by simp
    ultimately have "(n - i) mod p = Suc ((n - 1 - i) mod p)" by (metis mod_Suc)
    moreover have "(n - 1 - i) mod p \<le> n - 1 - i" by simp
    ultimately show ?thesis using False \<open>i < n\<close> by (simp add: last_write_def)
  qed
next
  case False
  then have "n < p" "i \<noteq> n mod p" using assms by (auto simp: not_le)
  with False show ?thesis by (simp add: last_write_def)
qed

lemma seed_lookup: "map_of (rev (feed_seed paths)) (metric_path i) = (if i < unat paths then Some (jnat 0) else None)"
proof -
  have "inj metric_path" by (simp add: inj_def metric_path_inject)
  then have "distinct (map fst (feed_seed paths))"
    by (auto simp: feed_seed_def comp_def distinct_map intro: inj_on_subset)
  then have "map_of (rev (feed_seed paths)) = map_of (feed_seed paths)" by (rule map_of_rev)
  then show ?thesis
    using \<open>distinct (map fst (feed_seed paths))\<close>
    by (auto simp: feed_seed_def metric_path_inject image_iff map_of_eq_None_iff intro!: map_of_is_SomeI)
qed

text \<open>The producer after \<open>n\<close> ticks on a rotation of \<open>p\<close> metrics, from the scene \<open>s0\<close>.\<close>

definition rotated :: "Scene \<Rightarrow> nat \<Rightarrow> nat \<Rightarrow> Producer \<Rightarrow> bool" where
  "rotated s0 p n pr \<longleftrightarrow> unat (pr_counter pr) = n \<and> scene_wf (pr_scene pr)
     \<and> unat (sc_seq (pr_scene pr)) = unat (sc_seq s0) + n
     \<and> length (sc_sent (pr_scene pr)) = length (sc_sent s0) + n
     \<and> (\<forall>i < p. bt_get (scene_state (pr_scene pr)) (metric_path i) =
          (if i < n then Some (jnat (last_write p n i)) else bt_get (scene_state s0) (metric_path i)))
     \<and> (\<forall>k. (\<forall>i < p. k \<noteq> metric_path i) \<longrightarrow> bt_get (scene_state (pr_scene pr)) k = bt_get (scene_state s0) k)"

lemma rotated_tick:
  assumes "rotated s0 (unat paths) n pr" "0 < paths" "Suc (unat (sc_seq s0) + n) < 2 ^ 64"
  shows "rotated s0 (unat paths) (Suc n) (producer_tick interval paths clock pr)"
proof -
  let ?p = "unat paths" and ?s = "pr_scene pr" and ?pr = "producer_tick interval paths clock pr"
  have n: "unat (pr_counter pr) = n" "scene_wf ?s" "unat (sc_seq ?s) = unat (sc_seq s0) + n"
    using assms(1) by (simp_all add: rotated_def)
  have p: "0 < ?p" using assms(2) by (simp add: word_less_nat_alt)
  have "unat (ucast paths :: u64) = ?p"
    using unsigned_less [of paths, where ?'a = nat] by (simp add: unsigned_ucast_eq take_bit_nat_eq_self)
  then have next_: "unat (pr_counter pr mod ucast paths) = n mod ?p"
    by (simp add: unat_mod_distrib n(1))
  have count: "unat (pr_counter pr + 1) = Suc n" using assms(3) n(1) by (simp add: unat_add_one)
  then have val: "JNumber (PosInt (pr_counter pr + 1)) = jnat (Suc n)"
    by (simp add: jnat_def word_unat_eq_iff flip: count)
  let ?kvs = "[(metric_path (n mod ?p), jnat (Suc n))]"
  have scene: "pr_scene ?pr = snd (emit_with_cause ?kvs None ?s)" "pr_counter ?pr = pr_counter pr + 1"
    by (simp_all add: producer_tick_def Let_def next_ scene_set_emit val)
  have legal: "legal_updates ?kvs" by (simp add: metric_path_valid jnat_def)
  note eff = emit_effect [OF n(2) legal _, of None]
  have get: "bt_get (scene_state (pr_scene ?pr)) = (bt_get (scene_state ?s))(metric_path (n mod ?p) \<mapsto> jnat (Suc n))"
    using eff(4) assms(3) n(3) by (simp add: scene(1))
  have "bt_get (scene_state (pr_scene ?pr)) (metric_path i) =
      (if i < Suc n then Some (jnat (last_write ?p (Suc n) i)) else bt_get (scene_state s0) (metric_path i))"
    if "i < ?p" for i
    using that assms(1) p by (auto simp: get rotated_def last_write_Suc metric_path_inject less_Suc_eq)
  then show ?thesis
    using assms(1,3) eff n p by (auto simp: rotated_def scene count get)
qed

lemma rotated_run:
  assumes "rotated s0 (unat paths) n pr" "0 < paths" "Suc (unat (sc_seq s0) + n + length clocks) < 2 ^ 64"
  shows "rotated s0 (unat paths) (n + length clocks) (produce interval paths clocks pr)"
  using assms
proof (induction clocks arbitrary: n pr)
  case (Cons c cs)
  have "rotated s0 (unat paths) (Suc n) (producer_tick interval paths c pr)"
    using Cons.prems by (intro rotated_tick) simp_all
  then show ?case using Cons.IH [of "Suc n"] Cons.prems by (simp add: produce_def)
qed (simp add: produce_def)

section \<open>Properties\<close>

text \<open>
  The feed does what it is for. Whatever the number of paths asked for and whatever the clock
  says, after \<open>n\<close> ticks the scene the program set up has taken exactly \<open>n\<close> numbers and sent \<open>n\<close> deltas, no
  write was refused, and metric \<open>i\<close> of the rotation holds the count of the last tick that fell on it,
  or its seed if none did yet.
\<close>
theorem feed_round_robin:
  assumes "bind_to (fa_bind args) = Inr ()" "length clocks < 2 ^ 64 - 2"
  defines "p \<equiv> unat (feed_rotation args)"
  shows "\<exists>check r srv. feed_main bind_to args = Inr (check, r, srv) \<and>
    (let s = pr_scene (produce interval (feed_rotation args) clocks (producer_start interval now now' (scene_at srv r))) in
      unat (sc_seq s) = Suc (length clocks) \<and> length (sc_sent s) = length clocks
      \<and> (\<forall>i < p. bt_get (scene_state s) (metric_path i) =
          (if i < length clocks then Some (jnat (length clocks - (length clocks - 1 - i) mod p))
           else if i < unat (fa_paths args) then Some (jnat 0) else None)))"
proof -
  let ?s0 = "scene_seed (feed_seed (fa_paths args)) (scene_new ''feed'' placeholder_version)"
  let ?pr = "producer_start interval now now' ?s0"
  have start: "feed_main bind_to args = Inr (authenticate feed_auth, 0, \<lparr>srv_heap = [?s0], srv_scenes = hm_insert ''feed'' 0 [],
      srv_active = Some ''feed'', srv_events = [], srv_config = config_default\<rparr>)"
    using assms(1) by (simp add: feed_main_def example_start_ok)
  have "rotated ?s0 p 0 ?pr" by (simp add: rotated_def producer_start_def seeded_scene)
  moreover have "0 < feed_rotation args" by (simp add: feed_rotation_def less_max_iff_disj)
  ultimately have "rotated ?s0 p (length clocks) (produce interval (feed_rotation args) clocks ?pr)"
    using rotated_run [of ?s0 "feed_rotation args" 0 ?pr clocks interval] assms(2) by (simp add: p_def seeded_scene)
  moreover have "sc_sent ?s0 = []" by (simp add: scene_seed_def scene_new_def)
  ultimately show ?thesis
    by (simp add: start Let_def rotated_def seeded_scene seed_lookup last_write_def)
qed

theorem feed_round_robin_witness:
  "\<exists>check r srv. feed_main (\<lambda>_. Inr ()) (parse_feed_args [''--paths'', ''2''] feed_args_default) = Inr (check, r, srv) \<and>
    bt_get (scene_state (pr_scene (produce 1000000 2 [(1, 1), (2, 2), (3, 3)]
      (producer_start 1000000 0 0 (scene_at srv r))))) (metric_path 0) = Some (jnat 3)"
proof -
  let ?args = "parse_feed_args [''--paths'', ''2''] feed_args_default"
  have "parse_uint (2 ^ 32) ''2'' = Some 2" by (simp add: parse_uint_def digits_value_def is_ascii_digit_def less_eq_char_def)
  then have "fa_paths ?args = 2" by (simp add: parse_u32_or_def feed_args_default_def)
  then have "feed_rotation ?args = 2" by (simp add: feed_rotation_def)
  then show ?thesis
    using feed_round_robin [of "\<lambda>_. Inr ()" ?args "[(1, 1), (2, 2), (3, 3)]" 1000000 0 0]
    by (auto simp: Let_def numeral_3_eq_3)
qed

text \<open>The match after the ticks \<open>ns\<close>, from the scene \<open>s0\<close>.\<close>

definition home_goals :: "u32 option list \<Rightarrow> nat" where
  "home_goals ns = length (filter rand_bool ns)"

definition away_goals :: "u32 option list \<Rightarrow> nat" where
  "away_goals ns = length (filter (\<lambda>n. \<not> rand_bool n) ns)"

definition scored :: "Scene \<Rightarrow> u32 option list \<Rightarrow> Match \<Rightarrow> bool" where
  "scored s0 ns m \<longleftrightarrow> unat (mt_home m) = home_goals ns \<and> unat (mt_away m) = away_goals ns
     \<and> scene_wf (mt_scene m) \<and> unat (sc_seq (mt_scene m)) = unat (sc_seq s0) + length ns
     \<and> bt_get (scene_state (mt_scene m)) = (if ns = [] then bt_get (scene_state s0) else
         (bt_get (scene_state s0))(''score.home'' \<mapsto> jnat (home_goals ns), ''score.away'' \<mapsto> jnat (away_goals ns)))"

lemma goals_total: "home_goals ns + away_goals ns = length ns"
  by (simp add: home_goals_def away_goals_def sum_length_filter_compl)

lemma json_i64_small:
  assumes "unat n < 2 ^ 63"
  shows "json_i64 n = jnat (unat n)"
proof -
  have "uint n < 2 ^ 63" using assms unfolding uint_nat by (simp only: of_nat_less_numeral_power_cancel_iff)
  then have "\<not> bit (uint n) 63" by (simp add: bit_iff_odd)
  then have "\<not> bit n 63" by (simp add: bit_uint_iff)
  then have "\<not> sint n < 0" using bit_last_iff [of n] by simp
  then show ?thesis by (simp add: json_i64_def jnat_def)
qed

lemma score_paths: "valid_path ''score.home''" "valid_path ''score.away''"
proof -
  have "is_ok (validate_path ''score.home'')" "is_ok (validate_path ''score.away'')" by code_simp+
  then show "valid_path ''score.home''" "valid_path ''score.away''" by (simp_all only: validate_path_ok)
qed

lemma scored_tick:
  assumes "scored s0 ns m" "Suc (unat (sc_seq s0) + length ns) < 2 ^ 63"
  shows "scored s0 (ns @ [n]) (match_tick n m)"
proof -
  let ?m = "match_tick n m"
  have m: "unat (mt_home m) = home_goals ns" "unat (mt_away m) = away_goals ns" "scene_wf (mt_scene m)"
      "unat (sc_seq (mt_scene m)) = unat (sc_seq s0) + length ns"
    using assms(1) by (simp_all add: scored_def)
  have small: "Suc (home_goals ns) < 2 ^ 63" "Suc (away_goals ns) < 2 ^ 63"
    using assms(2) goals_total [of ns] by linarith+
  have goals: "unat (mt_home ?m) = home_goals (ns @ [n])" "unat (mt_away ?m) = away_goals (ns @ [n])"
    using m(1,2) small by (simp_all add: match_tick_def Let_def home_goals_def away_goals_def unat_add_one)
  have "home_goals (ns @ [n]) < 2 ^ 63" "away_goals (ns @ [n]) < 2 ^ 63"
    using small by (auto simp: home_goals_def away_goals_def)
  then have json: "json_i64 (mt_home ?m) = jnat (home_goals (ns @ [n]))" "json_i64 (mt_away ?m) = jnat (away_goals (ns @ [n]))"
    using json_i64_small [of "mt_home ?m"] json_i64_small [of "mt_away ?m"] by (simp_all add: goals)
  let ?kvs = "[(''score.home'', jnat (home_goals (ns @ [n]))), (''score.away'', jnat (away_goals (ns @ [n])))]"
  have scene: "mt_scene ?m = snd (emit_with_cause ?kvs None (mt_scene m))"
    using json by (auto simp: match_tick_def Let_def scene_emit_def)
  have legal: "legal_updates ?kvs" by (simp add: score_paths jnat_def)
  have room: "Suc (unat (sc_seq (mt_scene m))) < 2 ^ 64" using assms(2) m(4) by simp
  note eff = emit_effect [OF m(3) legal _ room, of None]
  show ?thesis
    using assms(1) eff m goals by (auto simp: scored_def scene fun_eq_iff)
qed

lemma scored_run:
  assumes "scored s0 [] m" "Suc (unat (sc_seq s0) + length ns) < 2 ^ 63"
  shows "scored s0 ns (fold match_tick ns m)"
  using assms(2)
proof (induction ns rule: rev_induct)
  case (snoc n ns)
  then show ?case using scored_tick [of s0 ns "fold match_tick ns m" n] by simp
qed (use assms(1) in simp)

text \<open>
  The scoreboard keeps score: after any ticks the board shows as many home goals as the coin said home
  and as many away goals as it did not, together one per tick, and the title it was seeded with.
\<close>
theorem scoreboard_exact:
  assumes "bind_to ''127.0.0.1:4000'' = Inr ()" "length ns < 2 ^ 63 - 2"
  shows "\<exists>check r srv. scoreboard_main bind_to = Inr (check, r, srv) \<and>
    (let s = mt_scene (fold match_tick ns (match_start (scene_at srv r))) in
      bt_get (scene_state s) ''score.home'' = Some (jnat (home_goals ns))
      \<and> bt_get (scene_state s) ''score.away'' = Some (jnat (away_goals ns))
      \<and> home_goals ns + away_goals ns = length ns
      \<and> bt_get (scene_state s) ''show.title'' = Some (JString ''Lumencast demo'')
      \<and> unat (sc_seq s) = Suc (length ns))"
proof -
  let ?s0 = "scene_seed scoreboard_seed (scene_new ''main-stage'' placeholder_version)"
  have start: "scoreboard_main bind_to = Inr (authenticate scoreboard_auth, 0, \<lparr>srv_heap = [?s0],
      srv_scenes = hm_insert ''main-stage'' 0 [], srv_active = Some ''main-stage'', srv_events = [], srv_config = config_default\<rparr>)"
    using assms(1) by (simp add: scoreboard_main_def example_start_ok)
  have "scored ?s0 [] (match_start ?s0)"
    by (simp add: scored_def match_start_def home_goals_def away_goals_def seeded_scene)
  then have "scored ?s0 ns (fold match_tick ns (match_start ?s0))"
    using assms(2) by (intro scored_run) (simp_all add: seeded_scene)
  moreover have "home_goals [] = 0" "away_goals [] = 0" by (simp_all add: home_goals_def away_goals_def)
  ultimately show ?thesis
    by (auto simp: start Let_def scored_def seeded_scene goals_total scoreboard_seed_def)
qed

end
