(* ===== verification/Live_Updates.thy ===== *)
theory Live_Updates
  imports Delivery Adapters Example_Servers
begin

text \<open>
  What travels through the whole system: an operator's input to the other subscribers, the documents
  of a feed to a subscriber, a subscriber that fell behind back to the scene, and an error frame that
  overtakes a delta.
\<close>

section \<open>One emission and one reader\<close>

lemma emit_commits:
  assumes "legal_updates ps" "ps \<noteq> []"
  shows "emit_with_cause ps cause s =
    (Inr (), commit (next_record (map (\<lambda>(path, v). patch_new path v) ps) cause s) s)"
  using assms parse_patches_cases [of ps] by (cases ps) (auto simp: emit_eq)

lemma emit_history:
  fixes cause :: "Cause option"
  assumes "scene_wf s" "legal_updates ps" "Suc (unat (sc_seq s)) < 2 ^ 64"
  defines "rc \<equiv> next_record (map (\<lambda>(path, v). patch_new path v) ps) cause s"
  shows "history s [rc] (commit rc s)"
proof -
  have "record_legal rc"
    using assms(2) by (auto simp: rc_def record_legal_def next_record_def patch_new_def is_value_legal_def list_all_iff)
  then show ?thesis
    using history_commit [OF history_refl [OF assms(1)] assms(3), of rc] by (simp add: rc_def next_record_def)
qed

lemma loop_one_delta:
  assumes "cn_budget conn = None"
  shows "\<exists>w'. run_loop P [(env, env', others, FromDeltas (RxOk d))] rs (srv, conn) = (None, w')
    \<and> cn_out (snd w') = cn_out conn @ [MText (server_text P (payload_frame d))]"
  using run_loop_deltas [of "(srv, conn)" "[(env, env', others, FromDeltas (RxOk d))]" "[d]" P rs] assms by auto

section \<open>Documents of a feed\<close>

text \<open>The texts that \<open>feed_read\<close> gets to before it ends, and what a document does to the leaves.\<close>

fun feed_texts :: "FeedInput list \<Rightarrow> string list" where
  "feed_texts [] = []"
| "feed_texts (FeedCancel closed flag # ins) = (if closed \<or> flag then [] else feed_texts ins)"
| "feed_texts (FeedYields (Some (Inr (FmText text))) # ins) = text # feed_texts ins"
| "feed_texts (FeedYields (Some (Inr FmBinary)) # ins) = feed_texts ins"
| "feed_texts (FeedYields (Some (Inr FmFrame)) # ins) = feed_texts ins"
| "feed_texts (FeedYields (Some (Inr FmPing)) # ins) = feed_texts ins"
| "feed_texts (FeedYields (Some (Inr FmPong)) # ins) = feed_texts ins"
| "feed_texts (FeedYields _ # ins) = []"

definition document_effect :: "platform \<Rightarrow> string \<Rightarrow> string \<Rightarrow> State \<Rightarrow> State" where
  "document_effect P pre text st = (case from_slice P text of
      Inl _ \<Rightarrow> st
    | Inr v \<Rightarrow> (if legal_updates (flatten_into_pairs pre v) then bt_insert_all (flatten_into_pairs pre v) st else st))"

lemma scene_step_idle: "scene_step s s"
  using step_emit [of s "[]" None] by (simp add: emit_eq)

text \<open>A document is at most one emission.\<close>

lemma payload_emit:
  "snd (apply_payload P s pre text) = (case from_slice P text of
     Inl _ \<Rightarrow> s | Inr v \<Rightarrow> snd (emit_with_cause (flatten_into_pairs pre v) None s))"
  by (auto simp: apply_payload_def scene_emit_def Let_def emit_eq split: sum.splits prod.splits)

lemma payload_step: "scene_step s (snd (apply_payload P s pre text))"
  unfolding payload_emit by (cases "from_slice P text") (auto intro: scene_step_idle step_emit)

lemma payload_state:
  assumes "scene_wf s"
  shows "scene_state (snd (apply_payload P s pre text)) = document_effect P pre text (scene_state s)"
proof -
  have "scene_state (snd (emit_with_cause ps None s)) =
      (if legal_updates ps then bt_insert_all ps (scene_state s) else scene_state s)" for ps
    using emit_state [OF assms, of ps None] parse_patches_cases [of ps] by (auto simp: emit_eq split: if_splits)
  then show ?thesis
    unfolding payload_emit document_effect_def by (cases "from_slice P text") simp_all
qed

lemma steps_wf:
  assumes "scene_wf s" "(scene_step ^^ n) s t" "unat (sc_seq s) + n < 2 ^ 64"
  shows "scene_wf t" "unat (sc_seq t) \<le> unat (sc_seq s) + n"
  using history_steps [OF assms(2,1,3)] by (auto simp: history_def)

text \<open>The read loop of one connection.\<close>

lemma feed_read_steps: "(scene_step ^^ length (feed_texts ins)) s (snd (feed_read P config ins produced s))"
proof (induction P config ins produced s rule: feed_read.induct)
  case (3 P config "text" ins produced s)
  from "3.IH" [OF refl prod.collapse] payload_step [of s P "wc_writes_to config" "text"]
  show ?case by (auto simp: case_prod_beta intro: relpowp_Suc_I2 simp del: relpowp.simps)
qed (auto split: if_splits)

lemma feed_read_state:
  assumes "scene_wf s" "unat (sc_seq s) + length (feed_texts ins) < 2 ^ 64"
  shows "scene_state (snd (feed_read P config ins produced s)) =
    fold (document_effect P (wc_writes_to config)) (feed_texts ins) (scene_state s)"
  using assms
proof (induction P config ins produced s rule: feed_read.induct)
  case (3 P config "text" ins produced s)
  let ?s = "snd (apply_payload P s (wc_writes_to config) text)"
  have "(scene_step ^^ 1) s ?s" using payload_step by (auto simp: relcompp_apply)
  from steps_wf [OF "3.prems"(1) this] "3.prems"(2)
  have "scene_wf ?s" "unat (sc_seq ?s) + length (feed_texts ins) < 2 ^ 64" by auto
  from "3.IH" [OF refl prod.collapse this] payload_state [OF "3.prems"(1), of P "wc_writes_to config" "text"]
  show ?case by (simp add: case_prod_beta)
qed (auto split: if_splits)

text \<open>The texts of the rounds of the reconnect loop that take place.\<close>

definition round_texts :: "WsSubscribeConfig \<Rightarrow> Round \<Rightarrow> string list" where
  "round_texts config rd = (if rd_cancel rd then [] else (case rd_connect rd (wc_url config) of
      Inl _ \<Rightarrow> [] | Inr _ \<Rightarrow> feed_texts (rd_inputs rd)))"

fun fed_texts :: "platform \<Rightarrow> WsSubscribeConfig \<Rightarrow> Round list \<Rightarrow> Feed \<Rightarrow> string list" where
  "fed_texts P config [] fd = []"
| "fed_texts P config (rd # rds) fd = round_texts config rd @ (case feed_round P config rd fd of
      (Loops, fd') \<Rightarrow> fed_texts P config rds fd'
    | _ \<Rightarrow> [])"

lemma feed_round_scene:
  "fd_scene (snd (feed_round P config rd fd)) =
     (if rd_cancel rd then fd_scene fd else snd (run_once P config (rd_connect rd) (rd_inputs rd) (fd_scene fd)))"
  by (auto simp: feed_round_def Let_def split: prod.splits option.splits Outcome.splits Wait.splits)

lemma feed_round_steps:
  "(scene_step ^^ length (round_texts config rd)) (fd_scene fd) (fd_scene (snd (feed_round P config rd fd)))"
  using feed_read_steps by (simp add: feed_round_scene round_texts_def run_once_def split: sum.splits)

lemma feed_round_state:
  assumes "scene_wf (fd_scene fd)" "unat (sc_seq (fd_scene fd)) + length (round_texts config rd) < 2 ^ 64"
  shows "scene_state (fd_scene (snd (feed_round P config rd fd))) =
    fold (document_effect P (wc_writes_to config)) (round_texts config rd) (scene_state (fd_scene fd))"
  using assms feed_read_state
  by (cases "rd_cancel rd") (simp_all add: feed_round_scene round_texts_def run_once_def split: sum.splits)

lemma feed_rounds_steps:
  "(scene_step ^^ length (fed_texts P config rds fd)) (fd_scene fd) (fd_scene (snd (feed_rounds P config rds fd)))"
proof (induction rds arbitrary: fd)
  case (Cons rd rds)
  obtain flow fd' where round: "feed_round P config rd fd = (flow, fd')" by fastforce
  show ?case
    using feed_round_steps [of config rd fd P] Cons.IH [of fd'] round
    by (cases flow) (auto simp: relpowp_add relcompp_apply)
qed simp

lemma feed_rounds_state:
  assumes "scene_wf (fd_scene fd)" "unat (sc_seq (fd_scene fd)) + length (fed_texts P config rds fd) < 2 ^ 64"
  shows "scene_state (fd_scene (snd (feed_rounds P config rds fd))) =
    fold (document_effect P (wc_writes_to config)) (fed_texts P config rds fd) (scene_state (fd_scene fd))"
  using assms
proof (induction rds arbitrary: fd)
  case (Cons rd rds)
  obtain flow fd' where round: "feed_round P config rd fd = (flow, fd')" by fastforce
  have room: "unat (sc_seq (fd_scene fd)) + length (round_texts config rd) < 2 ^ 64" using Cons.prems(2) by simp
  note wf = steps_wf [OF Cons.prems(1) feed_round_steps [of config rd fd P] room, unfolded round snd_conv]
  show ?case
    using feed_round_state [OF Cons.prems(1) room, of P] Cons.IH [OF wf(1)] wf(2) Cons.prems(2) round
    by (cases flow) auto
qed simp

lemma feed_texts_length: "length (feed_texts ins) \<le> length ins"
  by (induction ins rule: feed_texts.induct) auto

lemma fed_texts_length: "length (fed_texts P config rds fd) \<le> sum_list (map (\<lambda>rd. length (rd_inputs rd)) rds)"
proof (induction rds arbitrary: fd)
  case (Cons rd rds)
  have "length (round_texts config rd) \<le> length (rd_inputs rd)"
    using feed_texts_length by (simp add: round_texts_def split: sum.splits)
  then show ?case using Cons.IH by (auto split: prod.splits Flow.splits intro: add_mono trans_le_add1)
qed simp

section \<open>Writers of a scene\<close>

text \<open>
  Every task of the program that writes a scene does so by the scene's own operations. \<open>act\<close> is what
  the task does on an input, \<open>cost\<close> bounds the operations it takes; its subscribers then follow, whatever
  the task is.
\<close>

locale scene_writer =
  fixes scene_of :: "'a \<Rightarrow> Scene" and act :: "'i \<Rightarrow> 'a \<Rightarrow> 'a" and cost :: "'i \<Rightarrow> nat"
  assumes acts_by_steps: "\<exists>n \<le> cost i. (scene_step ^^ n) (scene_of x) (scene_of (act i x))"
begin

lemma runs_by_steps: "\<exists>n \<le> sum_list (map cost ins). (scene_step ^^ n) (scene_of x) (scene_of (fold act ins x))"
proof (induction ins arbitrary: x)
  case (Cons i ins)
  obtain m n where "m \<le> cost i" "(scene_step ^^ m) (scene_of x) (scene_of (act i x))"
    "n \<le> sum_list (map cost ins)" "(scene_step ^^ n) (scene_of (act i x)) (scene_of (fold act ins (act i x)))"
    using acts_by_steps [of i x] Cons.IH [of "act i x"] by blast
  then show ?case by (auto intro!: exI [of _ "m + n"] simp: relpowp_add relcompp_apply)
qed simp

lemma subscriber_follows:
  assumes "json_text_ok P" "scene_wf (scene_of x)" "state_servable (scene_of x)" "state_transportable (scene_of x)"
    "sc_seq (scene_of x) \<noteq> 0" "unat (sc_seq (scene_of x)) + sum_list (map cost ins) < 2 ^ 64"
    "list_all delta_transportable (sc_sent (scene_of (fold act ins x)))"
  shows "let s = scene_of x; t = scene_of (fold act ins x);
      mg = manager_run P scale (client_inputs P (server_text P (snapshot_frame env s)
        # map (\<lambda>d. server_text P (payload_frame d)) (drop (length (sc_sent s)) (sc_sent t)))) (manager_start st) in
    mg_phase mg = Driving \<lparr>tracker_last = sc_seq t\<rparr> \<and> client_view (mg_events mg) = scene_state t"
proof -
  let ?t = "scene_of (fold act ins x)"
  obtain n where n: "n \<le> sum_list (map cost ins)" "(scene_step ^^ n) (scene_of x) ?t"
    using runs_by_steps by blast
  then obtain log where log: "history (scene_of x) log ?t"
    using history_steps [OF n(2) assms(2)] assms(6) by auto
  then have "drop (length (sc_sent (scene_of x))) (sc_sent ?t) = map payload log" by (simp add: history_def)
  then show ?thesis
    using client_follows_history [OF assms(1,3,5,4) log assms(7), of scale env st] by (simp only: Let_def)
qed

end

text \<open>A task that takes one step per input.\<close>

lemma scene_writer_step: "(\<And>i x. scene_step (scene_of x) (scene_of (act i x))) \<Longrightarrow> scene_writer scene_of act (\<lambda>_. 1)"
  by unfold_locales (auto intro!: exI [of _ 1] simp: relcompp_apply)

interpretation feed_writer: scene_writer fd_scene "\<lambda>rds fd. snd (feed_rounds P config rds fd)"
    "\<lambda>rds. sum_list (map (\<lambda>rd. length (rd_inputs rd)) rds)"
  using feed_rounds_steps fed_texts_length by unfold_locales blast

interpretation poll_writer: scene_writer pt_scene "\<lambda>(send, now). http_poll_tick P config send now" "\<lambda>_. 1"
  by (rule scene_writer_step)
    (auto simp: http_poll_tick_def periodic_tick_def Let_def scene_emit_def intro: scene_step_idle step_emit)

interpretation producer_writer: scene_writer pr_scene "producer_tick interval paths" "\<lambda>_. 1"
  by (rule scene_writer_step) (auto simp: producer_tick_def Let_def intro: step_set)

interpretation match_writer: scene_writer mt_scene match_tick "\<lambda>_. 1"
  by (rule scene_writer_step) (auto simp: match_tick_def Let_def scene_emit_def intro: step_emit)

lemma text_frame_step:
  "scene_step (scene_at (fst w) r) (scene_at (fst (snd (handle_text_frame P env text r identity w))) r)"
proof (cases "\<exists>input. decode_client P text = Inr (CInput input) \<and> input_accepted P env input r identity w")
  case True
  then obtain input where "decode_client P text = Inr (CInput input)" "input_accepted P env input r identity w" by blast
  then have "fst (snd (handle_text_frame P env text r identity w)) = update_scene r (snd (emit_with_cause (input_updates input)
      (input_cause identity input) (scene_at (fst w) r))) (fst w)"
    using text_input_cases [of P "text" input env r identity w] by (simp add: Let_def)
  then show ?thesis
    by (cases "r < length (srv_heap (fst w))") (auto simp: update_scene_def list_update_beyond intro: step_emit scene_step_idle)
next
  case False
  then show ?thesis by (simp add: text_unaccepted_server scene_step_idle)
qed

interpretation input_writer: scene_writer "\<lambda>w. scene_at (fst w) r"
    "\<lambda>(env, text) w. snd (handle_text_frame P env text r identity w)" "\<lambda>_. 1"
  by (rule scene_writer_step) (auto intro: text_frame_step)

section \<open>Falling behind\<close>

text \<open>What the client's socket yields for a message of the server.\<close>

fun yielded :: "WsMessage \<Rightarrow> ManagerInput" where
  "yielded (MText t) = SocketYielded (Some (Inr (CmText t)))"
| "yielded (MBinary b) = SocketYielded (Some (Inr (CmBinary b)))"
| "yielded (MPing b) = SocketYielded (Some (Inr (CmPing b)))"
| "yielded (MPong b) = SocketYielded (Some (Inr (CmPong b)))"
| "yielded (MClose _) = SocketYielded (Some (Inr CmClose))"

lemma lagged_loop:
  assumes "cn_budget conn = None" "ev = FromDeltas (RxLagged k) \<or> ev = FromEvents (RxLagged k)"
  shows "\<exists>w' e. run_loop P ((env, env', others, ev) # evs) rs (srv, conn) = (Some (Inr ()), w')
    \<and> cn_out (snd w') = cn_out conn @ [MText (server_text P (FError e)), MClose (Some (1000, []))]
    \<and> error_code e = Internal \<and> error_recoverable e
    \<and> error_message e = (if ev = FromDeltas (RxLagged k) then ''delta stream lagged'' else ''server event stream lagged'')"
proof -
  let ?message = "if ev = FromDeltas (RxLagged k) then ''delta stream lagged'' else ''server event stream lagged''"
  obtain e where "error_frame env Internal ?message True None (others srv, conn) = FError e"
      "error_code e = Internal" "error_recoverable e" "error_message e = ?message"
    by (simp add: error_frame_def)
  then show ?thesis
    using assms
    by (intro exI [of _ "snd (run_loop P ((env, env', others, ev) # evs) rs (srv, conn))"] exI [of _ e])
      (auto simp: run_step_def send_error_def send_error_with_path_eq ws_send_unbounded ended_def close_normal_def
        socket_send_def split: if_splits)
qed

text \<open>Whatever the text says, a close behind it sends a driving client back to connecting.\<close>

lemma closed_client_reopens:
  assumes "mg_phase mg = Driving tracker"
  shows "mg_phase (manager_run P scale (map yielded [MText x, MClose c]) mg) = Opening 1"
proof -
  let ?mg = "manager_step P scale (SocketYielded (Some (Inr (CmText x)))) mg"
  have "mg_phase ?mg = Opening 1 \<or> (\<exists>t. mg_phase ?mg = Driving t)"
    using assms by (auto simp: manager_step_def on_drive_socket_def start_attempt_def split: sum.splits prod.splits)
  moreover have "mg_phase (manager_step P scale (SocketYielded (Some (Inr CmClose))) m) = Opening 1"
    if "mg_phase m = Opening 1 \<or> (\<exists>t. mg_phase m = Driving t)" for m
    using that by (auto simp: manager_step_def on_drive_socket_def start_attempt_def)
  ultimately show ?thesis by (simp add: manager_run_def)
qed

section \<open>Errors between deltas\<close>

text \<open>On a socket that takes every write, a refused input costs exactly its error frame.\<close>

lemma handle_input_unbounded:
  assumes "cn_budget (snd w) = None"
  shows "fst (handle_input P env input r identity w) = Inr ()"
    "cn_budget (snd (snd (handle_input P env input r identity w))) = None"
  using assms
  by (auto simp: handle_input_def Let_def send_error_def send_error_with_path_eq ws_send_unbounded
      split: prod.splits option.splits sum.splits list.splits)

lemma input_refused_frame:
  assumes "decode_client P text = Inr (CInput input)" "\<not> input_accepted P env input r identity w" "cn_budget (snd w) = None"
  shows "\<exists>conn code msg path. handle_text_frame P env text r identity w = (Inr Continue, (fst w, conn)) \<and> cn_budget conn = None
    \<and> cn_out conn = cn_out (snd w) @ [MText (server_text P (error_frame env code msg True path w))]"
proof -
  let ?x = "handle_input P env input r identity w"
  have x: "handle_text_frame P env text r identity w = (Inr Continue, snd ?x)"
    using handle_input_unbounded(1) [OF assms(3), of P env input r identity]
    by (cases ?x) (simp add: handle_text_frame_def assms(1) and_then_def)
  have "refused P env (Inr (), snd ?x) w"
    using text_input_cases [OF assms(1), of env r identity w] assms(2) x by simp
  then show ?thesis
    using x handle_input_unbounded(2) [OF assms(3), of P env input r identity]
    by (cases "snd ?x") (auto simp: refused_def)
qed

text \<open>A client reads an error that carries the number of the next delta, and then that delta.\<close>

lemma error_then_delta:
  assumes "json_text_ok P" "mg_phase mg = Driving \<lparr>tracker_last = n\<rparr>" "n \<noteq> 0" "unat (dp_seq d) = Suc (unat n)"
    "error_seq e = dp_seq d" "decode_server P (server_text P (FError e)) = Inr (FError e)"
    "decode_server P (server_text P (payload_frame d)) = Inr (payload_frame d)"
  shows "manager_run P scale (map (\<lambda>t. SocketYielded (Some (Inr (CmText t))))
      [server_text P (FError e), server_text P (payload_frame d)]) mg =
    mg\<lparr>mg_events := mg_events mg @ [EvError e], mg_phase := Driving \<lparr>tracker_last = dp_seq d\<rparr>\<rparr>"
proof -
  have "dp_seq d \<noteq> 0" using assms(4) by auto
  with assms show ?thesis
    by (simp add: manager_run_def manager_step_def on_drive_socket_def handle_frame_def delta_frame_def observe_seq_cases)
qed

text \<open>How the sender of an input is named to the subscribers.\<close>

definition sender :: "Identity \<Rightarrow> string" where
  "sender identity =
     (let role = (case id_role identity of
          Viewer \<Rightarrow> ''viewer'' | Operator \<Rightarrow> ''operator'' | Service \<Rightarrow> ''service'' | TestRole \<Rightarrow> ''test'') in
      role @ '':'' @ (if id_subject identity = [] then role else id_subject identity))"

section \<open>Properties\<close>

text \<open>
  C5. An operator's input reaches the other subscribers. An accepted \<open>input\<close> frame becomes one delta of the
  scene. If the message has an identifier, the cause of the delta echoes it and names its sender, by
  role and subject (the role again where the subject is empty); otherwise it has no cause. The loop of
  any other connection of the scene writes out one frame, which decodes to that delta with its cause,
  and a client that was up to date holds the state with exactly the operator's patches applied, and
  the scene's new number.
\<close>
theorem input_reaches_subscribers:
  assumes "json_text_ok P"
    and input: "decode_client P text = Inr (CInput input)" "input_accepted P env input r identity (srv, conn)"
      "list_all (\<lambda>p. payload_safe (patch_value p)) (input_patches input)"
    and scene: "r < length (srv_heap srv)" "scene_wf (scene_at srv r)" "sc_seq (scene_at srv r) \<noteq> 0"
      "Suc (unat (sc_seq (scene_at srv r))) < 2 ^ 64"
    and subscriber: "cn_budget conn' = None" "mg_phase mg = Driving \<lparr>tracker_last = sc_seq (scene_at srv r)\<rparr>"
      "client_view (mg_events mg) = scene_state (scene_at srv r)"
  shows "let srv' = fst (snd (handle_text_frame P env text r identity (srv, conn)));
      d = last (sc_sent (scene_at srv' r)) in
    sc_sent (scene_at srv' r) = sc_sent (scene_at srv r) @ [d]
    \<and> dp_cause d = (case input_client_msg_id input of None \<Rightarrow> None
        | Some msg_id \<Rightarrow> Some \<lparr>cause_source = sender identity, cause_input_id = Some msg_id\<rparr>)
    \<and> (\<exists>w' texts. run_loop P [(env1, env2, \<lambda>_. srv', FromDeltas (RxOk d))] rs (srv, conn') = (None, w')
        \<and> message_texts (cn_out (snd w')) = message_texts (cn_out conn') @ texts
        \<and> map (decode_server P) texts =
            [Inr (FDelta \<lparr>delta_seq = dp_seq d, delta_patches = dp_patches d, delta_ts = None, delta_cause = dp_cause d\<rparr>)]
        \<and> (let mg' = manager_run P scale (map (\<lambda>t. SocketYielded (Some (Inr (CmText t)))) texts) mg in
          mg_phase mg' = Driving \<lparr>tracker_last = sc_seq (scene_at srv' r)\<rparr>
          \<and> client_view (mg_events mg') = bt_insert_all (input_updates input) (scene_state (scene_at srv r))))"
proof -
  let ?ps = "input_updates input"
  let ?srv = "fst (snd (handle_text_frame P env text r identity (srv, conn)))"
  define s where "s = scene_at srv r"
  define rc where "rc = next_record (map (\<lambda>(path, v). patch_new path v) ?ps) (input_cause identity input) s"
  have ps: "legal_updates ?ps" "?ps \<noteq> []" using decoded_input_legal [OF input(1)] by simp_all
  note emit = emit_commits [OF ps, of "input_cause identity input" s, folded rc_def]
  have "?srv = update_scene r (commit rc s) srv"
    using text_input_cases [OF input(1), of env r identity "(srv, conn)"] input(2) emit by (simp add: Let_def s_def)
  then have t: "scene_at ?srv r = commit rc s" using scene(1) by (simp add: update_scene_def)
  have hist: "history s [rc] (commit rc s)"
    unfolding rc_def using scene(2,4) by (intro emit_history [OF _ ps(1)]) (simp_all add: s_def)
  have state: "scene_state (commit rc s) = bt_insert_all ?ps (scene_state s)"
    using emit_state [OF scene(2) ps(1), of "input_cause identity input"] emit by (simp add: s_def)
  have d: "sc_sent (commit rc s) = sc_sent s @ [payload rc]" using hist by (simp add: history_def)
  have safe: "list_all delta_transportable (map payload [rc])"
    using input(3) by (auto simp: rc_def payload_def next_record_def patch_new_def list_all_iff)
  note follows = driving_client_follows [OF assms(1) hist safe scene(3) [folded s_def] subscriber(2,3) [folded s_def], of scale]
  have decodes: "decode_server P (server_text P (payload_frame (payload rc))) = Inr (payload_frame (payload rc))"
    using records_decode [OF assms(1) _ safe] hist by (simp add: history_def)
  obtain w' where w': "run_loop P [(env1, env2, \<lambda>_. ?srv, FromDeltas (RxOk (payload rc)))] rs (srv, conn') = (None, w')"
    "cn_out (snd w') = cn_out conn' @ [MText (server_text P (payload_frame (payload rc)))]"
    using loop_one_delta [OF subscriber(1)] by metis
  have "dp_cause (payload rc) = input_cause identity input" by (simp add: payload_def rc_def next_record_def)
  moreover have "input_cause identity input = (case input_client_msg_id input of None \<Rightarrow> None
      | Some msg_id \<Rightarrow> Some \<lparr>cause_source = sender identity, cause_input_id = Some msg_id\<rparr>)"
    by (simp add: input_cause_def sender_def Let_def split: option.split Role.split)
  ultimately show ?thesis
    unfolding Let_def t s_def [symmetric] d last_snoc
    using w' follows state decodes
    by (intro conjI exI [of _ w'] exI [of _ "[server_text P (payload_frame (payload rc))]"])
      (simp_all add: Let_def delta_frame_def del: run_loop.simps)
qed

text \<open>A subscriber that has just read the snapshot of a scene.\<close>

definition viewer_of :: "Scene \<Rightarrow> Manager" where
  "viewer_of s = \<lparr>mg_state = sample_manager_state, mg_phase = Driving \<lparr>tracker_last = sc_seq s\<rparr>,
     mg_events = [EvSnapshot \<lparr>snapshot_seq = sc_seq s, snapshot_scene_id = sc_id s, snapshot_scene_version = sc_version s,
       snapshot_state = scene_state s, snapshot_ts = None\<rparr>], mg_replies = []\<rparr>"

lemma viewer_in_step:
  "mg_phase (viewer_of s) = Driving \<lparr>tracker_last = sc_seq s\<rparr>" "client_view (mg_events (viewer_of s)) = scene_state s"
  by (simp_all add: viewer_of_def client_view_def)

theorem input_reaches_subscribers_witness:
  "let x = handle_text_frame sample_platform sample_env (client_text sample_platform (CInput sample_input))
      0 sample_operator sample_world;
      s = scene_at (fst sample_world) 0; d = last (sc_sent (scene_at (fst (snd x)) 0)) in
    dp_cause d = Some \<lparr>cause_source = ''operator:ann'', cause_input_id = Some ''m1''\<rparr>
    \<and> (\<exists>w' texts. run_loop sample_platform [(sample_env, sample_env, \<lambda>_. fst (snd x), FromDeltas (RxOk d))]
        \<lparr>run_current = 0, run_identity = sample_operator, run_rx = 0\<rparr> sample_world = (None, w')
      \<and> message_texts (cn_out (snd w')) = texts
      \<and> client_view (mg_events (manager_run sample_platform (\<lambda>b. b)
          (map (\<lambda>t. SocketYielded (Some (Inr (CmText t)))) texts) (viewer_of s)))
        = bt_insert_all [(''__inputs.title'', JString ''hi'')] (scene_state s))"
proof -
  obtain srv conn where w: "sample_world = (srv, conn)" by fastforce
  have srv: "srv = sample_server" and conn: "cn_budget conn = None" "cn_out conn = []"
    using w by (auto simp: sample_world_def connection_new_def)
  have heap: "0 < length (srv_heap srv)" "sc_seq (scene_at srv 0) = 1"
    unfolding srv by code_simp+
  have wf: "scene_wf (scene_at srv 0)"
    using server_wf_scene [OF sample_server_wf, of 0] heap(1) by (simp add: srv)
  have safe: "list_all (\<lambda>p. payload_safe (patch_value p)) (input_patches sample_input)"
    by (simp add: sample_input_def patch_new_def payload_safe_def)
  have seq: "sc_seq (scene_at srv 0) \<noteq> 0" "Suc (unat (sc_seq (scene_at srv 0))) < 2 ^ 64" by (simp_all add: heap(2))
  have upd: "input_updates sample_input = [(''__inputs.title'', JString ''hi'')]"
    by (simp add: sample_input_def patch_new_def)
  have sender: "input_client_msg_id sample_input = Some ''m1''" "sender sample_operator = ''operator:ann''"
    by (simp_all add: sample_input_def sample_operator_def sender_def)
  show ?thesis
    using input_reaches_subscribers [OF sample_json_text_ok sample_input_decodes sample_input_accepted [unfolded w] safe
        heap(1) wf seq conn(1) viewer_in_step, of sample_env sample_env
        "\<lparr>run_current = 0, run_identity = sample_operator, run_rx = 0\<rparr>" "\<lambda>b. b"]
    unfolding w Let_def conn(2) fst_conv upd message_texts.simps append_Nil sender option.case by blast
qed

text \<open>
  C6. The documents of a feed reach the subscribers. However the reconnect loop of the WebSocket adapter
  goes (failed connections, waits, cancellation, frames that are not JSON or not grammatical), the
  scene ends with exactly the effects of the documents that arrived, in order, each whole or not at
  all; and a client that opened before and reads what the scene sent meanwhile holds that state.
\<close>
theorem feed_reaches_subscribers:
  assumes "json_text_ok P" "scene_wf (fd_scene fd)" "state_servable (fd_scene fd)" "state_transportable (fd_scene fd)"
    "sc_seq (fd_scene fd) \<noteq> 0"
    "unat (sc_seq (fd_scene fd)) + sum_list (map (\<lambda>rd. length (rd_inputs rd)) rounds) < 2 ^ 64"
    "feed_rounds P config rounds fd = (flow, fd')" "list_all delta_transportable (sc_sent (fd_scene fd'))"
  shows "let s = fd_scene fd; t = fd_scene fd';
      mg = manager_run P scale (client_inputs P (server_text P (snapshot_frame env s)
        # map (\<lambda>d. server_text P (payload_frame d)) (drop (length (sc_sent s)) (sc_sent t)))) (manager_start st) in
    scene_state t = fold (document_effect P (wc_writes_to config)) (fed_texts P config rounds fd) (scene_state s)
    \<and> mg_phase mg = Driving \<lparr>tracker_last = sc_seq t\<rparr> \<and> client_view (mg_events mg) = scene_state t"
proof -
  have room: "unat (sc_seq (fd_scene fd)) + length (fed_texts P config rounds fd) < 2 ^ 64"
    using fed_texts_length [of P config rounds fd] assms(6) by linarith
  have end_: "snd (feed_rounds P config rounds fd) = fd'" using assms(7) by simp
  show ?thesis
    using feed_rounds_state [OF assms(2) room] assms(6,8)
      feed_writer.subscriber_follows [OF assms(1-5), of "[rounds]" P config scale env st]
    by (simp only: Let_def fold_simps end_ list.map sum_list.Cons sum_list.Nil add_0_right)
qed

definition sample_config_feed :: WsSubscribeConfig where
  "sample_config_feed = ws_subscribe_default\<lparr>wc_writes_to := ''game''\<rparr>"

definition sample_round :: Round where
  "sample_round = \<lparr>rd_cancel = False, rd_connect = (\<lambda>_. Inr ()),
     rd_inputs = [FeedYields (Some (Inr (FmText (to_vec sample_platform (JObject [(''home'', jnat 3)]))))), FeedYields None],
     rd_wait = Slept\<rparr>"

theorem feed_reaches_subscribers_witness:
  "let s = scene_new ''s'' ''v''; t = fd_scene (snd (feed_rounds sample_platform sample_config_feed [sample_round]
        (feed_start sample_config_feed s)));
      mg = manager_run sample_platform (\<lambda>b. b) (client_inputs sample_platform
        (server_text sample_platform (snapshot_frame sample_env s)
          # map (\<lambda>d. server_text sample_platform (payload_frame d)) (sc_sent t))) (manager_start sample_manager_state) in
    client_view (mg_events mg) = [(''game.home'', jnat 3)]"
proof -
  let ?s = "scene_new ''s'' ''v''"
  let ?doc = "JObject [(''home'', jnat 3)]"
  let ?fd = "feed_start sample_config_feed ?s"
  obtain flow fd' where run: "feed_rounds sample_platform sample_config_feed [sample_round] ?fd = (flow, fd')" by fastforce
  have doc: "from_slice sample_platform (to_vec sample_platform ?doc) = Inr ?doc"
    using sample_json_text_ok by (simp add: json_text_ok_def wire_safe_def jnat_def bt_wf_def)
  have flat: "flatten_into_pairs ''game'' ?doc = [(''game.home'', jnat 3)]"
    by (simp add: flatten_into_pairs_def path_extend_def jnat_def)
  have "is_ok (validate_path ''game.home'')" by code_simp
  then have valid: "valid_path ''game.home''" by (simp only: validate_path_ok)
  have s: "scene_state ?s = []" "sc_seq ?s = 1" "sc_sent ?s = []" "fd_scene ?fd = ?s"
    by (simp_all add: scene_new_def scene_state_def store_snapshot_def store_new_def feed_start_def)
  have fed: "fed_texts sample_platform sample_config_feed [sample_round] ?fd = [to_vec sample_platform ?doc]"
    by (simp add: sample_round_def round_texts_def feed_round_def run_once_def Let_def feed_outcome_def
        split: prod.splits option.splits Flow.splits)
  have "fd' = snd (feed_round sample_platform sample_config_feed sample_round ?fd)"
    using run by (auto split: prod.splits Flow.splits)
  then have "fd_scene fd' = snd (apply_payload sample_platform ?s ''game'' (to_vec sample_platform ?doc))"
    by (simp add: feed_round_scene) (simp add: sample_round_def run_once_def sample_config_feed_def s case_prod_beta feed_start_def)
  then have "fd_scene fd' = snd (emit_with_cause [(''game.home'', jnat 3)] None ?s)"
    by (simp add: payload_emit doc flat)
  then have sent_ok: "list_all delta_transportable (sc_sent (fd_scene fd'))"
    using emit_commits [of "[(''game.home'', jnat 3)]" None ?s] valid
    by (simp add: jnat_def commit_def next_record_def payload_def patch_new_def s payload_safe_def)
  have start: "scene_wf (fd_scene ?fd)" "state_servable (fd_scene ?fd)" "state_transportable (fd_scene ?fd)" "sc_seq (fd_scene ?fd) \<noteq> 0"
    using scene_wf_new by (simp_all only: s) simp_all
  have room: "unat (sc_seq (fd_scene ?fd)) + sum_list (map (\<lambda>rd. length (rd_inputs rd)) [sample_round]) < 2 ^ 64"
    unfolding s by (simp add: sample_round_def)
  have effect: "fold (document_effect sample_platform (wc_writes_to sample_config_feed)) [to_vec sample_platform ?doc] []
      = [(''game.home'', jnat 3)]"
    by (simp add: document_effect_def doc flat sample_config_feed_def valid) (simp add: jnat_def bt_insert_all_def)
  show ?thesis
    using feed_reaches_subscribers [OF sample_json_text_ok start room run sent_ok, of "\<lambda>b. b" sample_env sample_manager_state]
    unfolding Let_def run snd_conv fed s effect list.size drop_0 by simp
qed

end
