(* ===== verification/Registry.thy ===== *)
theory Registry
  imports Ws_Handler Tasks
begin

text \<open>
  The registry of \<open>server.rs\<close> under concurrent callers. The operations of \<open>ServerHandle\<close> hold no lock from
  end to end: the scenes are a concurrent map, the active scene is behind a lock of its own, and the
  events go through a channel. Here each operation is taken apart into the accesses it makes.
\<close>

section \<open>Operations as tasks\<close>

text \<open>The scene a registration has prepared is private until it is inserted.\<close>

datatype RegistryTask =
    RegCheck Scene
  | RegInsert Scene
  | RegActivate scene_ref SceneId
  | RegDone "ServerError + scene_ref"
  | SwitchCheck SceneId
  | SwitchWrite SceneId
  | SwitchSend SceneId
  | SwitchDone "ServerError + unit"
  | ClearMap
  | ClearActive
  | ClearDone

definition new_scene_task :: "SceneId \<Rightarrow> SceneVersion \<Rightarrow> RegistryTask" where
  "new_scene_task i version = RegCheck (scene_new i version)"

definition register_task :: "platform \<Rightarrow> Bundle \<Rightarrow> RegistryTask" where
  "register_task P bundle =
     (let bundle' = with_computed_version P bundle;
          scene = scene_new (bundle_scene_id bundle') (bundle_scene_version bundle') in
      RegCheck (attach_bundle_bytes (to_canonical_bytes P bundle') (scene_seed (bundle_defaults bundle') scene)))"

definition switch_task :: "SceneId \<Rightarrow> RegistryTask" where
  "switch_task i = SwitchCheck i"

definition clear_task :: RegistryTask where
  "clear_task = ClearMap"

fun registry_micro :: "RegistryTask \<Rightarrow> Server \<Rightarrow> RegistryTask \<times> Server" where
  "registry_micro (RegCheck scene) srv =
     (if hm_get (srv_scenes srv) (sc_id scene) \<noteq> None then (RegDone (Inl (SEDuplicateScene (sc_id scene))), srv)
      else (RegInsert scene, srv))"
| "registry_micro (RegInsert scene) srv =
     (let r = length (srv_heap srv) in
      (RegActivate r (sc_id scene), srv\<lparr>srv_heap := srv_heap srv @ [scene],
         srv_scenes := hm_insert (sc_id scene) r (srv_scenes srv)\<rparr>))"
| "registry_micro (RegActivate r i) srv =
     (RegDone (Inr r), if srv_active srv = None then srv\<lparr>srv_active := Some i\<rparr> else srv)"
| "registry_micro (SwitchCheck i) srv =
     (if hm_get (srv_scenes srv) i = None then (SwitchDone (Inl (SEUnknownScene i)), srv) else (SwitchWrite i, srv))"
| "registry_micro (SwitchWrite i) srv = (SwitchSend i, srv\<lparr>srv_active := Some i\<rparr>)"
| "registry_micro (SwitchSend i) srv = (SwitchDone (Inr ()), srv\<lparr>srv_events := srv_events srv @ [SceneSwap i]\<rparr>)"
| "registry_micro ClearMap srv = (ClearActive, srv\<lparr>srv_scenes := []\<rparr>)"
| "registry_micro ClearActive srv = (ClearDone, srv\<lparr>srv_active := None\<rparr>)"
| "registry_micro t srv = (t, srv)"

fun registry_done :: "RegistryTask \<Rightarrow> bool" where
  "registry_done (RegDone _) = True"
| "registry_done (SwitchDone _) = True"
| "registry_done ClearDone = True"
| "registry_done _ = False"

abbreviation registry_race :: "Server \<times> RegistryTask list \<Rightarrow> Server \<times> RegistryTask list \<Rightarrow> bool" where
  "registry_race \<equiv> task_turn registry_micro registry_done"

abbreviation run_registry :: "nat list \<Rightarrow> Server \<times> RegistryTask list \<Rightarrow> Server \<times> RegistryTask list" where
  "run_registry \<equiv> run_tasks registry_micro registry_done"

text \<open>A task that runs alone is the operation of the sequential model.\<close>

lemma registry_alone:
  "run_registry [0, 0, 0] (srv, [new_scene_task i version]) =
     (let (res, srv') = new_scene_with_version i version srv in (srv', [RegDone res]))"
  "run_registry [0, 0, 0] (srv, [register_task P bundle]) =
     (let (res, srv') = register_bundle P bundle srv in (srv', [RegDone res]))"
  "run_registry [0, 0, 0] (srv, [switch_task i]) =
     (let (res, srv') = set_active_scene i srv in (srv', [SwitchDone res]))"
  "run_registry [0, 0] (srv, [clear_task]) = (clear_scenes srv, [ClearDone])"
  by (simp_all add: new_scene_task_def register_task_def switch_task_def clear_task_def new_scene_with_version_def
      register_bundle_def set_active_scene_def clear_scenes_def add_scene_def scene_new_def scene_seed_def
      attach_bundle_bytes_def Let_def)

section \<open>What every interleaving keeps\<close>

text \<open>The part of the server's invariant that does not relate the active scene to the map.\<close>

definition registry_ok :: "platform \<Rightarrow> Server \<Rightarrow> bool" where
  "registry_ok P srv \<longleftrightarrow> hm_wf (srv_scenes srv)
     \<and> (\<forall>i r. hm_get (srv_scenes srv) i = Some r \<longrightarrow> r < length (srv_heap srv) \<and> sc_id (scene_at srv r) = i)
     \<and> list_all (\<lambda>s. scene_wf s \<and> bundle_bytes_ok P s) (srv_heap srv)"

fun registry_task_ok :: "platform \<Rightarrow> RegistryTask \<Rightarrow> bool" where
  "registry_task_ok P (RegCheck scene) = (scene_wf scene \<and> bundle_bytes_ok P scene)"
| "registry_task_ok P (RegInsert scene) = (scene_wf scene \<and> bundle_bytes_ok P scene)"
| "registry_task_ok P _ = True"

lemma server_wf_registry: "server_wf P srv \<Longrightarrow> registry_ok P srv"
  by (simp add: server_wf_def registry_ok_def)

inductive registry_operation :: "platform \<Rightarrow> RegistryTask \<Rightarrow> bool" for P where
  op_new: "registry_operation P (new_scene_task i version)"
| op_register: "registry_operation P (register_task P bundle)"
| op_switch: "registry_operation P (switch_task i)"
| op_clear: "registry_operation P clear_task"

lemma operation_tasks_ok: "registry_operation P t \<Longrightarrow> registry_task_ok P t"
proof (induction rule: registry_operation.induct)
  case (op_new i version)
  have "bundle_bytes_ok P (scene_new i version)" by (simp add: bundle_bytes_ok_def scene_new_def)
  then show ?case by (simp add: new_scene_task_def scene_wf_new)
next
  case (op_register b)
  then show ?case using bundle_scene_ok(1,2) [of P b] by (simp add: register_task_def Let_def)
qed (simp_all add: switch_task_def clear_task_def)

lemma registry_micro_ok:
  assumes "registry_micro t srv = (t', srv')" "registry_ok P srv" "registry_task_ok P t"
  shows "registry_ok P srv' \<and> registry_task_ok P t'"
  using assms
  by (cases t) (auto simp: registry_ok_def Let_def nth_append less_SucI split: if_splits)

section \<open>Properties\<close>

text \<open>
  C21. However the operations of any number of callers interleave, every registered handle still leads to
  a scene of that id that satisfies its invariant, and the bundle route still serves, under a scene and
  a hash, only a bundle of that scene with that content hash.
\<close>
theorem registry_race_invariant:
  assumes "server_wf P srv" "list_all (registry_operation P) ops" "registry_race\<^sup>*\<^sup>* (srv, ops) (srv', ts)"
  shows "(\<forall>i r. server_scene i srv' = Some r \<longrightarrow>
        r < length (srv_heap srv') \<and> sc_id (scene_at srv' r) = i \<and> scene_wf (scene_at srv' r))
    \<and> (\<forall>i hex body headers. scene_bundle_route srv' i hex = RouteOk body headers \<longrightarrow>
        (\<exists>b. body = to_canonical_bytes P b \<and> bundle_scene_id b = i \<and> compute_content_hash P b = ''sha256:'' @ hex))"
proof -
  have "list_all (registry_task_ok P) ops"
    using assms(2) by (auto simp: list_all_iff operation_tasks_ok)
  with assms(1,3) have ok: "registry_ok P srv'"
    using tasks_invariant [of registry_micro registry_done srv ops srv' ts "registry_ok P" "registry_task_ok P"]
      registry_micro_ok server_wf_registry by blast
  then have at: "server_scene i srv' = Some r \<Longrightarrow> r < length (srv_heap srv')
      \<and> sc_id (scene_at srv' r) = i \<and> scene_wf (scene_at srv' r) \<and> bundle_bytes_ok P (scene_at srv' r)" for i r
    by (auto simp: registry_ok_def server_scene_def list_all_length)
  then show ?thesis using route_served by blast
qed

definition sample_race :: "Server \<times> RegistryTask list" where
  "sample_race = (server_init sample_config, [clear_task, register_task sample_platform sample_bundle])"

theorem registry_race_invariant_witness:
  "\<exists>srv' ts body headers. registry_race\<^sup>*\<^sup>* sample_race (srv', ts)
    \<and> scene_bundle_route srv' ''main'' sample_hex = RouteOk body headers
    \<and> (\<exists>b. body = to_canonical_bytes sample_platform b \<and> bundle_scene_id b = ''main''
        \<and> compute_content_hash sample_platform b = ''sha256:'' @ sample_hex)"
proof -
  obtain srv' ts where out: "run_registry [0, 1, 0, 1, 1] sample_race = (srv', ts)" by fastforce
  have "case scene_bundle_route (fst (run_registry [0, 1, 0, 1, 1] sample_race)) ''main'' sample_hex of
      RouteOk b h \<Rightarrow> True | _ \<Rightarrow> False" by code_simp
  then obtain body headers where route: "scene_bundle_route srv' ''main'' sample_hex = RouteOk body headers"
    unfolding out by (auto split: BundleResponse.splits)
  have run: "registry_race\<^sup>*\<^sup>* sample_race (srv', ts)" using tasks_reachable out by metis
  have "list_all (registry_operation sample_platform) [clear_task, register_task sample_platform sample_bundle]"
    by (simp add: registry_operation.intros)
  from registry_race_invariant [OF server_wf_init this run [unfolded sample_race_def]] run route show ?thesis by blast
qed

text \<open>
  Two callers that register the same fresh id can both succeed: the check and the insertion are apart.
  The scene of the later insertion is the registered one; the other is the scene of no id, although its
  caller was told that it registered it and goes on writing to it.
\<close>
theorem racing_registrations_orphan:
  assumes "server_wf P srv" "server_scene i srv = None"
  shows "\<exists>srv' r1 r2. registry_race\<^sup>*\<^sup>* (srv, [new_scene_task i v1, new_scene_task i v2])
        (srv', [RegDone (Inr r1), RegDone (Inr r2)])
    \<and> r1 \<noteq> r2 \<and> server_scene i srv' = Some r2 \<and> (\<forall>k. server_scene k srv' \<noteq> Some r1)"
proof -
  let ?ops = "[new_scene_task i v1, new_scene_task i v2]" and ?n = "length (srv_heap srv)"
  obtain srv' ts where run: "run_registry [0, 1, 0, 0, 1, 1] (srv, ?ops) = (srv', ts)" by fastforce
  then have out: "ts = [RegDone (Inr ?n), RegDone (Inr (Suc ?n))]"
      "srv_scenes srv' = hm_insert i (Suc ?n) (hm_insert i ?n (srv_scenes srv))"
    using assms(2) by (auto simp: new_scene_task_def scene_new_def server_scene_def Let_def)
  have "hm_wf (srv_scenes srv)" "\<And>k. hm_get (srv_scenes srv) k \<noteq> Some ?n"
    using assms(1) by (auto simp: server_wf_def)
  then have "server_scene i srv' = Some (Suc ?n)" "\<And>k. server_scene k srv' \<noteq> Some ?n"
    by (auto simp: server_scene_def out(2))
  moreover have "registry_race\<^sup>*\<^sup>* (srv, ?ops) (srv', ts)" using tasks_reachable run by metis
  ultimately show ?thesis unfolding out(1) by (metis n_not_Suc_n)
qed

theorem racing_registrations_orphan_witness:
  "\<exists>srv' r1 r2. registry_race\<^sup>*\<^sup>* (server_init sample_config, [new_scene_task ''main'' ''v1'', new_scene_task ''main'' ''v2''])
        (srv', [RegDone (Inr r1), RegDone (Inr r2)])
    \<and> r1 \<noteq> r2 \<and> server_scene ''main'' srv' = Some r2 \<and> (\<forall>k. server_scene k srv' \<noteq> Some r1)"
  by (rule racing_registrations_orphan [OF server_wf_init [of sample_platform]])
     (simp add: server_init_def server_scene_def)

text \<open>
  C39. A registration that runs into \<open>clear_scenes\<close> can leave an active scene that is not registered: a
  subscription that names no scene then finds none, and since there is an active scene, no later
  registration of another scene becomes the active one and mends it.
\<close>
theorem clear_race_dangling_active:
  assumes "srv_active srv = None" "srv_scenes srv = []"
  shows "\<exists>srv' r. registry_race\<^sup>*\<^sup>* (srv, [new_scene_task i version, clear_task]) (srv', [RegDone (Inr r), ClearDone])
    \<and> (\<forall>sub. subscribe_scene sub = None \<longrightarrow> resolve_scene srv' sub = None)
    \<and> (\<forall>j w sub. j \<noteq> i \<longrightarrow> (\<exists>r'. fst (new_scene_with_version j w srv') = Inr r')
        \<and> (subscribe_scene sub = None \<longrightarrow> resolve_scene (snd (new_scene_with_version j w srv')) sub = None))"
proof -
  let ?ops = "[new_scene_task i version, clear_task]"
  obtain srv' ts where run: "run_registry [0, 0, 1, 1, 0] (srv, ?ops) = (srv', ts)" by fastforce
  then have out: "ts = [RegDone (Inr (length (srv_heap srv))), ClearDone]" "srv_scenes srv' = []" "srv_active srv' = Some i"
    using assms by (auto simp: new_scene_task_def clear_task_def scene_new_def Let_def)
  have "registry_race\<^sup>*\<^sup>* (srv, ?ops) (srv', ts)" using tasks_reachable run by metis
  moreover have "subscribe_scene sub = None \<Longrightarrow> resolve_scene srv' sub = None" for sub
    by (simp add: resolve_scene_def out(2,3) server_scene_def)
  moreover have "\<exists>r'. fst (new_scene_with_version j w srv') = Inr r'" for j w
    by (simp add: new_scene_with_version_def add_scene_def out(2,3) Let_def)
  moreover have "j \<noteq> i \<Longrightarrow> subscribe_scene sub = None \<Longrightarrow>
      resolve_scene (snd (new_scene_with_version j w srv')) sub = None" for j w sub
    by (simp add: new_scene_with_version_def add_scene_def out(2,3) Let_def resolve_scene_def server_scene_def
        scene_new_def)
  ultimately show ?thesis unfolding out(1) by blast
qed

theorem clear_race_dangling_active_witness:
  "\<exists>srv' r. registry_race\<^sup>*\<^sup>* (server_init sample_config, [new_scene_task ''main'' ''v'', clear_task])
        (srv', [RegDone (Inr r), ClearDone])
    \<and> resolve_scene srv' \<lparr>subscribe_token = ''t'', subscribe_scene = None, subscribe_session = None, subscribe_since_sequence = None\<rparr> = None"
proof -
  have "srv_active (server_init sample_config) = None" "srv_scenes (server_init sample_config) = []"
    by (simp_all add: server_init_def)
  from clear_race_dangling_active [OF this, of "''main''" "''v''"] show ?thesis by (metis Subscribe.select_convs(2))
qed

end
