(* ===== verification/Conformance.thy ===== *)
theory Conformance
  imports Bundle Sample_Platform
begin

text \<open>
  The data side of the conformance crate: placeholder substitution (\<open>placeholders.rs\<close>), scenario
  documents (\<open>scenario.rs\<close>), and the matching and shadow state of the player (\<open>player.rs\<close>). YAML
  text is parsed outside the repository: the readers start from the value the YAML reader presents.
\<close>

section \<open>Placeholders\<close>

type_synonym Substitutions = "string bt"

definition substitutions_new :: "string bt \<Rightarrow> string bt \<Rightarrow> Substitutions" where
  "substitutions_new tokens bundle_hashes =
     (let m = fold (\<lambda>(k, v). bt_insert k v) tokens [] in
      fold (\<lambda>(i, h). bt_insert (''$BUNDLE.'' @ i @ ''.hash'') h) bundle_hashes m)"

text \<open>\<open>sort_by_key\<close> with \<open>Reverse(len)\<close> is a stable sort, longest key first.\<close>

definition keys_longest_first :: "Substitutions \<Rightarrow> string list" where
  "keys_longest_first S = sort_key (\<lambda>k. - int (length k)) (map fst S)"

definition replace_key :: "Substitutions \<Rightarrow> string \<Rightarrow> string \<Rightarrow> string" where
  "replace_key S key out = (if contains_str key out
     then (case bt_get S key of Some v \<Rightarrow> replace_str key v out | None \<Rightarrow> out) else out)"

definition subst_str :: "Substitutions \<Rightarrow> string \<Rightarrow> string" where
  "subst_str S s =
     (if CHR ''$'' \<notin> set s then s
      else (case bt_get S s of
          Some replacement \<Rightarrow> replacement
        | None \<Rightarrow> fold (replace_key S) (keys_longest_first S) s))"

fun subst_apply :: "Substitutions \<Rightarrow> json \<Rightarrow> json" where
  "subst_apply S (JString s) = JString (subst_str S s)"
| "subst_apply S (JArray arr) = JArray (map (subst_apply S) arr)"
| "subst_apply S (JObject ob) = JObject (bt_of (map (\<lambda>kv. (fst kv, subst_apply S (snd kv))) ob))"
| "subst_apply S other = other"

definition subst_apply_to_map :: "Substitutions \<Rightarrow> json bt \<Rightarrow> json bt" where
  "subst_apply_to_map S m = bt_of (map (\<lambda>(k, v). (k, subst_apply S v)) m)"

definition hash_inline_bundle :: "platform \<Rightarrow> json \<Rightarrow> string" where
  "hash_inline_bundle P v =
     (let canonical = to_vec P v; HEX = ''0123456789abcdef'' in
      foldl (\<lambda>s byte. s @ [HEX ! unat (drop_bit 4 byte)] @ [HEX ! unat (and byte 0x0f)])
        ''sha256:'' (sha256 P canonical))"

section \<open>Scenarios\<close>

datatype Tag = Required | Recommended | Extended

datatype ScenarioTarget = TargetServer | TargetRuntime | TargetAny

record InlineBundle =
  ib_id :: string
  ib_inline :: json

record ClientAction =
  ca_action :: string
  ca_fields :: "json bt"

datatype Step =
    ClientSends json
  | ServerSends json
  | ExpectRuntimeState "json bt"
  | ExpectServerState "json bt"
  | ExpectNoFrameFor u64
  | ExpectClientAction ClientAction
  | ServerEmits json
  | Unsupported string "json bt"

record Scenario =
  sn_name :: string
  sn_description :: "string option"
  sn_tag :: Tag
  sn_target :: ScenarioTarget
  sn_bundles :: "InlineBundle list"
  sn_initial_state :: "json bt"
  sn_steps :: "Step list"

definition frame_field :: "json bt \<Rightarrow> string + json" where
  "frame_field raw = (case bt_get raw ''frame'' of
      Some v \<Rightarrow> Inr v | None \<Rightarrow> Inl ''step missing `frame` field'')"

definition state_field :: "platform \<Rightarrow> json bt \<Rightarrow> string + json bt" where
  "state_field P raw = (case bt_get raw ''state'' of
      None \<Rightarrow> Inl ''step missing `state` field''
    | Some v \<Rightarrow> (case v of JObject m \<Rightarrow> Inr m | _ \<Rightarrow> Inl (de_error P ''BTreeMap'' v)))"

text \<open>The derived reader with \<open>flatten\<close>: \<open>action\<close> is taken out, the rest are the fields.\<close>

definition de_client_action :: "platform \<Rightarrow> json bt \<Rightarrow> string + ClientAction" where
  "de_client_action P body = (case Option.bind (bt_get body ''action'') de_str of
      None \<Rightarrow> Inl (de_error P ''ClientAction'' (JObject body))
    | Some a \<Rightarrow> Inr \<lparr>ca_action = a, ca_fields = bt_remove ''action'' body\<rparr>)"

definition step_from_kind :: "platform \<Rightarrow> string \<Rightarrow> json bt \<Rightarrow> string + Step" where
  "step_from_kind P kind raw =
     (if kind = ''client-sends'' then map_sum id ClientSends (frame_field raw)
      else if kind = ''server-sends'' then map_sum id ServerSends (frame_field raw)
      else if kind = ''server-emits'' then map_sum id ServerEmits (frame_field raw)
      else if kind = ''expect-runtime-state'' then map_sum id ExpectRuntimeState (state_field P raw)
      else if kind = ''expect-server-state'' then map_sum id ExpectServerState (state_field P raw)
      else if kind = ''expect-no-frame-for'' then
        (case Option.bind (bt_get raw ''duration_ms'') as_u64 of
           None \<Rightarrow> Inl ''expect-no-frame-for missing `duration_ms`''
         | Some ms \<Rightarrow> Inr (ExpectNoFrameFor ms))
      else if kind = ''expect-client-action'' then
        map_sum id ExpectClientAction
          (de_client_action P (bt_of (filter (\<lambda>kv. fst kv \<noteq> ''kind'') raw)))
      else Inr (Unsupported kind (bt_remove ''kind'' raw)))"

definition de_step :: "platform \<Rightarrow> json \<Rightarrow> string + Step" where
  "de_step P v = (case v of
      JObject raw \<Rightarrow> (case Option.bind (bt_get raw ''kind'') as_str of
          None \<Rightarrow> Inl ''step is missing required `kind` field''
        | Some kind \<Rightarrow> step_from_kind P kind raw)
    | _ \<Rightarrow> Inl (de_error P ''BTreeMap'' v))"

section \<open>Matching\<close>

definition is_sha256_hash :: "string \<Rightarrow> bool" where
  "is_sha256_hash s = (case strip_prefix ''sha256:'' s of
      None \<Rightarrow> False
    | Some hex \<Rightarrow> length hex = 64 \<and> list_all is_ascii_hexdigit hex)"

text \<open>\<open>map_err(|inner| ...)?\<close> in a loop over the fields or the items.\<close>

definition and_next :: "(string \<Rightarrow> string) \<Rightarrow> string + unit \<Rightarrow> string + unit \<Rightarrow> string + unit" where
  "and_next f r rest = (case r of Inl e \<Rightarrow> Inl (f e) | Inr _ \<Rightarrow> rest)"

function structural_match :: "platform \<Rightarrow> json \<Rightarrow> json \<Rightarrow> string + unit"
  and match_fields :: "platform \<Rightarrow> (string \<times> json) list \<Rightarrow> json bt \<Rightarrow> string + unit"
  and match_items :: "platform \<Rightarrow> nat \<Rightarrow> json list \<Rightarrow> json list \<Rightarrow> string + unit" where
  "structural_match P expected actual =
     (if expected = JString ''$ANY'' then Inr ()
      else if expected = JString ''$ANY_HASH'' then
        (case as_str actual of
           None \<Rightarrow> Inl (''$ANY_HASH expects a string, got '' @ to_vec P actual)
         | Some s \<Rightarrow> if is_sha256_hash s then Inr () else Inl (''$ANY_HASH does not match '' @ debug_str s))
      else (case (expected, actual) of
          (JObject e, JObject a) \<Rightarrow> match_fields P e a
        | (JArray e, JArray a) \<Rightarrow>
            (if length e \<noteq> length a
             then Inl (''array length mismatch: '' @ show_nat (length e) @ '' vs '' @ show_nat (length a))
             else match_items P 0 e a)
        | (e, a) \<Rightarrow> if json_eq e a then Inr () else Inl (''expected '' @ to_vec P e @ '', got '' @ to_vec P a)))"
| "match_fields P [] a = Inr ()"
| "match_fields P ((k, ev) # e) a = (case bt_get a k of
      None \<Rightarrow> Inl (''missing key '' @ debug_str k)
    | Some av \<Rightarrow> and_next (\<lambda>inner. k @ '': '' @ inner) (structural_match P ev av) (match_fields P e a))"
| "match_items P i [] as = Inr ()"
| "match_items P i (ev # e) [] = Inr ()"
| "match_items P i (ev # e) (av # as) =
     and_next (\<lambda>inner. ''['' @ show_nat i @ '']: '' @ inner) (structural_match P ev av) (match_items P (Suc i) e as)"
  by pat_completeness auto
termination
  by (relation "measure (\<lambda>x. case x of
      Inl (P, e, a) \<Rightarrow> 2 * jsize e
    | Inr (Inl (P, e, a)) \<Rightarrow> 1 + 2 * sum_list (map (\<lambda>kv. jsize (snd kv)) e)
    | Inr (Inr (P, i, e, as)) \<Rightarrow> 1 + 2 * sum_list (map jsize e))") auto

declare structural_match.simps [simp del]

section \<open>The shadow state\<close>

definition shadow_patch :: "json \<Rightarrow> json bt \<Rightarrow> json bt" where
  "shadow_patch patch shadow = (case (Option.bind (jget patch ''path'') as_str, jget patch ''value'') of
      (Some path, Some v) \<Rightarrow> bt_insert path v shadow
    | _ \<Rightarrow> shadow)"

definition update_shadow_from_frame :: "json \<Rightarrow> json bt \<Rightarrow> json bt" where
  "update_shadow_from_frame frame shadow = (case as_object frame of
      None \<Rightarrow> shadow
    | Some ob \<Rightarrow> (case Option.bind (bt_get ob ''type'') as_str of
        None \<Rightarrow> shadow
      | Some t \<Rightarrow>
          (if t = ''snapshot'' then
             (case Option.bind (bt_get ob ''state'') as_object of
                Some state \<Rightarrow> bt_insert_all state []
              | None \<Rightarrow> [])
           else if t = ''delta'' then
             (case Option.bind (bt_get ob ''patches'') as_array of
                Some patches \<Rightarrow> fold shadow_patch patches shadow
              | None \<Rightarrow> shadow)
           else shadow)))"

section \<open>The matching relation\<close>

text \<open>
  What a match means, independently of the order in which fields are compared and of the player's
  helpers: a hash is \<open>sha256:\<close> and 64 hexadecimal digits, and scalars match when they are the same value.
\<close>

definition is_scalar :: "json \<Rightarrow> bool" where
  "is_scalar v \<longleftrightarrow> \<not> is_object v \<and> as_array v = None"

inductive matches :: "json \<Rightarrow> json \<Rightarrow> bool" where
  match_any: "matches (JString ''$ANY'') a"
| match_hash: "length hex = 64 \<Longrightarrow> set hex \<subseteq> hex_digits \<Longrightarrow>
    matches (JString ''$ANY_HASH'') (JString (''sha256:'' @ hex))"
| match_object: "(\<And>k v. (k, v) \<in> set e \<Longrightarrow> \<exists>w. bt_get a k = Some w \<and> matches v w) \<Longrightarrow> matches (JObject e) (JObject a)"
| match_array: "list_all2 matches e a \<Longrightarrow> matches (JArray e) (JArray a)"
| match_scalar: "is_scalar v \<Longrightarrow> v \<noteq> JString ''$ANY_HASH'' \<Longrightarrow> same_value v w \<Longrightarrow> matches v w"

inductive_simps matches_simps:
  "matches (JObject e) a" "matches (JArray e) a" "matches (JString s) a" "matches (JNumber n) a"
  "matches (JBool b) a" "matches JNull a"

lemma is_scalar_simps [simp]:
  "\<not> is_scalar (JObject m)" "\<not> is_scalar (JArray xs)" "is_scalar (JString s)" "is_scalar (JNumber n)"
  "is_scalar (JBool b)" "is_scalar JNull"
  by (simp_all add: is_scalar_def as_array_def)

lemma is_sha256_hash_iff: "is_sha256_hash s \<longleftrightarrow> (\<exists>hex. s = ''sha256:'' @ hex \<and> length hex = 64 \<and> set hex \<subseteq> hex_digits)"
proof -
  have hex: "list_all is_ascii_hexdigit h \<longleftrightarrow> set h \<subseteq> hex_digits" for h
    by (auto simp: list_all_iff ascii_classes)
  have "is_sha256_hash s \<longleftrightarrow> (\<exists>h. strip_prefix ''sha256:'' s = Some h \<and> length h = 64 \<and> list_all is_ascii_hexdigit h)"
    by (simp add: is_sha256_hash_def split: option.split)
  then show ?thesis unfolding strip_prefix_eq_Some hex .
qed

lemma and_next_ok [simp]: "is_ok (and_next f r rest) \<longleftrightarrow> is_ok r \<and> is_ok rest"
  by (cases r) (simp_all add: and_next_def)

lemma structural_match_matches:
  "is_ok (structural_match P e a) \<longleftrightarrow> matches e a"
  "is_ok (match_fields P es am) \<longleftrightarrow> (\<forall>kv \<in> set es. \<exists>w. bt_get am (fst kv) = Some w \<and> matches (snd kv) w)"
  "length xs = length ys \<Longrightarrow> is_ok (match_items P i xs ys) \<longleftrightarrow> list_all2 matches xs ys"
proof (induction P e a and P es am and P i xs ys rule: structural_match_match_fields_match_items.induct)
  case (1 P expected actual)
  show ?case
  proof (cases "expected = JString ''$ANY'' \<or> expected = JString ''$ANY_HASH''")
    case True
    then show ?thesis
      by (auto simp: structural_match.simps matches_simps same_value_simps as_str_def is_sha256_hash_iff split: json.splits)
  next
    case False
    then show ?thesis
      using 1 unfolding structural_match.simps [of P expected actual]
      by (cases expected; cases actual)
        (auto simp: matches_simps same_value_simps json_eq_same_value list_all2_lengthD)
  qed
next
  case (3 P k ev e a)
  then show ?case by (cases "bt_get a k") auto
qed auto

section \<open>Properties\<close>

text \<open>
  C33. The player's structural match accepts exactly the matching relation: sentinels match what they
  name (for a hash, \<open>sha256:\<close> and 64 hexadecimal digits), every expected field is in the actual object
  with a matching value (extra fields are free), arrays match item by item, and anything else is the
  same value: equal strings and integers, doubles that stand for the same number.
\<close>
theorem structural_match_exact: "structural_match P expected actual = Inr () \<longleftrightarrow> matches expected actual"
  using structural_match_matches(1) [of P expected actual] by (auto simp: is_ok_iff)

lemma shadow_patch_ser:
  "shadow_patch (ser_patch p) shadow = bt_insert (patch_path p) (patch_value p) shadow"
  by (simp add: shadow_patch_def ser_patch_def jget_def obj_def serde_simps del: insert_all_Cons)

lemma shadow_patches:
  "fold shadow_patch (map ser_patch ps) shadow = bt_insert_all (map (\<lambda>p. (patch_path p, patch_value p)) ps) shadow"
  by (induction ps arbitrary: shadow) (simp_all add: shadow_patch_ser)

text \<open>
  The player's shadow state follows the wire: fed the JSON of any server frame, it becomes the
  state of a snapshot, applies the patches of a delta in order, and ignores every other frame.
\<close>
theorem shadow_follows_frames:
  "update_shadow_from_frame (with_v j (ser_server_frame f)) shadow = (case f of
      FSnapshot s \<Rightarrow> bt_insert_all (snapshot_state s) []
    | FDelta d \<Rightarrow> bt_insert_all (map (\<lambda>p. (patch_path p, patch_value p)) (delta_patches d)) shadow
    | _ \<Rightarrow> shadow)"
  by (cases f) (simp_all add: update_shadow_from_frame_def tagged_def with_v_obj field_defs serde_simps
      shadow_patches map_of_opt_field map_add_opt_field del: insert_all_Cons)

end
