(* ===== verification/Test_Control.thy ===== *)
theory Test_Control
  imports Server Sample_Platform
begin

text \<open>
  The test control plane (\<open>test_control.rs\<close>): the handlers behind \<open>/test/setup\<close>, \<open>/test/reset\<close>,
  \<open>/test/state\<close>, \<open>/test/emit\<close> and \<open>/test/health\<close>. A handler takes the request that axum's \<open>Json\<close>
  extractor has read and gives a response and the new shared state. The body of a response is the
  JSON value that is printed.
\<close>

definition CONTROL_PLANE_VERSION :: nat where
  "CONTROL_PLANE_VERSION = 1"

definition SERVER_ID :: string where
  "SERVER_ID = ''lumencast-rs''"

record TestControlState =
  tc_server :: Server
  tc_auth :: MapAuthenticator
  tc_ws_url :: string

record HttpResponse =
  res_status :: nat
  res_content_type :: "string option"
  res_body :: "json option"

definition problem :: "nat \<Rightarrow> string \<Rightarrow> string \<Rightarrow> HttpResponse" where
  "problem status code detail = \<lparr>res_status = status, res_content_type = Some ''application/problem+json'',
     res_body = Some (obj [(''type'', JString (''https://lumencast.dev/problems/'' @ code)),
       (''title'', JString code), (''status'', jnat status), (''detail'', JString detail)])\<rparr>"

definition json_response :: "nat \<Rightarrow> json \<Rightarrow> HttpResponse" where
  "json_response status body = \<lparr>res_status = status, res_content_type = Some ''application/json'',
     res_body = Some body\<rparr>"

definition no_content :: HttpResponse where
  "no_content = \<lparr>res_status = 204, res_content_type = None, res_body = None\<rparr>"

section \<open>Requests\<close>

text \<open>A missing field or \<open>null\<close> reads as the empty map or list.\<close>

fun de_entries :: "(json \<Rightarrow> 'a option) \<Rightarrow> jmap \<Rightarrow> (string \<times> 'a) list option" where
  "de_entries d [] = Some []"
| "de_entries d ((k, v) # m) = do { x \<leftarrow> d v; xs \<leftarrow> de_entries d m; Some ((k, x) # xs) }"

definition deser_btreemap_or_null :: "(json \<Rightarrow> 'a option) \<Rightarrow> json option \<Rightarrow> (string \<times> 'a) list option" where
  "deser_btreemap_or_null d x = (case x of
      None \<Rightarrow> Some []
    | Some JNull \<Rightarrow> Some []
    | Some (JObject m) \<Rightarrow> map_option (\<lambda>kvs. bt_of kvs) (de_entries d m)
    | Some _ \<Rightarrow> None)"

definition deser_vec_or_null :: "(json \<Rightarrow> 'a option) \<Rightarrow> json option \<Rightarrow> 'a list option" where
  "deser_vec_or_null d x = (case x of
      None \<Rightarrow> Some []
    | Some JNull \<Rightarrow> Some []
    | Some v \<Rightarrow> de_vec d v)"

record SetupBundle =
  stb_id :: string
  stb_hash :: string
  stb_inline :: "json option"

record SetupRequest =
  str_scenario :: "string option"
  str_tokens :: "(string \<times> string) list"
  str_bundles :: "SetupBundle list"
  str_initial_state :: "(string \<times> json) list"

definition de_setup_bundle :: "platform \<Rightarrow> json \<Rightarrow> SetupBundle option" where
  "de_setup_bundle P v = do {
     m \<leftarrow> de_fields P ''SetupBundle'' v;
     i \<leftarrow> de_req m ''id'' de_str;
     h \<leftarrow> de_req m ''hash'' de_str;
     inline \<leftarrow> de_opt m ''inline'' Some;
     Some \<lparr>stb_id = i, stb_hash = h, stb_inline = inline\<rparr> }"

definition de_setup_request :: "platform \<Rightarrow> json \<Rightarrow> SetupRequest option" where
  "de_setup_request P v = do {
     m \<leftarrow> de_fields P ''SetupRequest'' v;
     scenario \<leftarrow> de_opt m ''scenario'' de_str;
     tokens \<leftarrow> deser_btreemap_or_null de_str (bt_get m ''tokens'');
     bundles \<leftarrow> deser_vec_or_null (de_setup_bundle P) (bt_get m ''bundles'');
     initial_state \<leftarrow> deser_btreemap_or_null Some (bt_get m ''initial_state'');
     Some \<lparr>str_scenario = scenario, str_tokens = tokens, str_bundles = bundles,
       str_initial_state = initial_state\<rparr> }"

record EmitPatch =
  ep_path :: string
  ep_value :: json

definition de_emit_patch :: "platform \<Rightarrow> json \<Rightarrow> EmitPatch option" where
  "de_emit_patch P v = do {
     m \<leftarrow> de_fields P ''EmitPatch'' v;
     path \<leftarrow> de_req m ''path'' de_str;
     x \<leftarrow> de_req m ''value'' Some;
     Some \<lparr>ep_path = path, ep_value = x\<rparr> }"

definition de_emit_request :: "platform \<Rightarrow> json \<Rightarrow> EmitPatch list option" where
  "de_emit_request P v = do { m \<leftarrow> de_fields P ''EmitRequest'' v; de_req m ''patches'' (de_vec (de_emit_patch P)) }"

section \<open>Setup\<close>

definition role_for_placeholder :: "string \<Rightarrow> Role option" where
  "role_for_placeholder placeholder =
     (if placeholder = ''$TOKEN_OPERATOR'' then Some Operator
      else if placeholder = ''$TOKEN_VIEWER'' then Some Viewer
      else if placeholder = ''$TOKEN_SERVICE'' then Some Service
      else if placeholder = ''$TOKEN_TEST'' then Some TestRole
      else None)"

definition install_token :: "string \<times> string \<Rightarrow> MapAuthenticator \<Rightarrow> MapAuthenticator" where
  "install_token kv auth = (let (placeholder, v) = kv in
     if placeholder = ''$TOKEN_INVALID'' then auth
     else (case role_for_placeholder placeholder of
         None \<Rightarrow> auth
       | Some r \<Rightarrow> insert_identity v \<lparr>id_subject = placeholder, id_role = r, id_paths = None\<rparr> auth))"

definition install_tokens :: "(string \<times> string) list \<Rightarrow> MapAuthenticator \<Rightarrow> MapAuthenticator" where
  "install_tokens tokens auth = fold install_token tokens auth"

text \<open>One entry of \<open>operator_inputs\<close>; \<open>None\<close> is an entry that is skipped.\<close>

definition apply_constraints :: "jmap \<Rightarrow> InputSpec \<Rightarrow> InputSpec" where
  "apply_constraints constraints spec =
     (let spec1 = (case Option.bind (bt_get constraints ''maxLength'') as_u64 of
            Some n \<Rightarrow> if unat n < 2 ^ 32 then spec_with_max_length (ucast n) spec else spec
          | None \<Rightarrow> spec);
          spec2 = (case Option.bind (bt_get constraints ''min'') as_f64 of
            Some x \<Rightarrow> spec_with_min x spec1 | None \<Rightarrow> spec1);
          spec3 = (case Option.bind (bt_get constraints ''max'') as_f64 of
            Some x \<Rightarrow> spec_with_max x spec2 | None \<Rightarrow> spec2)
      in case Option.bind (bt_get constraints ''values'') as_array of
           Some vs \<Rightarrow> (let strs = List.map_filter as_str vs in if strs \<noteq> [] then spec_with_values strs spec3 else spec3)
         | None \<Rightarrow> spec3)"

definition extract_input_spec :: "platform \<Rightarrow> json \<Rightarrow> InputSpec option" where
  "extract_input_spec P entry = (case as_object entry of
      None \<Rightarrow> None
    | Some ob \<Rightarrow> (case Option.bind (bt_get ob ''path'') as_str of
        None \<Rightarrow> None
      | Some path \<Rightarrow>
          (let spec = input_spec_new path;
               spec1 = (case Option.bind (bt_get ob ''type'') as_str of
                   Some kind_str \<Rightarrow> (case de_input_type P (JString kind_str) of
                       Some kind \<Rightarrow> spec_with_kind kind spec | None \<Rightarrow> spec)
                 | None \<Rightarrow> spec)
           in case Option.bind (bt_get ob ''constraints'') as_object of
                Some constraints \<Rightarrow> Some (apply_constraints constraints spec1)
              | None \<Rightarrow> Some spec1)))"

definition extract_input_specs :: "platform \<Rightarrow> json \<Rightarrow> InputSpec list option" where
  "extract_input_specs P inline = (case Option.bind (jget inline ''operator_inputs'') as_array of
      None \<Rightarrow> None
    | Some arr \<Rightarrow> (let out = List.map_filter (extract_input_spec P) arr in if out = [] then None else Some out))"

definition effective_id :: "SetupBundle \<Rightarrow> string" where
  "effective_id bundle = (case Option.bind (stb_inline bundle) (\<lambda>v. Option.bind (jget v ''scene_id'') as_str) of
      Some i \<Rightarrow> i | None \<Rightarrow> stb_id bundle)"

text \<open>What \<open>handle_setup\<close> does to the scene it has registered: rejection, declarations, seed.\<close>

definition prepare_scene :: "platform \<Rightarrow> SetupRequest \<Rightarrow> SetupBundle \<Rightarrow> Scene \<Rightarrow> Scene" where
  "prepare_scene P req bundle scene =
     (let inline = stb_inline bundle;
          scene1 = (case Option.bind inline (\<lambda>v. jget v ''layout'') of
              Some layout \<Rightarrow> (case check_zab_capture_nodes layout of
                  Inl e \<Rightarrow> scene_reject InvalidValue (show_bundle_error e) scene
                | Inr _ \<Rightarrow> scene)
            | None \<Rightarrow> scene);
          scene2 = (case Option.bind inline (extract_input_specs P) of
              Some specs \<Rightarrow> with_operator_inputs specs scene1
            | None \<Rightarrow> scene1)
      in if str_initial_state req \<noteq> [] then scene_seed (str_initial_state req) scene2
         else (case Option.bind inline (\<lambda>v. Option.bind (jget v ''defaults'') as_object) of
             Some defaults \<Rightarrow> scene_seed defaults scene2
           | None \<Rightarrow> scene2))"

definition ser_setup_response :: "string \<Rightarrow> string \<Rightarrow> string \<Rightarrow> json" where
  "ser_setup_response ws_url scene_id scene_version =
     obj [(''ws_url'', JString ws_url), (''scene_id'', JString scene_id), (''scene_version'', JString scene_version)]"

definition handle_setup :: "platform \<Rightarrow> SetupRequest \<Rightarrow> TestControlState \<Rightarrow> HttpResponse \<times> TestControlState" where
  "handle_setup P req st =
     (let srv = clear_scenes (tc_server st);
          auth = install_tokens (str_tokens req) (auth_clear (tc_auth st));
          st1 = st\<lparr>tc_server := srv, tc_auth := auth\<rparr>
      in case str_bundles req of
          [] \<Rightarrow> (problem 400 ''missing-bundle'' ''setup requires at least one bundle'', st1)
        | bundle # _ \<Rightarrow>
            (if stb_id bundle = [] then (problem 400 ''invalid-bundle'' ''bundle id is empty'', st1)
             else if \<not> starts_with ''sha256:'' (stb_hash bundle)
             then (problem 400 ''invalid-hash'' ''bundle.hash must be sha256-prefixed'', st1)
             else (case new_scene_with_version (effective_id bundle) (stb_hash bundle) srv of
                 (Inl e, srv') \<Rightarrow>
                   (problem 500 ''scene-register-failed'' (show_server_error e), st1\<lparr>tc_server := srv'\<rparr>)
               | (Inr r, srv') \<Rightarrow>
                   (let srv2 = update_scene r (prepare_scene P req bundle (scene_at srv' r)) srv';
                        srv3 = snd (set_active_scene (effective_id bundle) srv2)
                    in (json_response 200
                          (ser_setup_response (tc_ws_url st) (effective_id bundle) (stb_hash bundle)),
                        st1\<lparr>tc_server := srv3\<rparr>)))))"

section \<open>The other handlers\<close>

definition handle_reset :: "TestControlState \<Rightarrow> HttpResponse \<times> TestControlState" where
  "handle_reset st = (no_content,
     st\<lparr>tc_server := clear_scenes (tc_server st), tc_auth := auth_clear (tc_auth st)\<rparr>)"

definition ser_state_response :: "string \<Rightarrow> string \<Rightarrow> State \<Rightarrow> json" where
  "ser_state_response scene_id scene_version state =
     obj [(''scene_id'', JString scene_id), (''scene_version'', JString scene_version),
       (''state'', JObject state)]"

definition handle_state :: "TestControlState \<Rightarrow> HttpResponse" where
  "handle_state st = (case srv_active (tc_server st) of
      None \<Rightarrow> problem 409 ''no-active-scene'' ''no scene is currently active; call /test/setup first''
    | Some active_id \<Rightarrow> (case server_scene active_id (tc_server st) of
        None \<Rightarrow> problem 409 ''active-scene-missing'' ''active scene reference is stale''
      | Some r \<Rightarrow> (let scene = scene_at (tc_server st) r in
          json_response 200 (ser_state_response (sc_id scene) (sc_version scene) (scene_state scene)))))"

definition emit_error_code :: "ServerError \<Rightarrow> string" where
  "emit_error_code e = (case e of
      SEInvalidValue _ \<Rightarrow> ''INVALID_VALUE''
    | SEProtocol _ \<Rightarrow> ''INVALID_VALUE''
    | _ \<Rightarrow> ''INTERNAL'')"

definition handle_emit :: "EmitPatch list \<Rightarrow> TestControlState \<Rightarrow> HttpResponse \<times> TestControlState" where
  "handle_emit patches st = (case srv_active (tc_server st) of
      None \<Rightarrow> (problem 409 ''no-active-scene'' ''no scene is currently active'', st)
    | Some active_id \<Rightarrow> (case server_scene active_id (tc_server st) of
        None \<Rightarrow> (problem 409 ''active-scene-missing'' ''active scene reference is stale'', st)
      | Some r \<Rightarrow>
          (if patches = [] then (no_content, st)
           else
            (let (res, scene') = scene_emit (map (\<lambda>p. (ep_path p, ep_value p)) patches) (scene_at (tc_server st) r);
                 st' = st\<lparr>tc_server := update_scene r scene' (tc_server st)\<rparr>
             in case res of
               Inl e \<Rightarrow> (json_response 400 (obj [(''code'', JString (emit_error_code e)),
                   (''message'', JString (show_server_error e))]), st')
             | Inr _ \<Rightarrow> (no_content, st')))))"

definition handle_health :: HttpResponse where
  "handle_health = json_response 200 (obj [(''status'', JString ''ok''),
     (''control_plane_version'', jnat CONTROL_PLANE_VERSION), (''server'', JString SERVER_ID)])"

section \<open>What setup leaves behind\<close>

lemma new_after_clear:
  "\<exists>srv'. new_scene_with_version i v (clear_scenes srv) = (Inr (length (srv_heap srv)), srv')
    \<and> server_scene i srv' = Some (length (srv_heap srv)) \<and> scene_at srv' (length (srv_heap srv)) = scene_new i v
    \<and> length (srv_heap srv) < length (srv_heap srv')"
  by (simp add: new_scene_with_version_def clear_scenes_def add_scene_def Let_def scene_new_def server_scene_def)

text \<open>When a request passes the checks of \<open>handle_setup\<close>.\<close>

definition setup_accepted :: "SetupRequest \<Rightarrow> bool" where
  "setup_accepted req \<longleftrightarrow> (case str_bundles req of
      [] \<Rightarrow> False
    | bundle # _ \<Rightarrow> stb_id bundle \<noteq> [] \<and> starts_with ''sha256:'' (stb_hash bundle))"

lemma handle_setup_accepted:
  assumes "setup_accepted req" "str_bundles req = bundle # rest"
  shows "\<exists>srv' r. snd (handle_setup P req st) = st\<lparr>tc_server := srv',
        tc_auth := install_tokens (str_tokens req) []\<rparr>
    \<and> res_status (fst (handle_setup P req st)) = 200
    \<and> srv_active srv' = Some (effective_id bundle) \<and> server_scene (effective_id bundle) srv' = Some r
    \<and> scene_at srv' r = prepare_scene P req bundle (scene_new (effective_id bundle) (stb_hash bundle))"
proof -
  let ?n = "length (srv_heap (tc_server st))"
  obtain srv' where srv': "new_scene_with_version (effective_id bundle) (stb_hash bundle) (clear_scenes (tc_server st)) = (Inr ?n, srv')"
    "server_scene (effective_id bundle) srv' = Some ?n"
    "scene_at srv' ?n = scene_new (effective_id bundle) (stb_hash bundle)" "?n < length (srv_heap srv')"
    using new_after_clear [of "effective_id bundle" "stb_hash bundle" "tc_server st"] by blast
  then show ?thesis
    using assms
    by (intro exI [of _ "snd (set_active_scene (effective_id bundle)
        (update_scene ?n (prepare_scene P req bundle (scene_at srv' ?n)) srv'))"] exI [of _ ?n])
      (auto simp: handle_setup_def setup_accepted_def Let_def json_response_def set_active_scene_def
        update_scene_def server_scene_def auth_clear_def)
qed

lemma handle_setup_refused:
  "\<not> setup_accepted req \<Longrightarrow> res_status (fst (handle_setup P req st)) = 400
    \<and> snd (handle_setup P req st) = st\<lparr>tc_server := clear_scenes (tc_server st),
        tc_auth := install_tokens (str_tokens req) []\<rparr>"
  by (auto simp: handle_setup_def setup_accepted_def problem_def Let_def auth_clear_def split: list.splits)

lemma prepare_scene_fields:
  "sc_id (prepare_scene P req bundle s) = sc_id s" "sc_version (prepare_scene P req bundle s) = sc_version s"
  by (simp_all add: prepare_scene_def Let_def scene_reject_def with_operator_inputs_def scene_seed_def
      split: option.splits sum.splits)

lemma prepare_scene_state:
  "str_initial_state req \<noteq> [] \<Longrightarrow>
    sc_store (prepare_scene P req bundle s) = store_seed (str_initial_state req) (sc_store s)"
  by (simp add: prepare_scene_def Let_def scene_reject_def with_operator_inputs_def scene_seed_def
      split: option.splits sum.splits)

lemma install_tokens_snoc: "install_tokens (kvs @ [kv]) a = install_token kv (install_tokens kvs a)"
  by (simp add: install_tokens_def)

lemma install_tokens_admits:
  "case authenticate (install_tokens kvs []) token of
      Inr i \<Rightarrow> (id_subject i, token) \<in> set kvs \<and> role_for_placeholder (id_subject i) = Some (id_role i) \<and> id_paths i = None
    | Inl e \<Rightarrow> e = Denied \<and> token \<notin> snd ` {kv \<in> set kvs. role_for_placeholder (fst kv) \<noteq> None}"
proof (induction kvs rule: rev_induct)
  case Nil
  then show ?case by (simp add: install_tokens_def authenticate_def)
next
  case (snoc kv kvs)
  obtain ph v where kv: "kv = (ph, v)" by fastforce
  have "role_for_placeholder ''$TOKEN_INVALID'' = None" by (simp add: role_for_placeholder_def)
  with snoc show ?case
    by (cases "role_for_placeholder ph"; cases "v = token")
      (auto simp: kv install_tokens_snoc install_token_def authenticate_def insert_identity_def
        split: option.splits sum.splits)
qed

text \<open>The state a scene holds after it was seeded with a well-formed initial state.\<close>

lemma prepared_state:
  assumes "bt_wf (str_initial_state req)" "str_initial_state req \<noteq> []"
  shows "scene_state (prepare_scene P req bd (scene_new i v)) = str_initial_state req"
  using assms by (simp add: scene_state_def prepare_scene_state scene_new_def store_snapshot_seed)

section \<open>Properties\<close>

text \<open>
  Setup followed by a state query reads back what was set up: the effective scene id, the pinned
  hash and exactly the initial state of the request.
\<close>
theorem setup_then_state:
  assumes "setup_accepted req" "bt_wf (str_initial_state req)" "str_initial_state req \<noteq> []"
  shows "\<exists>bundle rest. str_bundles req = bundle # rest
    \<and> handle_state (snd (handle_setup P req st)) = json_response 200
        (ser_state_response (effective_id bundle) (stb_hash bundle) (str_initial_state req))"
proof -
  obtain bd rest where b: "str_bundles req = bd # rest"
    using assms(1) by (auto simp: setup_accepted_def split: list.splits)
  then show ?thesis
    using handle_setup_accepted [OF assms(1) b, of P st] prepared_state [OF assms(2,3)]
    by (auto simp: handle_state_def Let_def prepare_scene_fields scene_new_def)
qed

definition sample_setup :: SetupRequest where
  "sample_setup = \<lparr>str_scenario = None, str_tokens = [(''$TOKEN_OPERATOR'', ''op'')],
     str_bundles = [\<lparr>stb_id = ''t'', stb_hash = ''sha256:0'', stb_inline = None\<rparr>],
     str_initial_state = [(''count'', jnat 0), (''title'', JString ''Hello'')]\<rparr>"

theorem setup_then_state_witness:
  "handle_state (snd (handle_setup sample_platform sample_setup
      \<lparr>tc_server = server_init sample_config, tc_auth = [], tc_ws_url = ''ws://h''\<rparr>)) = json_response 200
     (ser_state_response ''t'' ''sha256:0'' [(''count'', jnat 0), (''title'', JString ''Hello'')])"
proof -
  have "setup_accepted sample_setup" by (simp add: setup_accepted_def sample_setup_def starts_with_def)
  moreover have "bt_wf (str_initial_state sample_setup)" by code_simp
  ultimately show ?thesis
    using setup_then_state [of sample_setup sample_platform
        "\<lparr>tc_server = server_init sample_config, tc_auth = [], tc_ws_url = ''ws://h''\<rparr>"]
    by (simp add: sample_setup_def effective_id_def)
qed

text \<open>
  Setup decides exactly by its first bundle: 200 when it has an id and a \<open>sha256:\<close> hash, and
  400 otherwise; registering can never conflict, because the scenes were cleared first. A refused
  setup leaves no scene and no active scene.
\<close>
theorem setup_status_exact:
  "res_status (fst (handle_setup P req st)) = (if setup_accepted req then 200 else 400)
    \<and> (if setup_accepted req then srv_active (tc_server (snd (handle_setup P req st))) = Some (effective_id (hd (str_bundles req)))
       else srv_scenes (tc_server (snd (handle_setup P req st))) = []
         \<and> srv_active (tc_server (snd (handle_setup P req st))) = None)"
proof (cases "setup_accepted req")
  case True
  then obtain bd rest where "str_bundles req = bd # rest"
    by (auto simp: setup_accepted_def split: list.splits)
  with handle_setup_accepted [OF True this, of P st] True show ?thesis by auto
qed (simp add: handle_setup_refused clear_scenes_def)

text \<open>
  After a setup the server admits exactly the tokens listed under a known placeholder, each with
  that placeholder's role and no path scope; everything else, the previous run's tokens and the
  invalid token included, is denied.
\<close>
theorem setup_tokens_exact:
  "case authenticate (tc_auth (snd (handle_setup P req st))) token of
      Inr i \<Rightarrow> (id_subject i, token) \<in> set (str_tokens req) \<and> role_for_placeholder (id_subject i) = Some (id_role i)
        \<and> id_paths i = None
    | Inl e \<Rightarrow> e = Denied \<and> token \<notin> snd ` {kv \<in> set (str_tokens req). role_for_placeholder (fst kv) \<noteq> None}"
proof -
  have "tc_auth (snd (handle_setup P req st)) = install_tokens (str_tokens req) []"
    using handle_setup_accepted [of req _ _ P st] handle_setup_refused [of req P st]
    by (cases "setup_accepted req"; cases "str_bundles req") (fastforce simp: setup_accepted_def)+
  with install_tokens_admits [where kvs = "str_tokens req" and token = token] show ?thesis by simp
qed

text \<open>
  An emit request through the control plane is all or nothing: 204 means that the active scene
  got exactly the request's updates and nothing else of the server changed; any other status leaves
  everything as it was.
\<close>
theorem control_emit_all_or_nothing:
  assumes "server_wf P (tc_server st)" "handle_emit patches st = (res, st')"
  shows "if res_status res = 204
    then (\<exists>i r t. srv_active (tc_server st) = Some i \<and> server_scene i (tc_server st) = Some r
      \<and> st' = st\<lparr>tc_server := update_scene r t (tc_server st)\<rparr>
      \<and> scene_state t = bt_insert_all (map (\<lambda>p. (ep_path p, ep_value p)) patches) (scene_state (scene_at (tc_server st) r)))
    else st' = st"
proof (cases "Option.bind (srv_active (tc_server st)) (\<lambda>i. server_scene i (tc_server st))")
  case None
  then show ?thesis
    using assms(2) by (auto simp: handle_emit_def problem_def split: option.splits)
next
  case (Some r)
  then obtain i where i: "srv_active (tc_server st) = Some i" "server_scene i (tc_server st) = Some r"
    by (auto simp: bind_eq_Some_conv)
  let ?s = "scene_at (tc_server st) r"
  let ?ps = "map (\<lambda>p. (ep_path p, ep_value p)) patches"
  have "r < length (srv_heap (tc_server st))" using assms(1) i by (simp add: server_wf_def server_scene_def)
  then have wf: "scene_wf ?s" by (rule server_wf_scene [OF assms(1)])
  have same: "update_scene r ?s (tc_server st) = tc_server st" by (simp add: update_scene_def)
  show ?thesis
  proof (cases "legal_updates ?ps")
    case True
    then obtain t where "emit_with_cause ?ps None ?s = (Inr (), t)" using emit_ok by blast
    moreover from this have "scene_state t = bt_insert_all ?ps (scene_state ?s)"
      using emit_state [OF wf True, of None] by simp
    moreover have "t = ?s" if "patches = []"
      using that \<open>emit_with_cause ?ps None ?s = (Inr (), t)\<close> by (simp add: emit_eq)
    ultimately show ?thesis
      using assms(2) i same
      by (cases "patches = []") (auto simp: handle_emit_def scene_emit_def no_content_def intro!: exI [of _ r] exI [of _ t])
  next
    case False
    then obtain e where "parse_patches ?ps = Inl e" using parse_patches_cases [of ?ps] by auto
    then have "emit_with_cause ?ps None ?s = (Inl e, ?s)" by (simp add: emit_eq)
    moreover have "patches \<noteq> []" using False by auto
    ultimately have "res_status (fst (handle_emit patches st)) = 400 \<and> snd (handle_emit patches st) = st"
      using i same by (simp add: handle_emit_def scene_emit_def json_response_def Let_def)
    then show ?thesis using assms(2) by simp
  qed
qed

theorem control_emit_all_or_nothing_witness:
  "\<exists>res. handle_emit [] \<lparr>tc_server = server_init sample_config, tc_auth = [], tc_ws_url = []\<rparr> =
    (res, \<lparr>tc_server = server_init sample_config, tc_auth = [], tc_ws_url = []\<rparr>)"
proof -
  let ?st = "\<lparr>tc_server = server_init sample_config, tc_auth = [], tc_ws_url = []\<rparr>"
  have "server_wf sample_platform (tc_server ?st)" by (simp add: server_wf_init)
  moreover have "res_status (fst (handle_emit [] ?st)) = 409"
    by (simp add: handle_emit_def server_init_def problem_def)
  ultimately show ?thesis
    using control_emit_all_or_nothing [of sample_platform ?st "[]" "fst (handle_emit [] ?st)" "snd (handle_emit [] ?st)"]
    by (cases "handle_emit [] ?st") simp
qed

end
