(* ===== verification/Player.thy ===== *)
theory Player
  imports Conformance Test_Control
begin

text \<open>
  The step interpreter of the conformance crate (\<open>player.rs\<close>) and its control-plane client
  (\<open>control.rs\<close>). What the sockets and the HTTP client yield are arguments; a step is a function from
  what it reads and the shadow state to its outcome and the new shadow state.
\<close>

section \<open>The control client\<close>

datatype ControlError = CHttp string | CStatus nat string | CMissing string

record CtlSetupBundle =
  csb_id :: string
  csb_hash :: string
  csb_inline :: "json option"

record CtlSetupRequest =
  csr_scenario :: string
  csr_tokens :: "string bt"
  csr_bundles :: "CtlSetupBundle list"
  csr_initial_state :: "json bt"

definition ser_ctl_bundle :: "CtlSetupBundle \<Rightarrow> json" where
  "ser_ctl_bundle b = obj ([(''id'', JString (csb_id b)), (''hash'', JString (csb_hash b))]
     @ opt_field ''inline'' (\<lambda>v. v) (csb_inline b))"

definition ser_ctl_setup :: "CtlSetupRequest \<Rightarrow> json" where
  "ser_ctl_setup r = obj ([(''scenario'', JString (csr_scenario r)),
       (''tokens'', JObject (map (\<lambda>(k, v). (k, JString v)) (csr_tokens r))),
       (''bundles'', JArray (map ser_ctl_bundle (csr_bundles r)))]
     @ (if csr_initial_state r = [] then [] else [(''initial_state'', JObject (csr_initial_state r))]))"

definition ser_ctl_emit :: "(string \<times> json) list \<Rightarrow> json" where
  "ser_ctl_emit patches =
     obj [(''patches'', JArray (map (\<lambda>(path, v). obj [(''path'', JString path), (''value'', v)]) patches))]"

text \<open>What a request yields: a transport error, or a status and the outcome of reading the body.\<close>

type_synonym http_result = "string + (nat \<times> (string + string))"

definition http_success :: "nat \<Rightarrow> bool" where
  "http_success status \<longleftrightarrow> 200 \<le> status \<and> status < 300"

definition body_or_default :: "string + string \<Rightarrow> string" where
  "body_or_default b = (case b of Inl _ \<Rightarrow> [] | Inr t \<Rightarrow> t)"

text \<open>\<open>setup\<close>, \<open>state\<close> and \<open>health\<close> read a typed body; \<open>reset\<close> and \<open>emit\<close> read none.\<close>

definition control_read :: "platform \<Rightarrow> string \<Rightarrow> (json \<Rightarrow> 'a option) \<Rightarrow> http_result \<Rightarrow> ControlError + 'a" where
  "control_read P T de res = (case res of
      Inl e \<Rightarrow> Inl (CHttp e)
    | Inr (status, body) \<Rightarrow>
        (if \<not> http_success status then Inl (CStatus status (body_or_default body))
         else (case bindE body (from_slice_typed P T) of
             Inl e \<Rightarrow> Inl (CHttp e)
           | Inr v \<Rightarrow> (case de v of None \<Rightarrow> Inl (CHttp (de_error P T v)) | Some x \<Rightarrow> Inr x))))"

definition control_check :: "http_result \<Rightarrow> ControlError + unit" where
  "control_check res = (case res of
      Inl e \<Rightarrow> Inl (CHttp e)
    | Inr (status, body) \<Rightarrow>
        (if \<not> http_success status then Inl (CStatus status (body_or_default body)) else Inr ()))"

record CtlSetupResponse =
  cs_ws_url :: string
  cs_scene_id :: string
  cs_scene_version :: string

definition de_ctl_setup_response :: "platform \<Rightarrow> json \<Rightarrow> CtlSetupResponse option" where
  "de_ctl_setup_response P v = do {
     m \<leftarrow> de_fields P ''SetupResponse'' v;
     ws_url \<leftarrow> de_req m ''ws_url'' de_str;
     scene_id \<leftarrow> de_req m ''scene_id'' de_str;
     scene_version \<leftarrow> de_req m ''scene_version'' de_str;
     Some \<lparr>cs_ws_url = ws_url, cs_scene_id = scene_id, cs_scene_version = scene_version\<rparr> }"

record CtlStateResponse =
  ct_scene_id :: string
  ct_scene_version :: string
  ct_state :: "json bt"

definition de_ctl_state_response :: "platform \<Rightarrow> json \<Rightarrow> CtlStateResponse option" where
  "de_ctl_state_response P v = do {
     m \<leftarrow> de_fields P ''StateResponse'' v;
     scene_id \<leftarrow> de_req m ''scene_id'' de_str;
     scene_version \<leftarrow> de_req m ''scene_version'' de_str;
     state \<leftarrow> de_req m ''state'' as_object;
     Some \<lparr>ct_scene_id = scene_id, ct_scene_version = scene_version, ct_state = state\<rparr> }"

definition control_setup :: "platform \<Rightarrow> (string \<Rightarrow> json \<Rightarrow> http_result) \<Rightarrow> string \<Rightarrow> CtlSetupRequest
    \<Rightarrow> ControlError + CtlSetupResponse" where
  "control_setup P post base req = control_read P ''SetupResponse'' (de_ctl_setup_response P)
     (post (base @ ''/test/setup'') (ser_ctl_setup req))"

definition control_emit :: "(string \<Rightarrow> json \<Rightarrow> http_result) \<Rightarrow> string \<Rightarrow> (string \<times> json) list \<Rightarrow> ControlError + unit" where
  "control_emit post base patches = control_check (post (base @ ''/test/emit'') (ser_ctl_emit patches))"

definition control_reset :: "(string \<Rightarrow> http_result) \<Rightarrow> string \<Rightarrow> ControlError + unit" where
  "control_reset post base = control_check (post (base @ ''/test/reset''))"

definition control_state :: "platform \<Rightarrow> (string \<Rightarrow> http_result) \<Rightarrow> string \<Rightarrow> ControlError + CtlStateResponse" where
  "control_state P get_url base = control_read P ''StateResponse'' (de_ctl_state_response P) (get_url (base @ ''/test/state''))"

record CtlHealthResponse =
  ch_status :: string
  ch_control_plane_version :: u32
  ch_server :: "string option"

definition de_ctl_health_response :: "platform \<Rightarrow> json \<Rightarrow> CtlHealthResponse option" where
  "de_ctl_health_response P v = do {
     m \<leftarrow> de_fields P ''HealthResponse'' v;
     status \<leftarrow> de_req m ''status'' de_str;
     version \<leftarrow> de_req m ''control_plane_version'' de_u32;
     server \<leftarrow> de_opt m ''server'' de_str;
     Some \<lparr>ch_status = status, ch_control_plane_version = version, ch_server = server\<rparr> }"

definition control_health :: "platform \<Rightarrow> (string \<Rightarrow> http_result) \<Rightarrow> string \<Rightarrow> ControlError + CtlHealthResponse" where
  "control_health P get_url base = control_read P ''HealthResponse'' (de_ctl_health_response P) (get_url (base @ ''/test/health''))"

definition show_control_error :: "ControlError \<Rightarrow> string" where
  "show_control_error e = (case e of
      CHttp m \<Rightarrow> ''http: '' @ m
    | CStatus status body \<Rightarrow> ''control plane returned '' @ show_nat status @ '': '' @ body
    | CMissing field \<Rightarrow> ''missing field in response: '' @ field)"

section \<open>Preparing a scenario\<close>

fun first_scene_id_and_hash :: "Step list \<Rightarrow> string \<Rightarrow> string \<Rightarrow> string \<times> string" where
  "first_scene_id_and_hash [] i h = (i, h)"
| "first_scene_id_and_hash (ServerSends frame # steps) i h =
     (let i' = (if i = [] then (case Option.bind (jget frame ''scene_id'') as_str of
                  Some v \<Rightarrow> if v \<noteq> ''$ANY'' then v else i | None \<Rightarrow> i) else i);
          h' = (if h = [] then (case Option.bind (jget frame ''scene_version'') as_str of
                  Some v \<Rightarrow> if v \<noteq> ''$ANY_HASH'' then v else h | None \<Rightarrow> h) else h)
      in if i' \<noteq> [] \<and> h' \<noteq> [] then (i', h') else first_scene_id_and_hash steps i' h')"
| "first_scene_id_and_hash (_ # steps) i h = first_scene_id_and_hash steps i h"

definition is_sentinel :: "json \<Rightarrow> bool" where
  "is_sentinel v \<longleftrightarrow> v = JString ''$ANY'' \<or> v = JString ''$ANY_HASH''"

fun extract_initial_state :: "Step list \<Rightarrow> json bt" where
  "extract_initial_state [] = []"
| "extract_initial_state (ServerSends frame # steps) =
     (if Option.bind (jget frame ''type'') as_str \<noteq> Some ''snapshot'' then extract_initial_state steps
      else (case Option.bind (jget frame ''state'') as_object of
          None \<Rightarrow> extract_initial_state steps
        | Some state \<Rightarrow> bt_of (filter (\<lambda>kv. \<not> is_sentinel (snd kv)) state)))"
| "extract_initial_state (_ # steps) = extract_initial_state steps"

definition zero_hash :: string where
  "zero_hash = ''sha256:'' @ replicate 64 CHR ''0''"

definition setup_bundle_of :: "string bt \<Rightarrow> InlineBundle \<Rightarrow> CtlSetupBundle" where
  "setup_bundle_of bundle_hashes b = \<lparr>
     csb_id = (case Option.bind (jget (ib_inline b) ''scene_id'') as_str of Some i \<Rightarrow> i | None \<Rightarrow> ib_id b),
     csb_hash = (case bt_get bundle_hashes (ib_id b) of Some h \<Rightarrow> h | None \<Rightarrow> ''sha256:''),
     csb_inline = Some (ib_inline b)\<rparr>"

definition build_setup_bundles :: "Scenario \<Rightarrow> string bt \<Rightarrow> CtlSetupBundle list" where
  "build_setup_bundles scenario bundle_hashes =
     (if sn_bundles scenario \<noteq> [] then map (setup_bundle_of bundle_hashes) (sn_bundles scenario)
      else
       (let (i, h) = first_scene_id_and_hash (sn_steps scenario) [] [];
            i' = (if i = [] then sn_name scenario else i);
            h' = (if h = [] then zero_hash else h);
            inputs = map (\<lambda>kv. obj [(''path'', JString (fst kv))])
              (filter (\<lambda>kv. starts_with ''__inputs.'' (fst kv)) (extract_initial_state (sn_steps scenario)));
            inline = (if inputs \<noteq> [] then [(''operator_inputs'', JArray inputs)] else [])
        in [\<lparr>csb_id = i', csb_hash = h', csb_inline = Some (JObject inline)\<rparr>]))"

definition bundle_hashes_of :: "platform \<Rightarrow> Scenario \<Rightarrow> string bt" where
  "bundle_hashes_of P scenario =
     bt_of (map (\<lambda>b. (ib_id b, hash_inline_bundle P (ib_inline b))) (sn_bundles scenario))"

definition setup_request :: "platform \<Rightarrow> Scenario \<Rightarrow> string bt \<Rightarrow> CtlSetupRequest" where
  "setup_request P scenario tokens = \<lparr>csr_scenario = sn_name scenario, csr_tokens = tokens,
     csr_bundles = build_setup_bundles scenario (bundle_hashes_of P scenario),
     csr_initial_state = (if sn_initial_state scenario = [] then extract_initial_state (sn_steps scenario)
       else sn_initial_state scenario)\<rparr>"

section \<open>Running a step\<close>

datatype PlayerError =
    PControl ControlError
  | PWs string
  | PJson string
  | PStepFailed nat string
  | PClosed
  | PExpectedText string

definition show_player_error :: "PlayerError \<Rightarrow> string" where
  "show_player_error e = (case e of
      PControl c \<Rightarrow> ''control: '' @ show_control_error c
    | PWs m \<Rightarrow> ''websocket: '' @ m
    | PJson m \<Rightarrow> ''json: '' @ m
    | PStepFailed step_index message \<Rightarrow> ''step '' @ show_nat step_index @ '': '' @ message
    | PClosed \<Rightarrow> ''ws connection closed unexpectedly''
    | PExpectedText got \<Rightarrow> ''expected text frame, got '' @ got)"

datatype PlayerMsg = PmText string | PmClose "(nat \<times> string) option" | PmOther string

text \<open>
  The outside of a step: sending a text, \<open>ws.next()\<close> under a timeout (\<open>None\<close>: it elapsed) and without
  one, the control plane, and the \<open>Debug\<close> renderings used in messages.
\<close>

record StepIO =
  io_send :: "string \<Rightarrow> string + unit"
  io_timed :: "(string + PlayerMsg) option option"
  io_next :: "(string + PlayerMsg) option"
  io_state :: "ControlError + CtlStateResponse"
  io_emit :: "(string \<times> json) list \<Rightarrow> ControlError + unit"
  io_debug_value :: "json \<Rightarrow> string"
  io_debug_msg :: "PlayerMsg \<Rightarrow> string"

definition read_text_frame :: "platform \<Rightarrow> StepIO \<Rightarrow> nat \<Rightarrow> PlayerError + json" where
  "read_text_frame P io step = (case io_timed io of
      None \<Rightarrow> Inl (PStepFailed step ''server-sends: no frame within 5000 ms'')
    | Some None \<Rightarrow> Inl PClosed
    | Some (Some (Inl e)) \<Rightarrow> Inl (PWs e)
    | Some (Some (Inr (PmText t))) \<Rightarrow> (case from_slice P t of Inl e \<Rightarrow> Inl (PJson e) | Inr v \<Rightarrow> Inr v)
    | Some (Some (Inr other)) \<Rightarrow> Inl (PExpectedText (io_debug_msg io other)))"

text \<open>The comparison loop of \<open>expect-runtime-state\<close> and \<open>expect-server-state\<close>.\<close>

fun expect_state :: "StepIO \<Rightarrow> string \<Rightarrow> nat \<Rightarrow> (string \<times> json) list \<Rightarrow> json bt \<Rightarrow> PlayerError + unit" where
  "expect_state io verb idx [] state = Inr ()"
| "expect_state io verb idx ((k, v) # expected) state = (case bt_get state k of
      None \<Rightarrow> Inl (PStepFailed idx (verb @ '': missing path '' @ debug_str k))
    | Some actual \<Rightarrow>
        (if \<not> json_eq actual v
         then Inl (PStepFailed idx (verb @ '': path '' @ debug_str k @ '': expected '' @ io_debug_value io v
           @ '', got '' @ io_debug_value io actual))
         else expect_state io verb idx expected state))"

fun emit_pairs :: "Substitutions \<Rightarrow> nat \<Rightarrow> json list \<Rightarrow> PlayerError + (string \<times> json) list" where
  "emit_pairs subs idx [] = Inr []"
| "emit_pairs subs idx (p # ps) = (case Option.bind (jget p ''path'') as_str of
      None \<Rightarrow> Inl (PStepFailed idx ''server-emits patch missing `path`'')
    | Some path \<Rightarrow> (case jget p ''value'' of
        None \<Rightarrow> Inl (PStepFailed idx ''server-emits patch missing `value`'')
      | Some v \<Rightarrow> (case emit_pairs subs idx ps of
          Inl e \<Rightarrow> Inl e
        | Inr pairs \<Rightarrow> Inr ((path, subst_apply subs v) # pairs))))"

definition step_client_sends :: "platform \<Rightarrow> StepIO \<Rightarrow> Substitutions \<Rightarrow> json \<Rightarrow> PlayerError + unit" where
  "step_client_sends P io subs frame = map_sum PWs id (io_send io (to_vec P (subst_apply subs frame)))"

definition step_server_sends :: "platform \<Rightarrow> StepIO \<Rightarrow> nat \<Rightarrow> Substitutions \<Rightarrow> json \<Rightarrow> json bt
    \<Rightarrow> (PlayerError + unit) \<times> json bt" where
  "step_server_sends P io idx subs frame shadow = (case read_text_frame P io idx of
      Inl e \<Rightarrow> (Inl e, shadow)
    | Inr received \<Rightarrow>
        (let shadow' = update_shadow_from_frame received shadow in
         case structural_match P (subst_apply subs frame) received of
           Inl diff \<Rightarrow> (Inl (PStepFailed idx (''server-sends mismatch: '' @ diff)), shadow')
         | Inr _ \<Rightarrow> (Inr (), shadow')))"

definition step_no_frame :: "StepIO \<Rightarrow> nat \<Rightarrow> u64 \<Rightarrow> PlayerError + unit" where
  "step_no_frame io idx duration_ms = (case io_timed io of
      None \<Rightarrow> Inr ()
    | Some None \<Rightarrow> Inr ()
    | Some (Some (Inr (PmClose cf))) \<Rightarrow>
        (let code = (case cf of None \<Rightarrow> 1005 | Some (c, _) \<Rightarrow> c) in
         if code = 1000 \<or> code = 1001 \<or> code = 1005 then Inr ()
         else Inl (PStepFailed idx (''expect-no-frame-for: abnormal close code '' @ show_nat code
           @ '' within '' @ show_nat (unat duration_ms) @ '' ms'')))
    | Some (Some _) \<Rightarrow> Inl (PStepFailed idx (''expect-no-frame-for: a frame arrived within ''
        @ show_nat (unat duration_ms) @ '' ms'')))"

definition wanted_reason :: "Substitutions \<Rightarrow> ClientAction \<Rightarrow> string" where
  "wanted_reason subs action =
     (let reason = (case Option.bind (bt_get (ca_fields action) ''reason'') as_str of Some r \<Rightarrow> r | None \<Rightarrow> [])
      in case as_str (subst_apply subs (JString reason)) of Some w \<Rightarrow> w | None \<Rightarrow> reason)"

definition step_client_action :: "StepIO \<Rightarrow> nat \<Rightarrow> Substitutions \<Rightarrow> ClientAction \<Rightarrow> PlayerError + unit" where
  "step_client_action io idx subs action =
     (if ca_action action = ''close-with-reason'' then
        (let want = wanted_reason subs action
         in case io_next io of
              None \<Rightarrow> Inl PClosed
            | Some (Inl e) \<Rightarrow> Inl (PWs e)
            | Some (Inr (PmClose (Some (_, got)))) \<Rightarrow>
                (if want \<noteq> ''$ANY'' \<and> \<not> contains_str want got
                 then Inl (PStepFailed idx (''expect-client-action close-with-reason: want '' @ debug_str want
                   @ '', got '' @ debug_str got))
                 else Inr ())
            | Some (Inr other) \<Rightarrow>
                Inl (PStepFailed idx (''expect-client-action close-with-reason: got '' @ io_debug_msg io other)))
      else if ca_action action = ''reconnect'' then Inr ()
      else Inl (PStepFailed idx (''expect-client-action: action '' @ debug_str (ca_action action)
        @ '' not supported in server-target harness'')))"

definition step_server_emits :: "platform \<Rightarrow> StepIO \<Rightarrow> nat \<Rightarrow> Substitutions \<Rightarrow> json \<Rightarrow> json bt
    \<Rightarrow> (PlayerError + unit) \<times> json bt" where
  "step_server_emits P io idx subs frame shadow =
     (let frame_type = (case Option.bind (jget frame ''type'') as_str of Some t \<Rightarrow> t | None \<Rightarrow> []) in
      if frame_type \<noteq> ''delta'' then
        (Inl (PStepFailed idx (''server-emits only supports type=delta today, got '' @ debug_str frame_type)), shadow)
      else (case Option.bind (jget frame ''patches'') as_array of
          None \<Rightarrow> (Inl (PStepFailed idx ''server-emits delta missing `patches` list''), shadow)
        | Some raw_patches \<Rightarrow> (case emit_pairs subs idx raw_patches of
            Inl e \<Rightarrow> (Inl e, shadow)
          | Inr pairs \<Rightarrow> (case io_emit io pairs of
              Inl e \<Rightarrow> (Inl (PControl e), shadow)
            | Inr _ \<Rightarrow> (case read_text_frame P io idx of
                Inl e \<Rightarrow> (Inl e, shadow)
              | Inr actual \<Rightarrow>
                  (let shadow' = update_shadow_from_frame actual shadow in
                   case structural_match P (subst_apply subs frame) actual of
                     Inl diff \<Rightarrow> (Inl (PStepFailed idx (''server-emits mismatch: '' @ diff
                       @ '' (got '' @ to_vec P actual @ '')'')), shadow')
                   | Inr _ \<Rightarrow> (Inr (), shadow')))))))"

definition player_step :: "platform \<Rightarrow> StepIO \<Rightarrow> nat \<Rightarrow> Step \<Rightarrow> Substitutions \<Rightarrow> json bt \<Rightarrow> (PlayerError + unit) \<times> json bt" where
  "player_step P io idx step subs shadow = (case step of
      ClientSends frame \<Rightarrow> (step_client_sends P io subs frame, shadow)
    | ServerSends frame \<Rightarrow> step_server_sends P io idx subs frame shadow
    | ExpectRuntimeState state \<Rightarrow>
        (expect_state io ''expect-runtime-state'' idx (subst_apply_to_map subs state) shadow, shadow)
    | ExpectServerState state \<Rightarrow> (case io_state io of
          Inl e \<Rightarrow> (Inl (PControl e), shadow)
        | Inr resp \<Rightarrow>
            (expect_state io ''expect-server-state'' idx (subst_apply_to_map subs state) (ct_state resp), shadow))
    | ExpectNoFrameFor duration_ms \<Rightarrow> (step_no_frame io idx duration_ms, shadow)
    | ExpectClientAction action \<Rightarrow> (step_client_action io idx subs action, shadow)
    | ServerEmits frame \<Rightarrow> step_server_emits P io idx subs frame shadow
    | Unsupported kind _ \<Rightarrow> (Inl (PStepFailed idx (''step kind '' @ debug_str kind
        @ '' not supported by server-target harness'')), shadow))"

text \<open>The steps in order, stopping at the first that fails; each step has its own outside.\<close>

fun run_steps :: "platform \<Rightarrow> Substitutions \<Rightarrow> nat \<Rightarrow> (Step \<times> StepIO) list \<Rightarrow> json bt \<Rightarrow> (PlayerError + unit) \<times> json bt" where
  "run_steps P subs idx [] shadow = (Inr (), shadow)"
| "run_steps P subs idx ((step, io) # steps) shadow = (case player_step P io idx step subs shadow of
      (Inl e, shadow') \<Rightarrow> (Inl e, shadow')
    | (Inr _, shadow') \<Rightarrow> run_steps P subs (Suc idx) steps shadow')"

text \<open>
  Opening the socket: the handshake headers of a URL, and the connection they are sent on. The URI
  parser gives the host and port it finds.
\<close>

definition player_build_request :: "(string \<Rightarrow> string + (string option \<times> nat option)) \<Rightarrow> string \<Rightarrow> string
    \<Rightarrow> string + (string \<times> string) list" where
  "player_build_request parse_uri key url = (case parse_uri url of
      Inl e \<Rightarrow> Inl e
    | Inr (host_opt, port) \<Rightarrow>
        (let host = (case host_opt of Some h \<Rightarrow> h | None \<Rightarrow> ''localhost'');
             host_header = (case port of Some p \<Rightarrow> host @ '':'' @ show_nat p | None \<Rightarrow> host)
         in Inr [(''Host'', host_header), (''Upgrade'', ''websocket''), (''Connection'', ''Upgrade''),
              (''Sec-WebSocket-Key'', key), (''Sec-WebSocket-Version'', ''13''),
              (''Sec-WebSocket-Protocol'', WEBSOCKET_SUBPROTOCOL)]))"

text \<open>The outside of a scenario: the HTTP client, the URI parser, the socket and each step's outside.\<close>

record PlayIO =
  pi_post :: "string \<Rightarrow> json \<Rightarrow> http_result"
  pi_reset_post :: "string \<Rightarrow> http_result"
  pi_parse_uri :: "string \<Rightarrow> string + (string option \<times> nat option)"
  pi_key :: string
  pi_connect :: "string \<Rightarrow> (string \<times> string) list \<Rightarrow> string + unit"
  pi_steps :: "nat \<Rightarrow> StepIO"

definition open_ws :: "PlayIO \<Rightarrow> string \<Rightarrow> PlayerError + unit" where
  "open_ws out url = (case player_build_request (pi_parse_uri out) (pi_key out) url of
      Inl _ \<Rightarrow> Inl PClosed
    | Inr headers \<Rightarrow> map_sum PWs id (pi_connect out url headers))"

text \<open>\<open>steps.iter().enumerate()\<close>, each step with its outside.\<close>

definition steps_with_io :: "PlayIO \<Rightarrow> Scenario \<Rightarrow> (Step \<times> StepIO) list" where
  "steps_with_io out scenario = map (\<lambda>(i, step). (step, pi_steps out i)) (enumerate 0 (sn_steps scenario))"

definition run_scenario :: "platform \<Rightarrow> PlayIO \<Rightarrow> string \<Rightarrow> Scenario \<Rightarrow> string bt \<Rightarrow> PlayerError + unit" where
  "run_scenario P out base scenario tokens =
     (case control_setup P (pi_post out) base (setup_request P scenario tokens) of
        Inl e \<Rightarrow> Inl (PControl e)
      | Inr resp \<Rightarrow> (case open_ws out (cs_ws_url resp) of
          Inl e \<Rightarrow> Inl e
        | Inr _ \<Rightarrow> (case fst (run_steps P (substitutions_new tokens (bundle_hashes_of P scenario)) 0
                (steps_with_io out scenario) []) of
            Inl e \<Rightarrow> Inl e
          | Inr _ \<Rightarrow> map_sum PControl id (control_reset (pi_reset_post out) base))))"

section \<open>What a passing step has shown\<close>

lemma expect_state_ok:
  "expect_state io verb idx expected state = Inr () \<longleftrightarrow> (\<forall>kv \<in> set expected. \<exists>w. bt_get state (fst kv) = Some w \<and> same_value w (snd kv))"
  by (induction expected) (auto simp: json_eq_same_value split: option.splits if_splits)

text \<open>The pair a \<open>server-emits\<close> step has the server emit for a patch of its frame.\<close>

definition emitted_as :: "Substitutions \<Rightarrow> json \<Rightarrow> string \<times> json \<Rightarrow> bool" where
  "emitted_as subs p pair \<longleftrightarrow> jget p ''path'' = Some (JString (fst pair))
     \<and> (\<exists>v. jget p ''value'' = Some v \<and> snd pair = subst_apply subs v)"

lemma emit_pairs_ok: "emit_pairs subs idx raw = Inr pairs \<Longrightarrow> list_all2 (emitted_as subs) raw pairs"
  by (induction raw arbitrary: pairs)
    (auto simp: emitted_as_def as_str_def split: option.splits sum.splits json.splits Option.bind_splits)

text \<open>The meaning of a step, given what the outside yielded and the shadow state before it.\<close>

fun step_holds :: "platform \<Rightarrow> Substitutions \<Rightarrow> Step \<Rightarrow> StepIO \<Rightarrow> json bt \<Rightarrow> bool" where
  "step_holds P subs (ClientSends frame) io shadow \<longleftrightarrow> io_send io (to_vec P (subst_apply subs frame)) = Inr ()"
| "step_holds P subs (ServerSends frame) io shadow \<longleftrightarrow>
     (\<exists>t v. io_timed io = Some (Some (Inr (PmText t))) \<and> from_slice P t = Inr v \<and> matches (subst_apply subs frame) v)"
| "step_holds P subs (ExpectRuntimeState state) io shadow \<longleftrightarrow>
     (\<forall>kv \<in> set (subst_apply_to_map subs state). \<exists>w. bt_get shadow (fst kv) = Some w \<and> same_value w (snd kv))"
| "step_holds P subs (ExpectServerState state) io shadow \<longleftrightarrow>
     (\<exists>resp. io_state io = Inr resp
       \<and> (\<forall>kv \<in> set (subst_apply_to_map subs state).
           \<exists>w. bt_get (ct_state resp) (fst kv) = Some w \<and> same_value w (snd kv)))"
| "step_holds P subs (ExpectNoFrameFor d) io shadow \<longleftrightarrow>
     (case io_timed io of Some (Some (Inr (PmClose (Some (c, _))))) \<Rightarrow> c \<in> {1000, 1001, 1005}
      | Some (Some (Inr (PmClose None))) \<Rightarrow> True | Some (Some _) \<Rightarrow> False | _ \<Rightarrow> True)"
| "step_holds P subs (ExpectClientAction a) io shadow \<longleftrightarrow> ca_action a = ''reconnect'' \<or>
     ca_action a = ''close-with-reason'' \<and> (\<exists>c got. io_next io = Some (Inr (PmClose (Some (c, got))))
       \<and> (wanted_reason subs a = ''$ANY'' \<or> contains_str (wanted_reason subs a) got))"
| "step_holds P subs (ServerEmits frame) io shadow \<longleftrightarrow>
     (\<exists>raw pairs t v. jget frame ''patches'' = Some (JArray raw) \<and> list_all2 (emitted_as subs) raw pairs
       \<and> io_emit io pairs = Inr () \<and> io_timed io = Some (Some (Inr (PmText t))) \<and> from_slice P t = Inr v
       \<and> matches (subst_apply subs frame) v)"
| "step_holds P subs (Unsupported kind body) io shadow \<longleftrightarrow> False"

lemma match_ok: "structural_match P e a = Inr u \<longleftrightarrow> matches e a"
  using structural_match_matches(1) [of P e a] by (auto simp: is_ok_iff)

lemma read_text_frame_ok:
  "read_text_frame P io idx = Inr v \<longleftrightarrow> (\<exists>t. io_timed io = Some (Some (Inr (PmText t))) \<and> from_slice P t = Inr v)"
  by (simp add: read_text_frame_def split: option.splits sum.splits PlayerMsg.splits)

lemma step_server_emits_ok:
  assumes "step_server_emits P io idx subs frame shadow = (Inr u, shadow')"
  shows "\<exists>raw pairs v. jget frame ''patches'' = Some (JArray raw) \<and> list_all2 (emitted_as subs) raw pairs
    \<and> io_emit io pairs = Inr () \<and> read_text_frame P io idx = Inr v \<and> matches (subst_apply subs frame) v"
proof -
  obtain raw where raw: "Option.bind (jget frame ''patches'') as_array = Some raw"
    using assms by (auto simp: step_server_emits_def Let_def split: if_splits option.splits)
  obtain pairs where pairs: "emit_pairs subs idx raw = Inr pairs"
    using assms raw by (auto simp: step_server_emits_def Let_def split: if_splits sum.splits)
  have "io_emit io pairs = Inr ()"
    using assms raw pairs by (cases "io_emit io pairs") (auto simp: step_server_emits_def Let_def split: if_splits)
  moreover obtain v where "read_text_frame P io idx = Inr v" "structural_match P (subst_apply subs frame) v = Inr ()"
    using assms raw pairs calculation
    by (auto simp: step_server_emits_def Let_def split: if_splits sum.splits)
  moreover have "jget frame ''patches'' = Some (JArray raw)" using raw by (auto split: Option.bind_splits)
  ultimately show ?thesis using emit_pairs_ok [OF pairs] by (auto simp: match_ok)
qed

lemma player_step_holds:
  assumes "player_step P io idx step subs shadow = (Inr u, shadow')"
  shows "step_holds P subs step io shadow"
proof (cases step)
  case (ServerEmits frame)
  then show ?thesis
    using step_server_emits_ok [of P io idx subs frame shadow u shadow'] assms
    by (auto simp: player_step_def read_text_frame_ok)
next
  case (ClientSends frame)
  with assms show ?thesis
    by (cases "io_send io (to_vec P (subst_apply subs frame))") (auto simp: player_step_def step_client_sends_def)
next
  case (ExpectNoFrameFor d)
  with assms show ?thesis
    by (auto simp: player_step_def step_no_frame_def Let_def split: option.splits sum.splits PlayerMsg.splits if_splits)
next
  case (ExpectClientAction a)
  with assms show ?thesis
    by (auto simp: player_step_def step_client_action_def Let_def
        split: option.splits sum.splits PlayerMsg.splits if_splits)
qed (use assms in \<open>auto simp: player_step_def step_server_sends_def Let_def match_ok read_text_frame_ok
    expect_state_ok split: sum.splits\<close>)

text \<open>The shadow state before each step.\<close>

fun shadows :: "platform \<Rightarrow> Substitutions \<Rightarrow> nat \<Rightarrow> (Step \<times> StepIO) list \<Rightarrow> json bt \<Rightarrow> json bt list" where
  "shadows P subs idx [] shadow = []"
| "shadows P subs idx ((step, io) # steps) shadow =
     shadow # shadows P subs (Suc idx) steps (snd (player_step P io idx step subs shadow))"

section \<open>The two ends of the control plane\<close>

lemma foldl_append_concat: "foldl (\<lambda>s x. s @ f x) p xs = p @ concat (map f xs)"
  by (induction xs arbitrary: p) simp_all

lemma hash_inline_bundle_prefix: "starts_with ''sha256:'' (hash_inline_bundle P v)"
  by (simp add: hash_inline_bundle_def Let_def foldl_append_concat starts_with_def)

lemma de_entries_strings: "de_entries de_str (map (\<lambda>(k, v). (k, JString v)) kvs) = Some kvs"
  by (induction kvs) (auto simp: de_str_def)

lemma de_entries_values: "de_entries Some kvs = Some kvs"
  by (induction kvs) auto

text \<open>The request the server's handler sees for the one the client sends.\<close>

definition server_view :: "CtlSetupRequest \<Rightarrow> SetupRequest" where
  "server_view r = \<lparr>str_scenario = Some (csr_scenario r), str_tokens = csr_tokens r,
     str_bundles = map (\<lambda>b. \<lparr>stb_id = csb_id b, stb_hash = csb_hash b, stb_inline = csb_inline b\<rparr>) (csr_bundles r),
     str_initial_state = csr_initial_state r\<rparr>"

lemma de_ser_ctl_bundle:
  "csb_inline b \<noteq> Some JNull \<Longrightarrow>
    de_setup_bundle P (ser_ctl_bundle b) = Some \<lparr>stb_id = csb_id b, stb_hash = csb_hash b, stb_inline = csb_inline b\<rparr>"
  by (cases "csb_inline b")
    (simp_all add: de_setup_bundle_def ser_ctl_bundle_def serde_simps de_req_def de_opt_def de_option_def de_str_def
      del: insert_all_Cons)

lemma de_vec_ctl_bundles:
  assumes "list_all (\<lambda>b. csb_inline b \<noteq> Some JNull) bs"
  shows "de_vec (de_setup_bundle P) (JArray (map ser_ctl_bundle bs)) =
    Some (map (\<lambda>b. \<lparr>stb_id = csb_id b, stb_hash = csb_hash b, stb_inline = csb_inline b\<rparr>) bs)"
  using assms by (induction bs) (simp_all add: de_vec_def de_ser_ctl_bundle)

lemma de_ser_emit_patches:
  "de_vec (de_emit_patch P) (JArray (map (\<lambda>(path, v). obj [(''path'', JString path), (''value'', v)]) patches))
    = Some (map (\<lambda>(path, v). \<lparr>ep_path = path, ep_value = v\<rparr>) patches)"
  by (induction patches)
    (auto simp: de_vec_def de_emit_patch_def serde_simps de_req_def de_str_def simp del: insert_all_Cons)

section \<open>Properties\<close>

lemma map_sum_eq_Inr: "map_sum f g x = Inr y \<longleftrightarrow> (\<exists>z. x = Inr z \<and> y = g z)"
  by (cases x) auto

lemma run_steps_holds:
  assumes "run_steps P subs idx steps shadow = (Inr u, shadow')"
  shows "list_all2 (\<lambda>(step, io) sh. step_holds P subs step io sh) steps (shadows P subs idx steps shadow)"
  using assms
proof (induction steps arbitrary: idx shadow)
  case (Cons s steps)
  obtain step io where s: "s = (step, io)" by fastforce
  obtain sh where sh: "player_step P io idx step subs shadow = (Inr (), sh)"
    "run_steps P subs (Suc idx) steps sh = (Inr u, shadow')"
    using Cons.prems by (auto simp: s split: prod.splits sum.splits)
  then show ?case using Cons.IH [OF sh(2)] player_step_holds [OF sh(1)] by (simp add: s)
qed simp

text \<open>
  C31. A passing scenario means something: the server accepted the setup request with a 2xx answer,
  the socket opened with the protocol's handshake, every step's assertion held, in order, against
  what the server sent and the shadow state at that point (no unsupported step is passed over), and
  the closing reset was accepted.
\<close>
theorem passing_run_sound:
  assumes "run_scenario P out base scenario tokens = Inr u"
  defines "subs \<equiv> substitutions_new tokens (bundle_hashes_of P scenario)"
  shows "(\<exists>status body. pi_post out (base @ ''/test/setup'') (ser_ctl_setup (setup_request P scenario tokens)) =
      Inr (status, body) \<and> http_success status)
    \<and> (\<exists>url headers. pi_connect out url headers = Inr ()
        \<and> (''Sec-WebSocket-Protocol'', WEBSOCKET_SUBPROTOCOL) \<in> set headers)
    \<and> list_all2 (\<lambda>(step, io) sh. step_holds P subs step io sh) (steps_with_io out scenario)
        (shadows P subs 0 (steps_with_io out scenario) [])
    \<and> (\<exists>status body. pi_reset_post out (base @ ''/test/reset'') = Inr (status, body) \<and> http_success status)"
proof -
  obtain resp where su: "control_setup P (pi_post out) base (setup_request P scenario tokens) = Inr resp"
    and opened: "open_ws out (cs_ws_url resp) = Inr ()"
    and steps: "fst (run_steps P subs 0 (steps_with_io out scenario) []) = Inr ()"
    and reset: "control_reset (pi_reset_post out) base = Inr ()"
    using assms(1) by (auto simp: run_scenario_def subs_def map_sum_eq_Inr split: sum.splits)
  show ?thesis
  proof (intro conjI)
    show "\<exists>status body. pi_post out (base @ ''/test/setup'') (ser_ctl_setup (setup_request P scenario tokens)) =
        Inr (status, body) \<and> http_success status"
      using su by (auto simp: control_setup_def control_read_def split: sum.splits if_splits)
    show "\<exists>url headers. pi_connect out url headers = Inr ()
        \<and> (''Sec-WebSocket-Protocol'', WEBSOCKET_SUBPROTOCOL) \<in> set headers"
      using opened by (fastforce simp: open_ws_def player_build_request_def map_sum_eq_Inr Let_def split: sum.splits)
    show "list_all2 (\<lambda>(step, io) sh. step_holds P subs step io sh) (steps_with_io out scenario)
        (shadows P subs 0 (steps_with_io out scenario) [])"
      using run_steps_holds [of P subs 0 "steps_with_io out scenario" "[]"] steps by (metis prod.collapse)
    show "\<exists>status body. pi_reset_post out (base @ ''/test/reset'') = Inr (status, body) \<and> http_success status"
      using reset by (auto simp: control_reset_def control_check_def split: sum.splits if_splits)
  qed
qed

definition sample_io :: StepIO where
  "sample_io = \<lparr>io_send = \<lambda>_. Inr (), io_timed = None, io_next = None, io_state = Inl (CHttp []),
     io_emit = \<lambda>_. Inr (), io_debug_value = \<lambda>_. [], io_debug_msg = \<lambda>_. []\<rparr>"

definition sample_scenario :: Scenario where
  "sample_scenario = \<lparr>sn_name = ''demo'', sn_description = None, sn_tag = Required, sn_target = TargetAny,
     sn_bundles = [\<lparr>ib_id = ''t'', ib_inline = JObject []\<rparr>], sn_initial_state = [], sn_steps = []\<rparr>"

definition sample_answer :: json where
  "sample_answer = ser_setup_response ''ws://h/lsdp.v1'' ''t'' ''sha256:0''"

lemma sample_setup_answer:
  "from_slice_typed sample_platform T (to_vec sample_platform sample_answer) = Inr sample_answer"
  "de_ctl_setup_response P sample_answer =
    Some \<lparr>cs_ws_url = ''ws://h/lsdp.v1'', cs_scene_id = ''t'', cs_scene_version = ''sha256:0''\<rparr>"
proof -
  have "wire_safe sample_answer" by code_simp
  then show "from_slice_typed sample_platform T (to_vec sample_platform sample_answer) = Inr sample_answer"
    using sample_json_text_ok by (simp add: json_text_ok_def)
qed (simp add: sample_answer_def ser_setup_response_def de_ctl_setup_response_def serde_simps de_req_def de_str_def
    del: insert_all_Cons)

definition sample_play :: PlayIO where
  "sample_play = \<lparr>pi_post = \<lambda>_ _. Inr (200, Inr (to_vec sample_platform sample_answer)),
     pi_reset_post = \<lambda>_. Inr (204, Inr []), pi_parse_uri = \<lambda>_. Inr (Some ''h'', None), pi_key = ''k'',
     pi_connect = \<lambda>_ _. Inr (), pi_steps = \<lambda>_. sample_io\<rparr>"

theorem passing_run_sound_witness:
  "let scenario = sample_scenario\<lparr>sn_steps := [ExpectNoFrameFor 250]\<rparr> in
   run_scenario sample_platform sample_play ''http'' scenario [] = Inr ()
   \<and> step_holds sample_platform (substitutions_new [] (bundle_hashes_of sample_platform scenario))
       (ExpectNoFrameFor 250) sample_io []"
proof -
  let ?s = "sample_scenario\<lparr>sn_steps := [ExpectNoFrameFor 250]\<rparr>"
  have run: "run_scenario sample_platform sample_play ''http'' ?s [] = Inr ()"
    by (simp add: run_scenario_def control_setup_def control_read_def sample_play_def http_success_def
        bindE_def sample_setup_answer open_ws_def player_build_request_def steps_with_io_def
        player_step_def step_no_frame_def sample_io_def control_reset_def control_check_def)
  with passing_run_sound [OF run] show ?thesis
    by (simp add: steps_with_io_def sample_play_def)
qed

lemma control_requests_read:
  assumes "bt_wf (csr_tokens r)" "bt_wf (csr_initial_state r)"
    "list_all (\<lambda>b. csb_inline b \<noteq> Some JNull) (csr_bundles r)"
  shows "de_setup_request P (ser_ctl_setup r) = Some (server_view r)
    \<and> de_emit_request P (ser_ctl_emit patches) = Some (map (\<lambda>(path, v). \<lparr>ep_path = path, ep_value = v\<rparr>) patches)"
  using assms de_vec_ctl_bundles [of "csr_bundles r" P]
  by (simp add: de_setup_request_def ser_ctl_setup_def serde_simps de_req_def de_opt_def de_option_def de_str_def
      deser_btreemap_or_null_def deser_vec_or_null_def de_entries_strings de_entries_values bt_of_wf_id
      server_view_def de_emit_request_def ser_ctl_emit_def de_ser_emit_patches del: insert_all_Cons)

text \<open>
  The conformance client and the server agree on the control plane's requests: what the client
  writes for a setup or an emit, the server's readers give back field by field.
\<close>
theorem control_requests_roundtrip:
  assumes "bt_wf (csr_tokens r)" "bt_wf (csr_initial_state r)"
    "list_all (\<lambda>b. csb_inline b \<noteq> Some JNull) (csr_bundles r)"
  shows "de_setup_request P (ser_ctl_setup r) = Some (server_view r)
    \<and> de_emit_request P (ser_ctl_emit patches) = Some (map (\<lambda>(path, v). \<lparr>ep_path = path, ep_value = v\<rparr>) patches)"
  using assms by (rule control_requests_read)

definition sample_request :: CtlSetupRequest where
  "sample_request = \<lparr>csr_scenario = ''s'', csr_tokens = [(''$TOKEN_OPERATOR'', ''op'')],
     csr_bundles = [\<lparr>csb_id = ''t'', csb_hash = ''sha256:0'', csb_inline = None\<rparr>],
     csr_initial_state = [(''count'', jnat 0)]\<rparr>"

theorem control_requests_roundtrip_witness:
  "de_setup_request sample_platform (ser_ctl_setup sample_request) = Some (server_view sample_request)"
  using control_requests_roundtrip [of sample_request sample_platform]
  by (simp add: sample_request_def bt_wf_def)

text \<open>
  A scenario that declares bundles is always set up: the request the player builds for it passes
  the server's checks as long as the first bundle has an id, whatever the bundles contain.
\<close>
theorem player_setup_accepted:
  assumes "sn_bundles scenario = b # bs" "csb_id (setup_bundle_of hashes b) \<noteq> []"
  shows "setup_accepted (server_view (setup_request P scenario tokens))"
proof -
  let ?hs = "bundle_hashes_of P scenario"
  have "bt_get ?hs (ib_id b) \<noteq> None"
    using assms(1) by (simp add: bundle_hashes_of_def get_insert_all map_of_eq_None_iff)
  then obtain h where h: "bt_get ?hs (ib_id b) = Some h" by blast
  then have "starts_with ''sha256:'' h"
    by (auto simp: bundle_hashes_of_def get_insert_all hash_inline_bundle_prefix dest!: map_of_SomeD)
  with h show ?thesis
    using assms
    by (simp add: setup_accepted_def server_view_def setup_request_def build_setup_bundles_def setup_bundle_of_def)
qed

theorem player_setup_accepted_witness:
  "setup_accepted (server_view (setup_request sample_platform sample_scenario []))"
  by (rule player_setup_accepted [of _ "\<lparr>ib_id = ''t'', ib_inline = JObject []\<rparr>" "[]" "[]"])
    (simp_all add: sample_scenario_def setup_bundle_of_def jget_def)

end
