(* ===== verification/Control_Wire.thy ===== *)
theory Control_Wire
  imports Player
begin

text \<open>
  The HTTP surface: which handler each listener's router gives a request to (\<open>server.rs\<close>,
  \<open>test_control.rs\<close>), and the conformance crate's control client (\<open>control.rs\<close>) talking to the
  server's control plane through it. Refusals of axum itself (no such route, a body its JSON
  extractor does not accept) are one answer given as an argument.
\<close>

section \<open>Routers\<close>

datatype Method = GET | POST

datatype ServerRoute = ToWs | ToBundle string string | NoServerRoute

text \<open>\<open>decode\<close> is the percent-decoding of a captured segment.\<close>

definition build_router :: "(string \<Rightarrow> string) \<Rightarrow> Method \<Rightarrow> string \<Rightarrow> ServerRoute" where
  "build_router decode m path =
     (if m \<noteq> GET then NoServerRoute
      else if path = ''/ws'' then ToWs
      else if path = ''/lsdp.v1'' then ToWs
      else (case split_on CHR ''/'' path of
          [root, scenes, scene_id, version_hex] \<Rightarrow>
            (if root = [] \<and> scenes = ''scenes'' \<and> scene_id \<noteq> [] \<and> version_hex \<noteq> []
             then ToBundle (decode scene_id) (decode version_hex) else NoServerRoute)
        | _ \<Rightarrow> NoServerRoute))"

datatype ControlRoute = ToSetup | ToReset | ToState | ToEmit | ToHealth | NoControlRoute

definition control_router :: "Method \<Rightarrow> string \<Rightarrow> ControlRoute" where
  "control_router m path =
     (if m = POST \<and> path = ''/test/setup'' then ToSetup
      else if m = POST \<and> path = ''/test/reset'' then ToReset
      else if m = GET \<and> path = ''/test/state'' then ToState
      else if m = POST \<and> path = ''/test/emit'' then ToEmit
      else if m = GET \<and> path = ''/test/health'' then ToHealth
      else NoControlRoute)"

text \<open>The \<open>Json\<close> extractor: the body as text, then the typed reader.\<close>

definition extract_json :: "platform \<Rightarrow> string \<Rightarrow> (json \<Rightarrow> 'a option) \<Rightarrow> string \<Rightarrow> 'a option" where
  "extract_json P T de body = (case from_slice_typed P T body of Inl _ \<Rightarrow> None | Inr v \<Rightarrow> de v)"

definition serve_control :: "platform \<Rightarrow> HttpResponse \<Rightarrow> Method \<Rightarrow> string \<Rightarrow> string \<Rightarrow> TestControlState
    \<Rightarrow> HttpResponse \<times> TestControlState" where
  "serve_control P refusal m path body st = (case control_router m path of
      ToSetup \<Rightarrow> (case extract_json P ''SetupRequest'' (de_setup_request P) body of
          None \<Rightarrow> (refusal, st)
        | Some req \<Rightarrow> handle_setup P req st)
    | ToReset \<Rightarrow> handle_reset st
    | ToState \<Rightarrow> (handle_state st, st)
    | ToEmit \<Rightarrow> (case extract_json P ''EmitRequest'' (de_emit_request P) body of
          None \<Rightarrow> (refusal, st)
        | Some patches \<Rightarrow> handle_emit patches st)
    | ToHealth \<Rightarrow> (handle_health, st)
    | NoControlRoute \<Rightarrow> (refusal, st))"

section \<open>The client on the wire\<close>

definition http_reply :: "platform \<Rightarrow> HttpResponse \<Rightarrow> http_result" where
  "http_reply P r = Inr (res_status r, Inr (case res_body r of None \<Rightarrow> [] | Some v \<Rightarrow> to_vec P v))"

text \<open>A request to a URL below \<open>base\<close>, answered by the control plane in the state \<open>st\<close>.\<close>

definition wire :: "platform \<Rightarrow> HttpResponse \<Rightarrow> string \<Rightarrow> TestControlState \<Rightarrow> Method \<Rightarrow> string \<Rightarrow> string \<Rightarrow> http_result" where
  "wire P refusal base st m url body = (case strip_prefix base url of
      None \<Rightarrow> Inl ''connection refused''
    | Some path \<Rightarrow> http_reply P (fst (serve_control P refusal m path body st)))"

text \<open>The calls of the client, with what they leave of the server.\<close>

definition call_setup :: "platform \<Rightarrow> HttpResponse \<Rightarrow> string \<Rightarrow> CtlSetupRequest \<Rightarrow> TestControlState
    \<Rightarrow> (ControlError + CtlSetupResponse) \<times> TestControlState" where
  "call_setup P refusal base req st =
     (control_setup P (\<lambda>url v. wire P refusal base st POST url (to_vec P v)) base req,
      snd (serve_control P refusal POST ''/test/setup'' (to_vec P (ser_ctl_setup req)) st))"

definition call_emit :: "platform \<Rightarrow> HttpResponse \<Rightarrow> string \<Rightarrow> (string \<times> json) list \<Rightarrow> TestControlState
    \<Rightarrow> (ControlError + unit) \<times> TestControlState" where
  "call_emit P refusal base patches st =
     (control_emit (\<lambda>url v. wire P refusal base st POST url (to_vec P v)) base patches,
      snd (serve_control P refusal POST ''/test/emit'' (to_vec P (ser_ctl_emit patches)) st))"

definition call_reset :: "platform \<Rightarrow> HttpResponse \<Rightarrow> string \<Rightarrow> TestControlState \<Rightarrow> (ControlError + unit) \<times> TestControlState" where
  "call_reset P refusal base st =
     (control_reset (\<lambda>url. wire P refusal base st POST url []) base,
      snd (serve_control P refusal POST ''/test/reset'' [] st))"

definition call_state :: "platform \<Rightarrow> HttpResponse \<Rightarrow> string \<Rightarrow> TestControlState \<Rightarrow> ControlError + CtlStateResponse" where
  "call_state P refusal base st = control_state P (\<lambda>url. wire P refusal base st GET url []) base"

definition call_health :: "platform \<Rightarrow> HttpResponse \<Rightarrow> string \<Rightarrow> TestControlState \<Rightarrow> ControlError + CtlHealthResponse" where
  "call_health P refusal base st = control_health P (\<lambda>url. wire P refusal base st GET url []) base"

section \<open>What the calls do\<close>

text \<open>A body that is a printed value is read as that value.\<close>

lemma extract_printed:
  "json_text_ok P \<Longrightarrow> wire_safe v \<Longrightarrow> extract_json P T de (to_vec P v) = de v"
  by (simp add: extract_json_def json_text_ok_def)

lemma read_reply:
  assumes "json_text_ok P" "wire_safe v"
  shows "control_read P T de (http_reply P (json_response 200 v)) =
    (case de v of None \<Rightarrow> Inl (CHttp (de_error P T v)) | Some x \<Rightarrow> Inr x)"
  using assms by (simp add: control_read_def http_reply_def json_response_def http_success_def bindE_def json_text_ok_def)

lemma check_reply: "control_check (http_reply P no_content) = Inr ()"
  by (simp add: control_check_def http_reply_def no_content_def http_success_def)

text \<open>What a setup request must be for its text to reach the server as it was meant.\<close>

definition sendable :: "CtlSetupRequest \<Rightarrow> bool" where
  "sendable r \<longleftrightarrow> wire_safe (ser_ctl_setup r) \<and> bt_wf (csr_tokens r) \<and> bt_wf (csr_initial_state r)
     \<and> list_all (\<lambda>b. csb_inline b \<noteq> Some JNull) (csr_bundles r)"

lemma call_setup_serves:
  assumes "json_text_ok P" "sendable r"
  shows "serve_control P refusal POST ''/test/setup'' (to_vec P (ser_ctl_setup r)) st = handle_setup P (server_view r) st"
  using assms control_requests_read [of r P]
  by (simp add: serve_control_def control_router_def extract_printed sendable_def)

lemma call_emit_serves:
  assumes "json_text_ok P" "wire_safe (ser_ctl_emit patches)"
  shows "serve_control P refusal POST ''/test/emit'' (to_vec P (ser_ctl_emit patches)) st =
    handle_emit (map (\<lambda>(path, v). \<lparr>ep_path = path, ep_value = v\<rparr>) patches) st"
proof -
  let ?r = "\<lparr>csr_scenario = [], csr_tokens = [], csr_bundles = [], csr_initial_state = []\<rparr>"
  have "de_emit_request P (ser_ctl_emit patches) = Some (map (\<lambda>(path, v). \<lparr>ep_path = path, ep_value = v\<rparr>) patches)"
    using control_requests_read [of ?r P patches] by simp
  then show ?thesis
    using assms by (simp add: serve_control_def control_router_def extract_printed)
qed

lemma call_state_reads:
  assumes "json_text_ok P" "srv_active (tc_server st) = Some i" "server_scene i (tc_server st) = Some r"
    "sc_id (scene_at (tc_server st) r) = sid" "sc_version (scene_at (tc_server st) r) = v"
    "scene_state (scene_at (tc_server st) r) = state" "wire_safe (ser_state_response sid v state)"
  shows "call_state P refusal base st = Inr \<lparr>ct_scene_id = sid, ct_scene_version = v, ct_state = state\<rparr>"
proof -
  have "handle_state st = json_response 200 (ser_state_response sid v state)"
    using assms by (simp add: handle_state_def Let_def)
  moreover have "de_ctl_state_response P (ser_state_response sid v state) =
      Some \<lparr>ct_scene_id = sid, ct_scene_version = v, ct_state = state\<rparr>"
    by (simp add: de_ctl_state_response_def ser_state_response_def serde_simps de_req_def de_str_def del: insert_all_Cons)
  ultimately show ?thesis
    using assms(1,7) by (simp add: call_state_def control_state_def wire_def serve_control_def control_router_def read_reply)
qed

lemma call_setup_reads:
  assumes "json_text_ok P" "sendable r" "csr_bundles r = b # bs" "setup_accepted (server_view r)"
    "effective_id \<lparr>stb_id = csb_id b, stb_hash = csb_hash b, stb_inline = csb_inline b\<rparr> = sid"
    "wire_safe (ser_setup_response (tc_ws_url st) sid (csb_hash b))"
  shows "fst (call_setup P refusal base r st) =
    Inr \<lparr>cs_ws_url = tc_ws_url st, cs_scene_id = sid, cs_scene_version = csb_hash b\<rparr>"
proof -
  let ?b = "\<lparr>stb_id = csb_id b, stb_hash = csb_hash b, stb_inline = csb_inline b\<rparr>"
  have bundles: "str_bundles (server_view r) = ?b # map (\<lambda>b. \<lparr>stb_id = csb_id b, stb_hash = csb_hash b, stb_inline = csb_inline b\<rparr>) bs"
    by (simp add: server_view_def assms(3))
  have "fst (handle_setup P (server_view r) st) = json_response 200 (ser_setup_response (tc_ws_url st) sid (csb_hash b))"
    using assms(4,5) new_after_clear [of sid "csb_hash b" "tc_server st"]
    by (auto simp: handle_setup_def bundles setup_accepted_def Let_def)
  moreover have "de_ctl_setup_response P (ser_setup_response (tc_ws_url st) sid (csb_hash b)) =
      Some \<lparr>cs_ws_url = tc_ws_url st, cs_scene_id = sid, cs_scene_version = csb_hash b\<rparr>"
    by (simp add: de_ctl_setup_response_def ser_setup_response_def serde_simps de_req_def de_str_def del: insert_all_Cons)
  ultimately show ?thesis
    using assms(1,6) by (simp add: call_setup_def control_setup_def wire_def call_setup_serves [OF assms(1,2)] read_reply)
qed

lemma setup_scene_at:
  assumes "setup_accepted req" "str_bundles req = bd # rest"
  shows "\<exists>r. srv_active (tc_server (snd (handle_setup P req st))) = Some (effective_id bd)
    \<and> server_scene (effective_id bd) (tc_server (snd (handle_setup P req st))) = Some r
    \<and> scene_at (tc_server (snd (handle_setup P req st))) r =
        prepare_scene P req bd (scene_new (effective_id bd) (stb_hash bd))
    \<and> r < length (srv_heap (tc_server (snd (handle_setup P req st))))"
proof -
  let ?n = "length (srv_heap (tc_server st))"
  obtain srv' where "new_scene_with_version (effective_id bd) (stb_hash bd) (clear_scenes (tc_server st)) = (Inr ?n, srv')"
    "server_scene (effective_id bd) srv' = Some ?n"
    "scene_at srv' ?n = scene_new (effective_id bd) (stb_hash bd)" "?n < length (srv_heap srv')"
    using new_after_clear [of "effective_id bd" "stb_hash bd" "tc_server st"] by blast
  with assms show ?thesis
    by (intro exI [of _ ?n])
      (auto simp: handle_setup_def setup_accepted_def Let_def set_active_scene_def update_scene_def server_scene_def)
qed

lemma prepare_scene_wf: "scene_wf (prepare_scene P req bd (scene_new i v))"
  using scene_wf_new [of i v]
  by (simp add: scene_wf_def prepare_scene_def Let_def scene_reject_def with_operator_inputs_def
      scene_seed_def scene_new_def split: option.splits sum.splits)

lemma handle_emit_active:
  assumes "srv_active (tc_server st) = Some i" "server_scene i (tc_server st) = Some r" "r < length (srv_heap (tc_server st))"
    "scene_wf (scene_at (tc_server st) r)" "legal_updates patches"
  shows "\<exists>scene'. handle_emit (map (\<lambda>(path, v). \<lparr>ep_path = path, ep_value = v\<rparr>) patches) st =
      (no_content, st\<lparr>tc_server := update_scene r scene' (tc_server st)\<rparr>)
    \<and> sc_id scene' = sc_id (scene_at (tc_server st) r) \<and> sc_version scene' = sc_version (scene_at (tc_server st) r)
    \<and> scene_state scene' = bt_insert_all patches (scene_state (scene_at (tc_server st) r))"
proof -
  let ?s = "scene_at (tc_server st) r"
  have pairs: "map (\<lambda>p. (ep_path p, ep_value p)) (map (\<lambda>(path, v). \<lparr>ep_path = path, ep_value = v\<rparr>) patches) = patches"
    by (induction patches) auto
  have "parse_patches patches = Inr (map (\<lambda>(path, v). patch_new path v) patches)"
    using assms(5) by (simp add: parse_patches_Inr)
  then obtain s' where s': "scene_emit patches ?s = (Inr (), s')" "sc_id s' = sc_id ?s" "sc_version s' = sc_version ?s"
      "patches = [] \<Longrightarrow> s' = ?s"
    by (cases patches) (auto simp: scene_emit_def emit_eq commit_def)
  moreover have "handle_emit (map (\<lambda>(path, v). \<lparr>ep_path = path, ep_value = v\<rparr>) patches) st =
      (no_content, st\<lparr>tc_server := update_scene r s' (tc_server st)\<rparr>)"
  proof (cases "patches = []")
    case True
    with assms(1,2) s'(4) show ?thesis by (simp add: handle_emit_def update_scene_def)
  next
    case False
    with assms(1,2) show ?thesis by (simp add: handle_emit_def pairs [simplified] s'(1) Let_def)
  qed
  moreover have "scene_state s' = bt_insert_all patches (scene_state ?s)"
    using emit_state [OF assms(4,5), of None] s'(1) by (simp add: scene_emit_def)
  ultimately show ?thesis by blast
qed

section \<open>Properties\<close>

text \<open>
  C32. A session over the control plane, from the conformance client's calls through HTTP to the scene
  and back. A setup that passes the server's checks is answered with the scene's id and hash; a state
  query then reads exactly the initial state; an emission of legal patches succeeds and the next query
  reads the state with them applied; after a reset a query is refused with 409.
\<close>
theorem control_session:
  assumes "json_text_ok P" "sendable r" "csr_bundles r = b # bs" "setup_accepted (server_view r)" "csr_initial_state r \<noteq> []"
    and sid: "effective_id \<lparr>stb_id = csb_id b, stb_hash = csb_hash b, stb_inline = csb_inline b\<rparr> = sid"
    and safe: "wire_safe (ser_setup_response (tc_ws_url st) sid (csb_hash b))" "wire_safe (ser_ctl_emit patches)"
      "wire_safe (ser_state_response sid (csb_hash b) (csr_initial_state r))"
      "wire_safe (ser_state_response sid (csb_hash b) (bt_insert_all patches (csr_initial_state r)))"
    and legal: "legal_updates patches"
  shows "let (answer, st1) = call_setup P refusal base r st;
      (emitted, st2) = call_emit P refusal base patches st1;
      (cleared, st3) = call_reset P refusal base st2 in
    answer = Inr \<lparr>cs_ws_url = tc_ws_url st, cs_scene_id = sid, cs_scene_version = csb_hash b\<rparr>
    \<and> call_state P refusal base st1 =
        Inr \<lparr>ct_scene_id = sid, ct_scene_version = csb_hash b, ct_state = csr_initial_state r\<rparr>
    \<and> emitted = Inr ()
    \<and> call_state P refusal base st2 =
        Inr \<lparr>ct_scene_id = sid, ct_scene_version = csb_hash b, ct_state = bt_insert_all patches (csr_initial_state r)\<rparr>
    \<and> cleared = Inr ()
    \<and> (\<exists>body. call_state P refusal base st3 = Inl (CStatus 409 body))"
proof -
  let ?b = "\<lparr>stb_id = csb_id b, stb_hash = csb_hash b, stb_inline = csb_inline b\<rparr>"
  define st1 where "st1 = snd (handle_setup P (server_view r) st)"
  have bundles: "str_bundles (server_view r) = ?b # map (\<lambda>b. \<lparr>stb_id = csb_id b, stb_hash = csb_hash b, stb_inline = csb_inline b\<rparr>) bs"
    and init: "str_initial_state (server_view r) = csr_initial_state r"
    by (simp_all add: server_view_def assms(3))
  obtain ref where active: "srv_active (tc_server st1) = Some sid" "server_scene sid (tc_server st1) = Some ref"
    and scene: "scene_at (tc_server st1) ref = prepare_scene P (server_view r) ?b (scene_new sid (csb_hash b))"
    and bound: "ref < length (srv_heap (tc_server st1))"
    using setup_scene_at [OF assms(4) bundles, of P st] unfolding st1_def by (auto simp: sid)
  let ?s = "scene_at (tc_server st1) ref"
  have s: "sc_id ?s = sid" "sc_version ?s = csb_hash b" "scene_state ?s = csr_initial_state r" "scene_wf ?s"
    using assms(2,5) prepared_state [of "server_view r"] prepare_scene_wf
    by (simp_all add: scene prepare_scene_fields init sendable_def scene_new_def prepared_state)
  obtain scene' where emit: "handle_emit (map (\<lambda>(path, v). \<lparr>ep_path = path, ep_value = v\<rparr>) patches) st1 =
        (no_content, st1\<lparr>tc_server := update_scene ref scene' (tc_server st1)\<rparr>)"
      "sc_id scene' = sid" "sc_version scene' = csb_hash b" "scene_state scene' = bt_insert_all patches (csr_initial_state r)"
    using handle_emit_active [OF active bound s(4) legal] s by auto
  let ?st2 = "st1\<lparr>tc_server := update_scene ref scene' (tc_server st1)\<rparr>"
  have "call_state P refusal base st1 = Inr \<lparr>ct_scene_id = sid, ct_scene_version = csb_hash b, ct_state = csr_initial_state r\<rparr>"
    by (rule call_state_reads [OF assms(1) active s(1-3) safe(3)])
  moreover have "call_state P refusal base ?st2 =
      Inr \<lparr>ct_scene_id = sid, ct_scene_version = csb_hash b, ct_state = bt_insert_all patches (csr_initial_state r)\<rparr>"
    by (rule call_state_reads [OF assms(1), where i = sid and r = ref])
      (use active bound emit safe(4) in \<open>simp_all add: update_scene_def server_scene_def\<close>)
  moreover have "snd (call_setup P refusal base r st) = st1"
    by (simp add: call_setup_def call_setup_serves [OF assms(1,2)] st1_def)
  moreover have "call_emit P refusal base patches st1 = (Inr (), ?st2)"
    by (simp add: call_emit_def control_emit_def wire_def call_emit_serves [OF assms(1) safe(2)] emit(1) check_reply)
  moreover have "fst (call_reset P refusal base ?st2) = Inr ()"
    by (simp add: call_reset_def control_reset_def wire_def serve_control_def control_router_def handle_reset_def check_reply)
  moreover have "\<exists>body. call_state P refusal base (snd (call_reset P refusal base ?st2)) = Inl (CStatus 409 body)"
    by (simp add: call_reset_def wire_def serve_control_def control_router_def handle_reset_def
        call_state_def control_state_def handle_state_def clear_scenes_def problem_def control_read_def http_reply_def http_success_def)
  ultimately show ?thesis
    using call_setup_reads [OF assms(1-4) sid safe(1)] by (auto simp: Let_def case_prod_beta)
qed

theorem control_session_witness:
  "let st = \<lparr>tc_server = server_init sample_config, tc_auth = [], tc_ws_url = ''w''\<rparr>;
      (answer, st1) = call_setup sample_platform no_content ''http://h'' sample_request st;
      (emitted, st2) = call_emit sample_platform no_content ''http://h'' [(''count'', JNull)] st1 in
    answer = Inr \<lparr>cs_ws_url = ''w'', cs_scene_id = ''t'', cs_scene_version = ''sha256:0''\<rparr>
    \<and> call_state sample_platform no_content ''http://h'' st2 =
        Inr \<lparr>ct_scene_id = ''t'', ct_scene_version = ''sha256:0'', ct_state = [(''count'', JNull)]\<rparr>"
proof -
  let ?st = "\<lparr>tc_server = server_init sample_config, tc_auth = [], tc_ws_url = ''w''\<rparr>"
  let ?b = "\<lparr>csb_id = ''t'', csb_hash = ''sha256:0'', csb_inline = None\<rparr>"
  have path: "valid_path ''count''"
  proof -
    have "is_ok (validate_path ''count'')" by code_simp
    then show ?thesis by (simp only: validate_path_ok)
  qed
  have "starts_with ''sha256:'' ''sha256:0''" by (simp add: starts_with_def)
  then have "setup_accepted (server_view sample_request)"
    by (simp add: setup_accepted_def server_view_def sample_request_def)
  moreover have "wire_safe (ser_ctl_setup sample_request)" "wire_safe (ser_setup_response ''w'' ''t'' ''sha256:0'')"
      "wire_safe (ser_ctl_emit [(''count'', JNull)])"
      "wire_safe (ser_state_response ''t'' ''sha256:0'' (csr_initial_state sample_request))"
      "wire_safe (ser_state_response ''t'' ''sha256:0'' [(''count'', JNull)])"
    by code_simp+
  moreover have "bt_insert_all [(''count'', JNull)] (csr_initial_state sample_request) = [(''count'', JNull)]"
    by (simp add: sample_request_def)
  ultimately show ?thesis
    using control_session [OF sample_json_text_ok, of sample_request ?b "[]" "''t''" ?st "[(''count'', JNull)]" no_content "''http://h''"] path
    by (simp add: Let_def case_prod_beta sendable_def effective_id_def sample_request_def bt_wf_def)
qed

text \<open>The address \<open>serve-scenario\<close> announces and the content address of a bundle are routed.\<close>

lemma announced_path_routed: "build_router decode GET ''/lsdp.v1'' = ToWs"
  by (simp add: build_router_def)

lemma bundle_url_routed:
  assumes "CHR ''/'' \<notin> set i" "i \<noteq> []" "CHR ''/'' \<notin> set h" "h \<noteq> []"
  shows "build_router decode GET (''/scenes/'' @ i @ ''/'' @ h) = ToBundle (decode i) (decode h)"
proof -
  have "''/scenes/'' @ i @ ''/'' @ h = [] @ CHR ''/'' # ''scenes'' @ CHR ''/'' # i @ CHR ''/'' # h" by simp
  then have "split_on CHR ''/'' (''/scenes/'' @ i @ ''/'' @ h) = [[], ''scenes'', i, h]"
    using assms(1,3) by (simp only: split_on_append) (simp add: split_on_no_sep)
  with assms(2,4) show ?thesis by (simp add: build_router_def)
qed

end
