(* ===== verification/Serving.thy ===== *)
theory Serving
  imports Control_Wire
begin

text \<open>
  The \<open>Server\<close> of \<open>server.rs\<close>, which owns the bound listener, and \<open>tls.rs\<close>. The registry and its operations
  are in \<open>Server\<close>; here are the calls that go through the handle, and the ways of serving. The listener,
  the HTTP stack and the TLS library are outside the repository and enter as a record of functions.
\<close>

section \<open>What the libraries provide\<close>

text \<open>An application is the router with its state.\<close>

record App =
  app_route :: "Method \<Rightarrow> string \<Rightarrow> ServerRoute"
  app_auth :: "string \<Rightarrow> AuthError + Identity"
  app_state :: Server

text \<open>
  \<open>ns_serve\<close> is \<open>axum::serve\<close>, with a shutdown signal if one is given, and \<open>ns_serve_tls\<close> is
  \<open>axum_server::from_tcp_rustls\<close> followed by \<open>serve\<close>. Serving yields no result while it goes on.
\<close>

record ('l, 'std, 'tls, 'sig) NetStack =
  ns_bind :: "string \<Rightarrow> string + 'l"
  ns_local_addr :: "'l \<Rightarrow> string + string"
  ns_into_std :: "'l \<Rightarrow> string + 'std"
  ns_set_nonblocking :: "bool \<Rightarrow> 'std \<Rightarrow> string + 'std"
  ns_serve :: "'sig option \<Rightarrow> 'l \<Rightarrow> App \<Rightarrow> (string + unit) option"
  ns_serve_tls :: "'tls \<Rightarrow> 'std \<Rightarrow> App \<Rightarrow> (string + unit) option"
  ns_pem_file :: "string \<Rightarrow> string \<Rightarrow> string + 'tls"
  ns_pem :: "u8 list \<Rightarrow> u8 list \<Rightarrow> string + 'tls"

text \<open>The conversion of an I/O error that \<open>?\<close> and \<open>map_err\<close> make.\<close>

abbreviation io_result :: "string + 'a \<Rightarrow> ServerError + 'a" where
  "io_result \<equiv> map_sum SEIo id"

section \<open>The bound server\<close>

record 'l BoundServer =
  bs_auth :: "string \<Rightarrow> AuthError + Identity"
  bs_inner :: Server
  bs_listener :: 'l

definition builder_auth_arc :: "(string \<Rightarrow> AuthError + Identity) \<Rightarrow> ServerBuilder \<Rightarrow> ServerBuilder" where
  "builder_auth_arc auth b = b\<lparr>sb_auth := Some auth\<rparr>"

definition bound_build :: "('l, 'std, 'tls, 'sig) NetStack \<Rightarrow> ServerBuilder \<Rightarrow> ServerError + 'l BoundServer" where
  "bound_build ns b = (case sb_addr b of
      None \<Rightarrow> Inl (SEBuilderMissing ''listen'')
    | Some addr \<Rightarrow> (case sb_auth b of
        None \<Rightarrow> Inl (SEBuilderMissing ''auth'')
      | Some auth \<Rightarrow> (case ns_bind ns addr of
          Inl e \<Rightarrow> Inl (SEIo e)
        | Inr listener \<Rightarrow> Inr \<lparr>bs_auth = auth,
            bs_inner = \<lparr>srv_heap = [], srv_scenes = [], srv_active = None, srv_events = [], srv_config = sb_config b\<rparr>,
            bs_listener = listener\<rparr>)))"

definition bound_local_addr :: "('l, 'std, 'tls, 'sig) NetStack \<Rightarrow> 'l BoundServer \<Rightarrow> string + string" where
  "bound_local_addr ns s = ns_local_addr ns (bs_listener s)"

text \<open>
  The handle shares the inner server, so a call through it acts on that one.
\<close>

definition on_handle :: "(Server \<Rightarrow> 'r \<times> Server) \<Rightarrow> 'l BoundServer \<Rightarrow> 'r \<times> 'l BoundServer" where
  "on_handle f s = (let (res, inner) = f (bs_inner s) in (res, s\<lparr>bs_inner := inner\<rparr>))"

definition handle_active_scene :: "Server \<Rightarrow> SceneId option" where
  "handle_active_scene srv = srv_active srv"

definition handle_scene :: "string \<Rightarrow> Server \<Rightarrow> scene_ref option" where
  "handle_scene i srv = server_scene i srv"

definition bound_new_scene :: "SceneId \<Rightarrow> 'l BoundServer \<Rightarrow> (ServerError + scene_ref) \<times> 'l BoundServer" where
  "bound_new_scene i = on_handle (new_scene i)"

definition bound_new_scene_with_version ::
    "SceneId \<Rightarrow> SceneVersion \<Rightarrow> 'l BoundServer \<Rightarrow> (ServerError + scene_ref) \<times> 'l BoundServer" where
  "bound_new_scene_with_version i version = on_handle (new_scene_with_version i version)"

definition bound_register_bundle ::
    "platform \<Rightarrow> Bundle \<Rightarrow> 'l BoundServer \<Rightarrow> (ServerError + scene_ref) \<times> 'l BoundServer" where
  "bound_register_bundle P b = on_handle (register_bundle P b)"

definition bound_set_active_scene :: "SceneId \<Rightarrow> 'l BoundServer \<Rightarrow> (ServerError + unit) \<times> 'l BoundServer" where
  "bound_set_active_scene i = on_handle (set_active_scene i)"

definition bound_active_scene :: "'l BoundServer \<Rightarrow> SceneId option" where
  "bound_active_scene s = handle_active_scene (bs_inner s)"

definition bound_clear_scenes :: "'l BoundServer \<Rightarrow> 'l BoundServer" where
  "bound_clear_scenes s = snd (on_handle (\<lambda>srv. ((), clear_scenes srv)) s)"

section \<open>Serving\<close>

definition bound_app :: "(string \<Rightarrow> string) \<Rightarrow> 'l BoundServer \<Rightarrow> App" where
  "bound_app decode s = \<lparr>app_route = build_router decode, app_auth = bs_auth s, app_state = bs_inner s\<rparr>"

definition server_run :: "('l, 'std, 'tls, 'sig) NetStack \<Rightarrow> (string \<Rightarrow> string) \<Rightarrow> 'l BoundServer
    \<Rightarrow> (ServerError + unit) option" where
  "server_run ns decode s = map_option io_result (ns_serve ns None (bs_listener s) (bound_app decode s))"

definition run_with_shutdown :: "('l, 'std, 'tls, 'sig) NetStack \<Rightarrow> (string \<Rightarrow> string) \<Rightarrow> 'sig \<Rightarrow> 'l BoundServer
    \<Rightarrow> (ServerError + unit) option" where
  "run_with_shutdown ns decode signal s =
     map_option io_result (ns_serve ns (Some signal) (bs_listener s) (bound_app decode s))"

record 't TlsConfig =
  tls_inner :: 't

definition tls_from_pem_file :: "('l, 'std, 'tls, 'sig) NetStack \<Rightarrow> string \<Rightarrow> string \<Rightarrow> ServerError + 'tls TlsConfig" where
  "tls_from_pem_file ns cert key = (case ns_pem_file ns cert key of
      Inl e \<Rightarrow> Inl (SEIo e)
    | Inr inner \<Rightarrow> Inr \<lparr>tls_inner = inner\<rparr>)"

definition tls_from_pem :: "('l, 'std, 'tls, 'sig) NetStack \<Rightarrow> u8 list \<Rightarrow> u8 list \<Rightarrow> ServerError + 'tls TlsConfig" where
  "tls_from_pem ns cert key = (case ns_pem ns cert key of
      Inl e \<Rightarrow> Inl (SEIo e)
    | Inr inner \<Rightarrow> Inr \<lparr>tls_inner = inner\<rparr>)"

definition run_tls :: "('l, 'std, 'tls, 'sig) NetStack \<Rightarrow> (string \<Rightarrow> string) \<Rightarrow> 'tls TlsConfig \<Rightarrow> 'l BoundServer
    \<Rightarrow> (ServerError + unit) option" where
  "run_tls ns decode tls s = (case ns_into_std ns (bs_listener s) of
      Inl e \<Rightarrow> Some (Inl (SEIo e))
    | Inr l \<Rightarrow> (case ns_set_nonblocking ns True l of
        Inl e \<Rightarrow> Some (Inl (SEIo e))
      | Inr l' \<Rightarrow> map_option io_result (ns_serve_tls ns (tls_inner tls) l' (bound_app decode s))))"

section \<open>What they keep\<close>

text \<open>Building the bound server is the build of the registry, with the listener beside it.\<close>

lemma bound_build_registry:
  "map_sum id (\<lambda>s. (bs_auth s, bs_inner s)) (bound_build ns b) = builder_build (\<lambda>a. map_sum id (\<lambda>_. ()) (ns_bind ns a)) b"
  by (simp add: bound_build_def builder_build_def split: option.split sum.split)

lemma bound_build_wf: "bound_build ns b = Inr s \<Longrightarrow> server_wf P (bs_inner s)"
  using server_wf_init [of P "sb_config b"]
  by (auto simp: bound_build_def server_init_def split: option.splits sum.splits)

lemmas bound_ops = bound_new_scene_def bound_new_scene_with_version_def bound_register_bundle_def
  bound_set_active_scene_def bound_clear_scenes_def on_handle_def

text \<open>
  Calls through the bound server move the shared registry by its own steps, and none touches the
  listener, the authenticator or, hence, where and to whom the server serves.
\<close>

lemma bound_calls_step:
  assumes "s' \<in> {snd (bound_new_scene i s), snd (bound_new_scene_with_version i v s), snd (bound_register_bundle P b s),
    snd (bound_set_active_scene i s), bound_clear_scenes s}"
  shows "server_step P (bs_inner s) (bs_inner s') \<and> bs_listener s' = bs_listener s \<and> bs_auth s' = bs_auth s"
  using assms server_step.intros(1-4) [of P "bs_inner s"]
  by (auto simp: bound_ops new_scene_def split_beta)

text \<open>
  Terminating TLS in the process changes nothing of the service: where the library serves behind TLS
  what it would serve on the listener, \<open>run_tls\<close> is \<open>run\<close>; a listener that cannot be converted is an
  error before anything is served.
\<close>

lemma run_tls_serves_the_router:
  assumes "ns_into_std ns (bs_listener s) = Inr l" "ns_set_nonblocking ns True l = Inr l'"
    and "\<And>app. ns_serve_tls ns (tls_inner tls) l' app = ns_serve ns None (bs_listener s) app"
  shows "run_tls ns decode tls s = server_run ns decode s"
  using assms by (simp add: run_tls_def server_run_def)

lemma run_tls_listener_error:
  assumes "ns_into_std ns (bs_listener s) = Inl e \<or> (\<exists>l. ns_into_std ns (bs_listener s) = Inr l \<and> ns_set_nonblocking ns True l = Inl e)"
  shows "run_tls ns decode tls s = Some (Inl (SEIo e))"
  using assms by (auto simp: run_tls_def)

end
