(* ===== verification/Scenario_Reader.thy ===== *)
theory Scenario_Reader
  imports Conformance
begin

text \<open>
  Reading a scenario (\<open>scenario.rs\<close>): the readers \<open>serde\<close> derives for \<open>Scenario\<close>, \<open>InlineBundle\<close>, \<open>Tag\<close> and
  \<open>Target\<close>, written out as visitors over the entries of a document, and \<open>Scenario::parse\<close>. How YAML
  text becomes a document is a library's business: the record \<open>reader\<close> holds what its deserializer
  presents to a visitor at a node.
\<close>

section \<open>Deserializers\<close>

text \<open>
  What a deserializer presents at a node of type \<open>'n\<close>: the entries of a mapping in document order, the
  items of a sequence, the text of a string or of a variant, whether an optional field is absent
  there, the node as a JSON value; and the texts of the errors the derived code raises itself.
\<close>

record 'n reader =
  rd_parse :: "string \<Rightarrow> string + 'n"
  rd_map :: "'n \<Rightarrow> string + (string \<times> 'n) list"
  rd_seq :: "'n \<Rightarrow> string + 'n list"
  rd_str :: "'n \<Rightarrow> string + string"
  rd_none :: "'n \<Rightarrow> bool"
  rd_value :: "'n \<Rightarrow> string + json"
  rd_missing :: "string \<Rightarrow> string"
  rd_duplicate :: "string \<Rightarrow> string"
  rd_variant :: "string \<Rightarrow> string"
  rd_custom :: "string \<Rightarrow> string"

fun read_all :: "('n \<Rightarrow> string + 'a) \<Rightarrow> 'n list \<Rightarrow> string + 'a list" where
  "read_all f [] = Inr []"
| "read_all f (n # ns) = (case f n of
      Inl e \<Rightarrow> Inl e
    | Inr x \<Rightarrow> (case read_all f ns of Inl e \<Rightarrow> Inl e | Inr xs \<Rightarrow> Inr (x # xs)))"

definition read_vec :: "'n reader \<Rightarrow> ('n \<Rightarrow> string + 'a) \<Rightarrow> 'n \<Rightarrow> string + 'a list" where
  "read_vec R f n = (case rd_seq R n of Inl e \<Rightarrow> Inl e | Inr ns \<Rightarrow> read_all f ns)"

text \<open>\<open>BTreeMap<String, Value>\<close>: a later entry of the same key replaces an earlier one.\<close>

definition read_value_map :: "'n reader \<Rightarrow> 'n \<Rightarrow> string + json bt" where
  "read_value_map R n = (case rd_map R n of
      Inl e \<Rightarrow> Inl e
    | Inr kns \<Rightarrow> (case read_all (\<lambda>(k, m). map_sum id (Pair k) (rd_value R m)) kns of
        Inl e \<Rightarrow> Inl e | Inr kvs \<Rightarrow> Inr (bt_of kvs)))"

definition read_option :: "'n reader \<Rightarrow> ('n \<Rightarrow> string + 'a) \<Rightarrow> 'n \<Rightarrow> string + 'a option" where
  "read_option R f n = (if rd_none R n then Inr None else map_sum id Some (f n))"

section \<open>The derived readers\<close>

definition read_tag :: "'n reader \<Rightarrow> 'n \<Rightarrow> string + Tag" where
  "read_tag R n = (case rd_str R n of
      Inl e \<Rightarrow> Inl e
    | Inr s \<Rightarrow> (if s = ''required'' then Inr Required
        else if s = ''recommended'' then Inr Recommended
        else if s = ''extended'' then Inr Extended
        else Inl (rd_variant R s)))"

definition read_target :: "'n reader \<Rightarrow> 'n \<Rightarrow> string + ScenarioTarget" where
  "read_target R n = (case rd_str R n of
      Inl e \<Rightarrow> Inl e
    | Inr s \<Rightarrow> (if s = ''server'' then Inr TargetServer
        else if s = ''runtime'' then Inr TargetRuntime
        else if s = ''any'' then Inr TargetAny
        else Inl (rd_variant R s)))"

definition default_tag :: Tag where
  "default_tag = Required"

definition default_target :: ScenarioTarget where
  "default_target = TargetAny"

text \<open>
  A derived visitor keeps an optional value per field. An entry of a known field must be its first;
  an entry of an unknown field is skipped.
\<close>

definition put_field :: "'n reader \<Rightarrow> string \<Rightarrow> 'a option \<Rightarrow> (string + 'a) \<Rightarrow> string + 'a option" where
  "put_field R field old new = (if old \<noteq> None then Inl (rd_duplicate R field) else map_sum id Some new)"

fun visit :: "('acc \<Rightarrow> string \<times> 'n \<Rightarrow> string + 'acc) \<Rightarrow> 'acc \<Rightarrow> (string \<times> 'n) list \<Rightarrow> string + 'acc" where
  "visit f acc [] = Inr acc"
| "visit f acc (kn # kns) = (case f acc kn of Inl e \<Rightarrow> Inl e | Inr acc' \<Rightarrow> visit f acc' kns)"

definition required_field :: "'n reader \<Rightarrow> string \<Rightarrow> 'a option \<Rightarrow> string + 'a" where
  "required_field R field v = (case v of None \<Rightarrow> Inl (rd_missing R field) | Some x \<Rightarrow> Inr x)"

definition inline_bundle_entry :: "'n reader \<Rightarrow> string option \<times> json option \<Rightarrow> string \<times> 'n
    \<Rightarrow> string + (string option \<times> json option)" where
  "inline_bundle_entry R acc kn = (case (acc, kn) of ((i, v), (k, n)) \<Rightarrow>
     if k = ''id'' then map_sum id (\<lambda>i'. (i', v)) (put_field R ''id'' i (rd_str R n))
     else if k = ''inline'' then map_sum id (\<lambda>v'. (i, v')) (put_field R ''inline'' v (rd_value R n))
     else Inr acc)"

definition read_inline_bundle :: "'n reader \<Rightarrow> 'n \<Rightarrow> string + InlineBundle" where
  "read_inline_bundle R n = (case rd_map R n of
      Inl e \<Rightarrow> Inl e
    | Inr kns \<Rightarrow> (case visit (inline_bundle_entry R) (None, None) kns of
        Inl e \<Rightarrow> Inl e
      | Inr (i, v) \<Rightarrow> (case required_field R ''id'' i of
          Inl e \<Rightarrow> Inl e
        | Inr i' \<Rightarrow> (case required_field R ''inline'' v of
            Inl e \<Rightarrow> Inl e
          | Inr v' \<Rightarrow> Inr \<lparr>ib_id = i', ib_inline = v'\<rparr>))))"

text \<open>\<open>Step\<close> has its own reader: the node as a map, then \<open>step_from_kind\<close>; its errors are custom ones.\<close>

definition read_step :: "platform \<Rightarrow> 'n reader \<Rightarrow> 'n \<Rightarrow> string + Step" where
  "read_step P R n = (case read_value_map R n of
      Inl e \<Rightarrow> Inl e
    | Inr raw \<Rightarrow> map_sum (rd_custom R) id (de_step P (JObject raw)))"

record ScenarioFields =
  sf_name :: "string option"
  sf_description :: "string option option"
  sf_tag :: "Tag option"
  sf_target :: "ScenarioTarget option"
  sf_bundles :: "InlineBundle list option"
  sf_initial_state :: "json bt option"
  sf_steps :: "Step list option"

definition no_fields :: ScenarioFields where
  "no_fields = \<lparr>sf_name = None, sf_description = None, sf_tag = None, sf_target = None, sf_bundles = None,
     sf_initial_state = None, sf_steps = None\<rparr>"

definition scenario_entry :: "platform \<Rightarrow> 'n reader \<Rightarrow> ScenarioFields \<Rightarrow> string \<times> 'n \<Rightarrow> string + ScenarioFields" where
  "scenario_entry P R f kn = (case kn of (k, n) \<Rightarrow>
     if k = ''name'' then
       map_sum id (\<lambda>v. f\<lparr>sf_name := v\<rparr>) (put_field R k (sf_name f) (rd_str R n))
     else if k = ''description'' then
       map_sum id (\<lambda>v. f\<lparr>sf_description := v\<rparr>) (put_field R k (sf_description f) (read_option R (rd_str R) n))
     else if k = ''tag'' then
       map_sum id (\<lambda>v. f\<lparr>sf_tag := v\<rparr>) (put_field R k (sf_tag f) (read_tag R n))
     else if k = ''target'' then
       map_sum id (\<lambda>v. f\<lparr>sf_target := v\<rparr>) (put_field R k (sf_target f) (read_target R n))
     else if k = ''bundles'' then
       map_sum id (\<lambda>v. f\<lparr>sf_bundles := v\<rparr>) (put_field R k (sf_bundles f) (read_vec R (read_inline_bundle R) n))
     else if k = ''initial_state'' then
       map_sum id (\<lambda>v. f\<lparr>sf_initial_state := v\<rparr>) (put_field R k (sf_initial_state f) (read_value_map R n))
     else if k = ''steps'' then
       map_sum id (\<lambda>v. f\<lparr>sf_steps := v\<rparr>) (put_field R k (sf_steps f) (read_vec R (read_step P R) n))
     else Inr f)"

text \<open>After the entries: \<open>name\<close> and \<open>steps\<close> must be there, the other fields have defaults.\<close>

definition finish_scenario :: "'n reader \<Rightarrow> ScenarioFields \<Rightarrow> string + Scenario" where
  "finish_scenario R f = (case required_field R ''name'' (sf_name f) of
      Inl e \<Rightarrow> Inl e
    | Inr name \<Rightarrow> (case required_field R ''steps'' (sf_steps f) of
        Inl e \<Rightarrow> Inl e
      | Inr steps \<Rightarrow> Inr \<lparr>sn_name = name, sn_description = case_option None id (sf_description f),
          sn_tag = case_option default_tag id (sf_tag f),
          sn_target = case_option default_target id (sf_target f),
          sn_bundles = case_option [] id (sf_bundles f),
          sn_initial_state = case_option [] id (sf_initial_state f), sn_steps = steps\<rparr>))"

definition read_scenario :: "platform \<Rightarrow> 'n reader \<Rightarrow> 'n \<Rightarrow> string + Scenario" where
  "read_scenario P R n = (case rd_map R n of
      Inl e \<Rightarrow> Inl e
    | Inr kns \<Rightarrow> (case visit (scenario_entry P R) no_fields kns of
        Inl e \<Rightarrow> Inl e
      | Inr f \<Rightarrow> finish_scenario R f))"

datatype ScenarioParseError = SpYaml string | SpIo string

definition show_scenario_parse_error :: "ScenarioParseError \<Rightarrow> string" where
  "show_scenario_parse_error e = (case e of SpYaml m \<Rightarrow> ''yaml: '' @ m | SpIo m \<Rightarrow> ''io: '' @ m)"

definition scenario_parse :: "platform \<Rightarrow> 'n reader \<Rightarrow> string \<Rightarrow> ScenarioParseError + Scenario" where
  "scenario_parse P R s = (case rd_parse R s of
      Inl e \<Rightarrow> Inl (SpYaml e)
    | Inr n \<Rightarrow> map_sum SpYaml id (read_scenario P R n))"

section \<open>Writing a scenario down\<close>

text \<open>
  The published format as a function, to state what the readers accept: a step is a map with its
  \<open>kind\<close> and its fields at the same level.
\<close>

record 'n writer =
  wr_map :: "(string \<times> 'n) list \<Rightarrow> 'n"
  wr_seq :: "'n list \<Rightarrow> 'n"
  wr_str :: "string \<Rightarrow> 'n"
  wr_value :: "json \<Rightarrow> 'n"

definition known_kinds :: "string list" where
  "known_kinds = [''client-sends'', ''server-sends'', ''server-emits'', ''expect-runtime-state'',
     ''expect-server-state'', ''expect-no-frame-for'', ''expect-client-action'']"

fun step_fields :: "Step \<Rightarrow> string \<times> json bt" where
  "step_fields (ClientSends f) = (''client-sends'', [(''frame'', f)])"
| "step_fields (ServerSends f) = (''server-sends'', [(''frame'', f)])"
| "step_fields (ServerEmits f) = (''server-emits'', [(''frame'', f)])"
| "step_fields (ExpectRuntimeState m) = (''expect-runtime-state'', [(''state'', JObject m)])"
| "step_fields (ExpectServerState m) = (''expect-server-state'', [(''state'', JObject m)])"
| "step_fields (ExpectNoFrameFor ms) = (''expect-no-frame-for'', [(''duration_ms'', JNumber (PosInt ms))])"
| "step_fields (ExpectClientAction a) =
     (''expect-client-action'', bt_insert ''action'' (JString (ca_action a)) (ca_fields a))"
| "step_fields (Unsupported kind body) = (kind, body)"

definition step_body :: "Step \<Rightarrow> json bt" where
  "step_body st = (case step_fields st of (kind, m) \<Rightarrow> bt_insert ''kind'' (JString kind) m)"

definition step_ok :: "Step \<Rightarrow> bool" where
  "step_ok st \<longleftrightarrow> (case st of
      ExpectClientAction a \<Rightarrow> bt_wf (ca_fields a) \<and> bt_get (ca_fields a) ''action'' = None
        \<and> bt_get (ca_fields a) ''kind'' = None
    | Unsupported kind body \<Rightarrow> bt_wf body \<and> bt_get body ''kind'' = None \<and> kind \<notin> set known_kinds
    | _ \<Rightarrow> True)"

definition value_map_node :: "'n writer \<Rightarrow> json bt \<Rightarrow> 'n" where
  "value_map_node W m = wr_map W (map (\<lambda>(k, v). (k, wr_value W v)) m)"

fun show_tag :: "Tag \<Rightarrow> string" where
  "show_tag Required = ''required''"
| "show_tag Recommended = ''recommended''"
| "show_tag Extended = ''extended''"

fun show_target :: "ScenarioTarget \<Rightarrow> string" where
  "show_target TargetServer = ''server''"
| "show_target TargetRuntime = ''runtime''"
| "show_target TargetAny = ''any''"

definition inline_bundle_node :: "'n writer \<Rightarrow> InlineBundle \<Rightarrow> 'n" where
  "inline_bundle_node W b = wr_map W [(''id'', wr_str W (ib_id b)), (''inline'', wr_value W (ib_inline b))]"

text \<open>A field that has its default value may be left out; \<open>written\<close> says which ones are not.\<close>

definition optional_entry :: "(string \<Rightarrow> bool) \<Rightarrow> bool \<Rightarrow> string \<Rightarrow> 'n \<Rightarrow> (string \<times> 'n) list" where
  "optional_entry written is_default k n = (if is_default \<and> \<not> written k then [] else [(k, n)])"

definition scenario_node :: "'n writer \<Rightarrow> (string \<Rightarrow> bool) \<Rightarrow> Scenario \<Rightarrow> 'n" where
  "scenario_node W written s = wr_map W
     (optional_entry written (sn_bundles s = []) ''bundles'' (wr_seq W (map (inline_bundle_node W) (sn_bundles s)))
      @ (case sn_description s of None \<Rightarrow> [] | Some d \<Rightarrow> [(''description'', wr_str W d)])
      @ optional_entry written (sn_initial_state s = []) ''initial_state'' (value_map_node W (sn_initial_state s))
      @ [(''name'', wr_str W (sn_name s)),
         (''steps'', wr_seq W (map (\<lambda>st. value_map_node W (step_body st)) (sn_steps s)))]
      @ optional_entry written (sn_tag s = Required) ''tag'' (wr_str W (show_tag (sn_tag s)))
      @ optional_entry written (sn_target s = TargetAny) ''target'' (wr_str W (show_target (sn_target s))))"

definition scenario_ok :: "Scenario \<Rightarrow> bool" where
  "scenario_ok s \<longleftrightarrow> bt_wf (sn_initial_state s) \<and> list_all step_ok (sn_steps s)"

lemma remove_insert_absent: "bt_wf m \<Longrightarrow> bt_get m k = None \<Longrightarrow> bt_remove k (bt_insert k v m) = m"
  by (rule bt_ext) (auto simp: fun_eq_iff bt_get_remove)

lemma bt_of_filter:
  assumes "bt_wf m"
  shows "bt_of (filter (\<lambda>kv. fst kv \<noteq> k) m) = bt_remove k m"
proof -
  have "filter (\<lambda>kv. fst kv \<noteq> k) m = bt_remove k m" unfolding bt_remove_def by (rule filter_cong) auto
  with assms show ?thesis by (simp add: bt_of_wf_id)
qed

lemma step_body_wf: "step_ok st \<Longrightarrow> bt_wf (step_body st)"
  by (cases st) (simp_all add: step_body_def step_ok_def bt_wf_Cons)

text \<open>Every step is read back from its fields.\<close>

lemma de_step_body:
  assumes "step_ok st"
  shows "de_step P (JObject (step_body st)) = Inr st"
proof (cases st)
  case (ExpectClientAction a)
  have "bt_remove ''kind'' (step_body st) = bt_insert ''action'' (JString (ca_action a)) (ca_fields a)"
    using assms ExpectClientAction by (simp add: step_body_def step_ok_def remove_insert_absent)
  moreover have "bt_of (filter (\<lambda>kv. fst kv \<noteq> ''kind'') (step_body st)) = bt_remove ''kind'' (step_body st)"
    using assms by (intro bt_of_filter step_body_wf)
  ultimately show ?thesis
    using assms ExpectClientAction
    by (simp add: de_step_def step_body_def as_str_def step_from_kind_def de_client_action_def de_str_def step_ok_def
        remove_insert_absent)
qed (use assms in \<open>auto simp: de_step_def step_body_def as_str_def step_from_kind_def frame_field_def state_field_def
      as_u64_def step_ok_def known_kinds_def remove_insert_absent\<close>)

section \<open>The contract of a deserializer\<close>

text \<open>
  What the derived readers rely on: a node that was written as a mapping (with its keys in order), a
  sequence, a string or a value is presented as such, and a string is not an absent value.
\<close>

locale document_reader =
  fixes R :: "'n reader" and W :: "'n writer"
  assumes map_read: "bt_wf kns \<Longrightarrow> rd_map R (wr_map W kns) = Inr kns"
    and seq_read: "rd_seq R (wr_seq W ns) = Inr ns"
    and str_read: "rd_str R (wr_str W s) = Inr s"
    and str_present: "\<not> rd_none R (wr_str W s)"
    and value_read: "rd_value R (wr_value W v) = Inr v"
begin

lemma read_all_map: "(\<And>x. x \<in> set xs \<Longrightarrow> f (g x) = Inr x) \<Longrightarrow> read_all f (map g xs) = Inr xs"
  by (induction xs) auto

lemma value_map_read:
  assumes "bt_wf m"
  shows "read_value_map R (value_map_node W m) = Inr m"
proof -
  have keys: "map fst (map (\<lambda>(k, v). (k, wr_value W v)) m) = map fst m" by (induction m) auto
  have "bt_wf (map (\<lambda>(k, v). (k, wr_value W v)) m)"
    using assms unfolding bt_wf_def keys .
  moreover have "read_all (\<lambda>(k, n). map_sum id (Pair k) (rd_value R n)) (map (\<lambda>(k, v). (k, wr_value W v)) m) = Inr m"
    by (intro read_all_map) (auto simp: value_read)
  ultimately show ?thesis using assms by (simp add: read_value_map_def value_map_node_def map_read bt_of_wf_id)
qed

lemma bundle_read: "read_inline_bundle R (inline_bundle_node W b) = Inr b"
  by (cases b) (simp add: read_inline_bundle_def inline_bundle_node_def map_read bt_wf_Cons inline_bundle_entry_def
      put_field_def required_field_def str_read value_read)

lemma step_read: "step_ok st \<Longrightarrow> read_step P R (value_map_node W (step_body st)) = Inr st"
  by (simp add: read_step_def value_map_read step_body_wf de_step_body)

lemma tag_read: "read_tag R (wr_str W (show_tag t)) = Inr t"
  by (cases t) (simp_all add: read_tag_def str_read)

lemma target_read: "read_target R (wr_str W (show_target t)) = Inr t"
  by (cases t) (simp_all add: read_target_def str_read)

lemma scenario_read:
  assumes "scenario_ok s"
  shows "read_scenario P R (scenario_node W written s) = Inr s"
proof -
  have bundles: "read_vec R (read_inline_bundle R) (wr_seq W (map (inline_bundle_node W) (sn_bundles s))) = Inr (sn_bundles s)"
    by (simp add: read_vec_def seq_read read_all_map bundle_read)
  have steps: "read_vec R (read_step P R) (wr_seq W (map (\<lambda>st. value_map_node W (step_body st)) (sn_steps s))) = Inr (sn_steps s)"
    using assms by (auto simp: read_vec_def seq_read scenario_ok_def list_all_iff intro!: read_all_map step_read)
  have state: "read_value_map R (value_map_node W (sn_initial_state s)) = Inr (sn_initial_state s)"
    using assms by (simp add: scenario_ok_def value_map_read)
  show ?thesis
    by (cases "sn_description s"; cases "sn_bundles s = [] \<and> \<not> written ''bundles''";
        cases "sn_initial_state s = [] \<and> \<not> written ''initial_state''";
        cases "sn_tag s = Required \<and> \<not> written ''tag''"; cases "sn_target s = TargetAny \<and> \<not> written ''target''")
      (simp_all add: optional_entry_def default_tag_def default_target_def read_scenario_def scenario_node_def map_read bt_wf_Cons scenario_entry_def put_field_def
        no_fields_def finish_scenario_def required_field_def str_read str_present read_option_def bundles steps state
        tag_read target_read)
qed

end

text \<open>The deserializer \<open>serde_json\<close> has for values that are already parsed.\<close>

definition json_reader :: "platform \<Rightarrow> json reader" where
  "json_reader P = \<lparr>rd_parse = from_slice P,
     rd_map = (\<lambda>v. case v of JObject m \<Rightarrow> Inr m | _ \<Rightarrow> Inl (de_error P ''map'' v)),
     rd_seq = (\<lambda>v. case v of JArray vs \<Rightarrow> Inr vs | _ \<Rightarrow> Inl (de_error P ''seq'' v)),
     rd_str = (\<lambda>v. case v of JString s \<Rightarrow> Inr s | _ \<Rightarrow> Inl (de_error P ''str'' v)),
     rd_none = (\<lambda>v. v = JNull), rd_value = Inr,
     rd_missing = (\<lambda>f. ''missing field `'' @ f @ ''`''), rd_duplicate = (\<lambda>f. ''duplicate field `'' @ f @ ''`''),
     rd_variant = (\<lambda>s. ''unknown variant `'' @ s @ ''`''), rd_custom = (\<lambda>m. m)\<rparr>"

definition json_writer :: "json writer" where
  "json_writer = \<lparr>wr_map = JObject, wr_seq = JArray, wr_str = JString, wr_value = (\<lambda>v. v)\<rparr>"

interpretation json_documents: document_reader "json_reader P" json_writer
  by unfold_locales (simp_all add: json_reader_def json_writer_def)

section \<open>Properties\<close>

text \<open>
  C19. Scenarios are read back. With any deserializer that presents documents as they were written, the
  reader applied to a scenario written in the published format gives exactly that scenario, every
  step kind included, the ones this harness does not know too. Fields with their default value may be
  written or left out.
\<close>
theorem scenario_roundtrip:
  assumes "document_reader R W" "scenario_ok s"
  shows "read_scenario P R (scenario_node W written s) = Inr s"
  using assms by (rule document_reader.scenario_read)

definition sample_document :: Scenario where
  "sample_document = \<lparr>sn_name = ''gap'', sn_description = Some ''d'', sn_tag = Recommended, sn_target = TargetAny,
     sn_bundles = [\<lparr>ib_id = ''t'', ib_inline = JNull\<rparr>], sn_initial_state = [(''a'', jnat 0)],
     sn_steps = [ClientSends (JString ''f''), ExpectNoFrameFor 250,
       ExpectClientAction \<lparr>ca_action = ''reconnect'', ca_fields = []\<rparr>, Unsupported ''client-action'' []]\<rparr>"

theorem scenario_roundtrip_witness:
  "read_scenario sample_platform (json_reader sample_platform) (scenario_node json_writer (\<lambda>_. False) sample_document) = Inr sample_document"
proof -
  have "scenario_ok sample_document"
    by (simp add: scenario_ok_def sample_document_def bt_wf_Cons step_ok_def known_kinds_def)
  then show ?thesis by (intro scenario_roundtrip) unfold_locales
qed

text \<open>Fields the format does not know are skipped, wherever they stand in the document.\<close>

lemma unknown_entry_skipped:
  assumes "k \<notin> {''name'', ''description'', ''tag'', ''target'', ''bundles'', ''initial_state'', ''steps''}"
  shows "visit (scenario_entry P R) f (xs @ (k, n) # ys) = visit (scenario_entry P R) f (xs @ ys)"
  using assms by (induction xs arbitrary: f) (auto simp: scenario_entry_def split: sum.splits)

text \<open>
  \<open>Step\<close> also derives a writer, which nests the fields under the name of the variant. Its own reader
  refuses everything that writer produces: there is no \<open>kind\<close>.
\<close>

fun ser_step :: "Step \<Rightarrow> json" where
  "ser_step (ClientSends f) = JObject [(''ClientSends'', JObject [(''frame'', f)])]"
| "ser_step (ServerSends f) = JObject [(''ServerSends'', JObject [(''frame'', f)])]"
| "ser_step (ExpectRuntimeState m) = JObject [(''ExpectRuntimeState'', JObject [(''state'', JObject m)])]"
| "ser_step (ExpectServerState m) = JObject [(''ExpectServerState'', JObject [(''state'', JObject m)])]"
| "ser_step (ExpectNoFrameFor ms) = JObject [(''ExpectNoFrameFor'', JObject [(''duration_ms'', ser_u64 ms)])]"
| "ser_step (ExpectClientAction a) =
     JObject [(''ExpectClientAction'', obj ((''action'', JString (ca_action a)) # ca_fields a))]"
| "ser_step (ServerEmits f) = JObject [(''ServerEmits'', JObject [(''frame'', f)])]"
| "ser_step (Unsupported kind body) = JObject [(''Unsupported'', obj [(''kind'', JString kind), (''body'', JObject body)])]"

lemma ser_step_unreadable: "de_step P (ser_step st) = Inl ''step is missing required `kind` field''"
  by (cases st) (simp_all add: de_step_def)

end
