(* ===== verification/Harness.thy ===== *)
theory Harness
  imports Scenario_Reader Control_Wire
begin

text \<open>
  Running a suite: the harness (\<open>harness.rs\<close>), the codec fixtures of \<open>local.rs\<close>, and the decisions of
  the command line (\<open>main.rs\<close>): where the scenarios are, which tokens are used, and the exit code. The
  file system, the environment and the YAML reader are arguments; a path is its list of components.
\<close>

section \<open>The harness\<close>

record HarnessOutcome =
  ho_name :: string
  ho_passed :: bool
  ho_skipped :: bool
  ho_message :: "string option"

record Report =
  rp_total :: nat
  rp_passed :: nat
  rp_skipped :: nat
  rp_outcomes :: "HarnessOutcome list"

definition all_passed :: "Report \<Rightarrow> bool" where
  "all_passed r \<longleftrightarrow> rp_passed r + rp_skipped r = rp_total r"

datatype HarnessTarget = HServer (ht_ws_url: string) (ht_control_url: string)

datatype ScenariosSource = SrcDirectory "string list" | SrcInline "(string \<times> string) list" | SrcEmpty

record HarnessConfig =
  hc_target :: HarnessTarget
  hc_tags :: "Tag list"
  hc_scenario_filter :: "string option"
  hc_tokens :: "string bt"
  hc_scenarios :: ScenariosSource

definition filter_scenarios :: "HarnessConfig \<Rightarrow> Scenario list \<Rightarrow> Scenario list" where
  "filter_scenarios config scenarios =
     filter (\<lambda>s. case hc_scenario_filter config of None \<Rightarrow> True | Some name \<Rightarrow> sn_name s = name)
       (filter (\<lambda>s. hc_tags config = [] \<or> sn_tag s \<in> set (hc_tags config)) scenarios)"

datatype HarnessError = HParse ScenarioParseError | HDriver string

fun parse_all :: "(string \<Rightarrow> ScenarioParseError + Scenario) \<Rightarrow> string list \<Rightarrow> HarnessError + Scenario list" where
  "parse_all parse [] = Inr []"
| "parse_all parse (text # texts) = (case parse text of
      Inl e \<Rightarrow> Inl (HParse e)
    | Inr s \<Rightarrow> (case parse_all parse texts of Inl e \<Rightarrow> Inl e | Inr ss \<Rightarrow> Inr (s # ss)))"

text \<open>The loop over the sorted files of a directory: each is read, then parsed.\<close>

fun load_files :: "(string \<Rightarrow> ScenarioParseError + Scenario) \<Rightarrow> (string list \<Rightarrow> string + string) \<Rightarrow> (string list \<Rightarrow> string)
    \<Rightarrow> string list list \<Rightarrow> HarnessError + Scenario list" where
  "load_files parse read_file display [] = Inr []"
| "load_files parse read_file display (path # paths) = (case read_file path of
      Inl e \<Rightarrow> Inl (HDriver (''cannot read '' @ display path @ '': '' @ e))
    | Inr text \<Rightarrow> (case parse text of
        Inl e \<Rightarrow> Inl (HParse e)
      | Inr s \<Rightarrow> (case load_files parse read_file display paths of Inl e \<Rightarrow> Inl e | Inr ss \<Rightarrow> Inr (s # ss))))"

text \<open>
  The file system and the parser of scenarios. \<open>fs_list_yaml\<close> gives the entries of a directory that have the
  extension \<open>yaml\<close>, sorted.
\<close>

record FileSystem =
  fs_parse :: "string \<Rightarrow> ScenarioParseError + Scenario"
  fs_list_yaml :: "string list \<Rightarrow> string + string list list"
  fs_read :: "string list \<Rightarrow> string + string"
  fs_is_dir :: "string list \<Rightarrow> bool"
  fs_display :: "string list \<Rightarrow> string"

text \<open>With \<open>Scenario::parse\<close> over a YAML deserializer as the parser.\<close>

definition reading :: "platform \<Rightarrow> 'n reader \<Rightarrow> FileSystem \<Rightarrow> FileSystem" where
  "reading P R fs = fs\<lparr>fs_parse := scenario_parse P R\<rparr>"

definition load_scenarios :: "FileSystem \<Rightarrow> ScenariosSource \<Rightarrow> HarnessError + Scenario list" where
  "load_scenarios fs source = (case source of
      SrcEmpty \<Rightarrow> Inr []
    | SrcInline lst \<Rightarrow> parse_all (fs_parse fs) (map snd lst)
    | SrcDirectory dir \<Rightarrow> (case fs_list_yaml fs dir of
        Inl e \<Rightarrow> Inl (HDriver (''cannot read '' @ fs_display fs dir @ '': '' @ e))
      | Inr paths \<Rightarrow> load_files (fs_parse fs) (fs_read fs) (fs_display fs) paths))"

text \<open>
  One turn of the loop of \<open>run\<close>, on a scenario with its outside. The second component of the state is
  the list of URLs the harness posts to itself: the clean-up after a scenario that failed, whose
  answer is ignored.
\<close>

definition harness_step :: "platform \<Rightarrow> string \<Rightarrow> string bt \<Rightarrow> Scenario \<times> PlayIO \<Rightarrow> Report \<times> string list
    \<Rightarrow> Report \<times> string list" where
  "harness_step P control_url tokens sio st =
     (let (s, out) = sio; (r, posts) = st in
      if sn_target s = TargetRuntime then
        (r\<lparr>rp_skipped := Suc (rp_skipped r), rp_outcomes := rp_outcomes r @
          [\<lparr>ho_name = sn_name s, ho_passed = False, ho_skipped = True,
            ho_message = Some ''runtime-targeted scenario, harness drives a server''\<rparr>]\<rparr>, posts)
      else (case run_scenario P out control_url s tokens of
          Inr _ \<Rightarrow> (r\<lparr>rp_passed := Suc (rp_passed r), rp_outcomes := rp_outcomes r @
            [\<lparr>ho_name = sn_name s, ho_passed = True, ho_skipped = False, ho_message = None\<rparr>]\<rparr>, posts)
        | Inl e \<Rightarrow> (r\<lparr>rp_outcomes := rp_outcomes r @
            [\<lparr>ho_name = sn_name s, ho_passed = False, ho_skipped = False,
              ho_message = Some (show_player_error e)\<rparr>]\<rparr>, posts @ [control_url @ ''/test/reset''])))"

definition play_all :: "platform \<Rightarrow> HarnessConfig \<Rightarrow> (Scenario \<times> PlayIO) list \<Rightarrow> Report \<times> string list" where
  "play_all P config scenarios =
     fold (harness_step P (ht_control_url (hc_target config)) (hc_tokens config)) scenarios
       (\<lparr>rp_total = length scenarios, rp_passed = 0, rp_skipped = 0, rp_outcomes = []\<rparr>, [])"

text \<open>The \<open>i\<close>-th selected scenario runs against the outside \<open>outs i\<close>.\<close>

definition with_outside :: "(nat \<Rightarrow> PlayIO) \<Rightarrow> Scenario list \<Rightarrow> (Scenario \<times> PlayIO) list" where
  "with_outside outs scenarios = map (\<lambda>(i, s). (s, outs i)) (enumerate 0 scenarios)"

definition run_harness :: "platform \<Rightarrow> FileSystem \<Rightarrow> (nat \<Rightarrow> PlayIO) \<Rightarrow> HarnessConfig
    \<Rightarrow> HarnessError + Report \<times> string list" where
  "run_harness P fs outs config = (case load_scenarios fs (hc_scenarios config) of
      Inl e \<Rightarrow> Inl e
    | Inr loaded \<Rightarrow> Inr (play_all P config (with_outside outs (filter_scenarios config loaded))))"

section \<open>Codec fixtures\<close>

definition fixture_version :: SceneVersion where
  "fixture_version = zero_hash"

definition server_fixtures :: "ServerFrame list" where
  "server_fixtures =
     [FSnapshot \<lparr>snapshot_seq = 1, snapshot_scene_id = ''test-scene'', snapshot_scene_version = fixture_version,
        snapshot_state = bt_of [(''title'', JString ''Hello''), (''count'', jnat 0)], snapshot_ts = None\<rparr>,
      FDelta \<lparr>delta_seq = 2, delta_patches = [patch_new ''count'' (jnat 1)], delta_ts = None, delta_cause = None\<rparr>,
      FSceneChanged \<lparr>changed_seq = 3, changed_scene_id = ''next'', changed_scene_version = fixture_version,
        changed_ts = None, changed_from_scene_id = None, changed_transition = None\<rparr>,
      FError \<lparr>error_seq = 4, error_code = WriteForbidden, error_message = ''viewer cannot write'',
        error_recoverable = True, error_retry_after_ms = None, error_path = None, error_ts = None\<rparr>,
      FPong \<lparr>pong_nonce = None\<rparr>]"

definition client_fixtures :: "ClientFrame list" where
  "client_fixtures =
     [CSubscribe \<lparr>subscribe_token = ''op'', subscribe_scene = None, subscribe_session = None,
        subscribe_since_sequence = None\<rparr>,
      CSubscribe \<lparr>subscribe_token = ''test'', subscribe_scene = Some ''preview'',
        subscribe_session = Some ''sess-1'', subscribe_since_sequence = None\<rparr>,
      CInput \<lparr>input_patches = [patch_new ''__inputs.title'' (JString ''New'')], input_client_msg_id = None\<rparr>,
      CPing \<lparr>ping_nonce = None\<rparr>]"

text \<open>One fixture through a codec. No fixture has a double, so \<open>!=\<close> is inequality of frames.\<close>

definition round_trip :: "(LumencastError \<Rightarrow> string) \<Rightarrow> ('f \<Rightarrow> LumencastError + string) \<Rightarrow> (string \<Rightarrow> LumencastError + 'f)
    \<Rightarrow> ('f \<Rightarrow> string) \<Rightarrow> string \<Rightarrow> 'f \<Rightarrow> string + unit" where
  "round_trip show_err encode decode type_str side f = (case encode f of
      Inl e \<Rightarrow> Inl (''encode_'' @ side @ '': '' @ show_err e)
    | Inr bytes \<Rightarrow> (case decode bytes of
        Inl e \<Rightarrow> Inl (''decode_'' @ side @ '': '' @ show_err e)
      | Inr parsed \<Rightarrow> if parsed \<noteq> f then Inl (side @ '' round-trip mismatch on '' @ type_str f) else Inr ()))"

fun all_ok :: "('f \<Rightarrow> string + unit) \<Rightarrow> 'f list \<Rightarrow> string + unit" where
  "all_ok check [] = Inr ()"
| "all_ok check (f # fs) = (case check f of Inl e \<Rightarrow> Inl e | Inr _ \<Rightarrow> all_ok check fs)"

definition round_trips_ok :: "(LumencastError \<Rightarrow> string) \<Rightarrow> platform \<Rightarrow> string + unit" where
  "round_trips_ok show_err P =
     (case all_ok (round_trip show_err (encode_server P) (decode_server P) server_type_str ''server'') server_fixtures of
        Inl e \<Rightarrow> Inl e
      | Inr _ \<Rightarrow> all_ok (round_trip show_err (encode_client P) (decode_client P) client_type_str ''client'') client_fixtures)"

section \<open>The command line\<close>

definition em_dash :: string where
  "em_dash = [CHR 0xE2, CHR 0x80, CHR 0x94]"

fun join_comma :: "string list \<Rightarrow> string" where
  "join_comma [] = []"
| "join_comma [s] = s"
| "join_comma (s # t # ts) = s @ '', '' @ join_comma (t # ts)"

definition SCENARIOS_REL :: "string list" where
  "SCENARIOS_REL = [''conformance'', ''v1'', ''scenarios'']"

text \<open>\<open>Path::ancestors\<close>: the path, its parent, up to the root.\<close>

definition ancestors :: "string list \<Rightarrow> string list list" where
  "ancestors p = map (\<lambda>i. take (length p - i) p) [0..<Suc (length p)]"

definition push_new :: "'a \<Rightarrow> 'a list \<Rightarrow> 'a list" where
  "push_new candidate out = (if candidate \<in> set out then out else out @ [candidate])"

definition scenario_dir_candidates :: "string list option \<Rightarrow> string list option \<Rightarrow> string list list" where
  "scenario_dir_candidates cwd exe_dir =
     (let bases = (case cwd of Some c \<Rightarrow> take 4 (ancestors c) | None \<Rightarrow> [])
            @ (case exe_dir of Some e \<Rightarrow> take 6 (ancestors e) | None \<Rightarrow> [])
      in fold (\<lambda>base out. push_new (base @ [''lumencast-protocol''] @ SCENARIOS_REL)
            (push_new (base @ SCENARIOS_REL) out)) bases [])"

text \<open>The environment of the process: the protocol repository variable, the working directory, the program.\<close>

record CliEnv =
  ce_repo :: "string list option"
  ce_cwd :: "string list option"
  ce_exe_dir :: "string list option"

definition resolve_scenarios_dir :: "FileSystem \<Rightarrow> CliEnv \<Rightarrow> string list option \<Rightarrow> string + string list" where
  "resolve_scenarios_dir fs env flag = (case flag of
      Some dir \<Rightarrow> if fs_is_dir fs dir then Inr dir
        else Inl (''--scenarios '' @ fs_display fs dir @ '' is not a directory'')
    | None \<Rightarrow> (case ce_repo env of
        Some repo \<Rightarrow>
          (let dir = repo @ SCENARIOS_REL in
           if fs_is_dir fs dir then Inr dir
           else Inl (''LUMENCAST_PROTOCOL_REPO is set but '' @ fs_display fs dir @ '' is not a directory''))
      | None \<Rightarrow>
          (let candidates = scenario_dir_candidates (ce_cwd env) (ce_exe_dir env) in
           case find (fs_is_dir fs) candidates of
             Some dir \<Rightarrow> Inr dir
           | None \<Rightarrow> Inl (''no scenario directory found '' @ em_dash @ '' pass --scenarios, set LUMENCAST_PROTOCOL_REPO, or run from a conventional layout (tried: ''
               @ join_comma (map (fs_display fs) candidates) @ '')''))))"

definition default_tokens :: "string bt" where
  "default_tokens = bt_of [(''$TOKEN_OPERATOR'', ''interop-tok-operator-7f3a''),
     (''$TOKEN_VIEWER'', ''interop-tok-viewer-7f3a''), (''$TOKEN_SERVICE'', ''interop-tok-service-7f3a''),
     (''$TOKEN_TEST'', ''interop-tok-test-7f3a''), (''$TOKEN_INVALID'', ''interop-tok-invalid-7f3a'')]"

definition load_tokens :: "platform \<Rightarrow> FileSystem \<Rightarrow> string list option \<Rightarrow> string + string bt" where
  "load_tokens P fs path = (case path of
      None \<Rightarrow> Inr default_tokens
    | Some p \<Rightarrow> (case fs_read fs p of
        Inl e \<Rightarrow> Inl e
      | Inr bytes \<Rightarrow> (case from_slice_typed P ''BTreeMap'' bytes of
          Inl e \<Rightarrow> Inl e
        | Inr v \<Rightarrow> (case Option.bind (as_object v) (de_entries de_str) of
            None \<Rightarrow> Inl (de_error P ''BTreeMap'' v)
          | Some m \<Rightarrow> Inr (bt_of m)))))"

datatype TagArg = ArgRequired | ArgRecommended | ArgExtended

fun tag_of_arg :: "TagArg \<Rightarrow> Tag" where
  "tag_of_arg ArgRequired = Required"
| "tag_of_arg ArgRecommended = Recommended"
| "tag_of_arg ArgExtended = Extended"

record ConformanceArgs =
  cf_server :: string
  cf_control_url :: "string option"
  cf_scenarios :: "string list option"
  cf_scenario :: "string option"
  cf_tag :: "TagArg list"
  cf_tokens :: "string list option"

definition effective_tags :: "TagArg list \<Rightarrow> Tag list" where
  "effective_tags args = (let tags = map tag_of_arg args in if tags = [] then tags @ [Required] else tags)"

text \<open>The lines \<open>print_report\<close> writes.\<close>

definition outcome_line :: "HarnessOutcome \<Rightarrow> string" where
  "outcome_line out =
     (let tag = (if ho_skipped out then ''SKIP'' else if ho_passed out then ''PASS'' else ''FAIL'') in
      case ho_message out of
        Some m \<Rightarrow> ''[conformance] '' @ tag @ '' '' @ ho_name out @ '' '' @ em_dash @ '' '' @ m
      | None \<Rightarrow> ''[conformance] '' @ tag @ '' '' @ ho_name out)"

definition print_report :: "Report \<Rightarrow> string list" where
  "print_report report =
     (if rp_outcomes report = [] then [''[conformance] no scenarios discovered (passed: 0 / 0)'']
      else map outcome_line (rp_outcomes report) @
        [''[conformance] '' @ show_nat (rp_passed report) @ '' / '' @ show_nat (rp_total report) @ '' passed (''
          @ show_nat (rp_skipped report) @ '' skipped, ''
          @ show_nat (rp_total report - rp_passed report - rp_skipped report) @ '' failed)''])"

definition show_harness_error :: "HarnessError \<Rightarrow> string" where
  "show_harness_error e = (case e of HParse m \<Rightarrow> ''parse: '' @ show_scenario_parse_error m | HDriver m \<Rightarrow> ''driver: '' @ m)"

text \<open>The end of \<open>run_conformance\<close>.\<close>

definition conformance_result :: "Report \<Rightarrow> string + bool" where
  "conformance_result report =
     (if rp_total report = 0 then Inl (''no scenario executed '' @ em_dash @ '' refusing to report success'')
      else Inr (all_passed report))"

definition conformance_config :: "ConformanceArgs \<Rightarrow> string \<Rightarrow> string bt \<Rightarrow> string list \<Rightarrow> HarnessConfig" where
  "conformance_config args control_url tokens dir = \<lparr>hc_target = HServer (cf_server args) control_url,
     hc_tags = effective_tags (cf_tag args), hc_scenario_filter = cf_scenario args, hc_tokens = tokens,
     hc_scenarios = SrcDirectory dir\<rparr>"

definition run_conformance :: "platform \<Rightarrow> FileSystem \<Rightarrow> CliEnv \<Rightarrow> (nat \<Rightarrow> PlayIO) \<Rightarrow> ConformanceArgs
    \<Rightarrow> (string + bool) \<times> string list" where
  "run_conformance P fs env outs args = (case cf_control_url args of
      None \<Rightarrow> (Inl ''--control-url is required for v0.1 (the harness needs the test control plane)'', [])
    | Some control_url \<Rightarrow> (case load_tokens P fs (cf_tokens args) of
        Inl e \<Rightarrow> (Inl e, [])
      | Inr tokens \<Rightarrow> (case resolve_scenarios_dir fs env (cf_scenarios args) of
          Inl e \<Rightarrow> (Inl e, [])
        | Inr dir \<Rightarrow> (case run_harness P fs outs (conformance_config args control_url tokens dir) of
            Inl e \<Rightarrow> (Inl (show_harness_error e), [])
          | Inr (report, _) \<Rightarrow> (conformance_result report, print_report report)))))"

text \<open>\<open>main\<close>'s exit code for the \<open>conformance\<close> command.\<close>

definition exit_code :: "string + bool \<Rightarrow> nat" where
  "exit_code res = (case res of Inr True \<Rightarrow> 0 | Inr False \<Rightarrow> 1 | Inl _ \<Rightarrow> 2)"

section \<open>The server under test\<close>

text \<open>
  \<open>serve-scenario\<close> up to the point where it serves: an LSDP server that shares its authenticator
  with the control plane, and the discovery line. \<open>bind_addr\<close> gives the local address a listener gets.
\<close>

datatype ServeError = ServeBuild ServerError | ServeIo string

definition serve_start :: "platform \<Rightarrow> (string \<Rightarrow> string + string) \<Rightarrow> string \<Rightarrow> nat \<Rightarrow> nat
    \<Rightarrow> ServeError + TestControlState \<times> string" where
  "serve_start P bind_addr host ws_port test_control_port =
     (let auth = auth_new; ws_addr = host @ '':'' @ show_nat ws_port in
      case builder_build (\<lambda>a. map_sum id (\<lambda>_. ()) (bind_addr a))
          (builder_auth (authenticate auth) (builder_listen ws_addr server_builder)) of
        Inl e \<Rightarrow> Inl (ServeBuild e)
      | Inr (_, server) \<Rightarrow> (case bind_addr ws_addr of
          Inl e \<Rightarrow> Inl (ServeIo e)
        | Inr ws_local \<Rightarrow> (case bind_addr (host @ '':'' @ show_nat test_control_port) of
            Inl e \<Rightarrow> Inl (ServeIo e)
          | Inr control_local \<Rightarrow>
              (let ws_url = ''ws://'' @ ws_local @ ''/lsdp.v1''; control_url = ''http://'' @ control_local
               in Inr (\<lparr>tc_server = server, tc_auth = auth, tc_ws_url = ws_url\<rparr>,
                    to_vec P (obj [(''control_url'', JString control_url), (''ws_url'', JString ws_url)]))))))"

text \<open>
  The rest of \<open>serve-scenario\<close>: the discovery line is written before anything is served, and serving
  goes on until a signal the process waits for arrives (\<open>None\<close>: it is still serving). \<open>stdout\<close> says
  whether the line could be written, \<open>registered\<close> whether the \<open>SIGTERM\<close> handler could be installed.
\<close>

record ServeArgs =
  sv_ws_port :: nat
  sv_test_control_port :: nat
  sv_host :: string

definition serve_args_default :: ServeArgs where
  "serve_args_default = \<lparr>sv_ws_port = 0, sv_test_control_port = 0, sv_host = ''127.0.0.1''\<rparr>"

datatype Signal = SigInt | SigTerm

definition wait_for_shutdown :: "bool \<Rightarrow> Signal list \<Rightarrow> bool" where
  "wait_for_shutdown registered arrived =
     (if \<not> registered then SigInt \<in> set arrived else SigInt \<in> set arrived \<or> SigTerm \<in> set arrived)"

definition serve_run :: "platform \<Rightarrow> (string \<Rightarrow> string + string) \<Rightarrow> (string \<Rightarrow> string + unit) \<Rightarrow> bool \<Rightarrow> Signal list
    \<Rightarrow> ServeArgs \<Rightarrow> (ServeError + unit) option \<times> string list" where
  "serve_run P bind_addr stdout registered arrived args =
     (case serve_start P bind_addr (sv_host args) (sv_ws_port args) (sv_test_control_port args) of
        Inl e \<Rightarrow> (Some (Inl e), [])
      | Inr (st, line) \<Rightarrow> (case stdout line of
          Inl e \<Rightarrow> (Some (Inl (ServeIo e)), [])
        | Inr _ \<Rightarrow> (if wait_for_shutdown registered arrived then Some (Inr ()) else None, [line])))"

datatype CliCommand = ServeScenario ServeArgs | ConformanceSuite ConformanceArgs

text \<open>\<open>main\<close>: the exit code, given what starting the runtime and running the command yield.\<close>

definition cli_main :: "string + unit \<Rightarrow> (ServeArgs \<Rightarrow> ServeError + unit) \<Rightarrow> (ConformanceArgs \<Rightarrow> string + bool)
    \<Rightarrow> CliCommand \<Rightarrow> nat" where
  "cli_main runtime serve suite cmd = (case runtime of
      Inl _ \<Rightarrow> 2
    | Inr _ \<Rightarrow> (case cmd of
        ServeScenario args \<Rightarrow> (case serve args of Inr _ \<Rightarrow> 0 | Inl _ \<Rightarrow> 1)
      | ConformanceSuite args \<Rightarrow> exit_code (suite args)))"

text \<open>What a driver that reads the discovery line learns: the two addresses, as JSON.\<close>

lemma discovery_line_reads:
  assumes "json_text_ok P" "serve_run P bind_addr stdout registered arrived args = (res, [line])"
    "bind_addr (sv_host args @ '':'' @ show_nat (sv_ws_port args)) = Inr ws"
    "bind_addr (sv_host args @ '':'' @ show_nat (sv_test_control_port args)) = Inr ctl"
  shows "from_slice P line = Inr (obj [(''control_url'', JString (''http://'' @ ctl)),
    (''ws_url'', JString (''ws://'' @ ws @ ''/lsdp.v1''))])"
proof -
  let ?v = "obj [(''control_url'', JString (''http://'' @ ctl)), (''ws_url'', JString (''ws://'' @ ws @ ''/lsdp.v1''))]"
  have "line = to_vec P ?v"
    using assms(2-4) by (auto simp: serve_run_def serve_start_def Let_def split: sum.splits)
  moreover have "wire_safe ?v" by (simp add: wire_safe_def obj_def bt_wf_Cons)
  ultimately show ?thesis using assms(1) by (simp add: json_text_ok_def)
qed

text \<open>Until the first setup the served process admits nobody and has no scene.\<close>

lemma serve_start_empty:
  assumes "serve_start P bind_addr host ws_port test_control_port = Inr (st, line)"
  shows "authenticate (tc_auth st) token = Inl Denied" "res_status (handle_state st) = 409"
    "server_scene i (tc_server st) = None"
  using assms
  by (auto simp: serve_start_def Let_def builder_build_def builder_auth_def builder_listen_def server_builder_def
      authenticate_def auth_new_def handle_state_def problem_def server_scene_def split: sum.splits)

text \<open>A suite given as texts of documents in the published format loads as the scenarios they describe.\<close>

lemma load_documents:
  assumes "document_reader R W" "\<forall>(name, s) \<in> set docs. scenario_ok s \<and> rd_parse R (show_doc s) = Inr (scenario_node W written s)"
  shows "load_scenarios (reading P R fs) (SrcInline (map (\<lambda>(name, s). (name, show_doc s)) docs)) = Inr (map snd docs)"
  using assms(2)
proof (induction docs)
  case (Cons d docs)
  then have "scenario_parse P R (show_doc (snd d)) = Inr (snd d)"
    using document_reader.scenario_read [OF assms(1)] by (auto simp: scenario_parse_def)
  with Cons show ?case by (auto simp: load_scenarios_def reading_def case_prod_beta split: sum.splits)
qed (simp add: load_scenarios_def)

section \<open>Reports\<close>

text \<open>A scenario counts as passed or skipped.\<close>

definition skipped_or_ok :: "platform \<Rightarrow> HarnessConfig \<Rightarrow> Scenario \<times> PlayIO \<Rightarrow> bool" where
  "skipped_or_ok P config sio \<longleftrightarrow> sn_target (fst sio) = TargetRuntime
     \<or> is_ok (run_scenario P (snd sio) (ht_control_url (hc_target config)) (fst sio) (hc_tokens config))"

lemma harness_step_counts:
  "rp_total (fst (harness_step P url tokens s st)) = rp_total (fst st)"
  "rp_passed (fst (harness_step P url tokens s st)) = rp_passed (fst st)
    + (if sn_target (fst s) \<noteq> TargetRuntime \<and> is_ok (run_scenario P (snd s) url (fst s) tokens) then 1 else 0)"
  "rp_skipped (fst (harness_step P url tokens s st)) = rp_skipped (fst st)
    + (if sn_target (fst s) = TargetRuntime then 1 else 0)"
  "map ho_name (rp_outcomes (fst (harness_step P url tokens s st))) = map ho_name (rp_outcomes (fst st)) @ [sn_name (fst s)]"
  "snd (harness_step P url tokens s st) = snd st
    @ (if sn_target (fst s) \<noteq> TargetRuntime \<and> \<not> is_ok (run_scenario P (snd s) url (fst s) tokens)
       then [url @ ''/test/reset''] else [])"
  by (cases s; cases st; cases "run_scenario P (snd s) url (fst s) tokens"; simp add: harness_step_def)+

lemma harness_fold:
  "rp_total (fst (fold (harness_step P url tokens) ss st)) = rp_total (fst st)"
  "rp_passed (fst (fold (harness_step P url tokens) ss st)) = rp_passed (fst st)
    + length (filter (\<lambda>s. sn_target (fst s) \<noteq> TargetRuntime \<and> is_ok (run_scenario P (snd s) url (fst s) tokens)) ss)"
  "rp_skipped (fst (fold (harness_step P url tokens) ss st)) = rp_skipped (fst st)
    + length (filter (\<lambda>s. sn_target (fst s) = TargetRuntime) ss)"
  "map ho_name (rp_outcomes (fst (fold (harness_step P url tokens) ss st))) =
    map ho_name (rp_outcomes (fst st)) @ map (sn_name \<circ> fst) ss"
  "snd (fold (harness_step P url tokens) ss st) = snd st @ map (\<lambda>_. url @ ''/test/reset'')
    (filter (\<lambda>s. sn_target (fst s) \<noteq> TargetRuntime \<and> \<not> is_ok (run_scenario P (snd s) url (fst s) tokens)) ss)"
  by (induction ss arbitrary: st; simp add: harness_step_counts)+

lemma play_all_counts:
  "rp_total (fst (play_all P config ss)) = length ss"
  "rp_passed (fst (play_all P config ss)) =
    length (filter (\<lambda>s. sn_target (fst s) \<noteq> TargetRuntime \<and> skipped_or_ok P config s) ss)"
  "rp_skipped (fst (play_all P config ss)) = length (filter (\<lambda>s. sn_target (fst s) = TargetRuntime) ss)"
  "map ho_name (rp_outcomes (fst (play_all P config ss))) = map (sn_name \<circ> fst) ss"
  "snd (play_all P config ss) =
    map (\<lambda>_. ht_control_url (hc_target config) @ ''/test/reset'') (filter (\<lambda>s. \<not> skipped_or_ok P config s) ss)"
  by (simp_all add: play_all_def harness_fold skipped_or_ok_def cong: conj_cong)

lemma filter_two_all:
  "length (filter (\<lambda>x. \<not> Q x \<and> R x) xs) + length (filter Q xs) = length xs \<longleftrightarrow> (\<forall>x \<in> set xs. Q x \<or> R x)"
proof (induction xs)
  case (Cons x xs)
  have "length (filter (\<lambda>x. \<not> Q x \<and> R x) xs) + length (filter Q xs) \<le> length xs"
    by (induction xs) auto
  with Cons show ?case by auto
qed simp

lemma play_all_passed: "all_passed (fst (play_all P config ss)) \<longleftrightarrow> list_all (skipped_or_ok P config) ss"
proof -
  have "skipped_or_ok P config s" if "sn_target (fst s) = TargetRuntime" for s
    using that by (simp add: skipped_or_ok_def)
  then show ?thesis
    using filter_two_all [of "\<lambda>s. sn_target (fst s) = TargetRuntime" "skipped_or_ok P config" ss]
    by (auto simp: all_passed_def play_all_counts list_all_iff)
qed

lemma fst_with_outside: "map fst (with_outside outs ss) = ss" "with_outside outs ss = [] \<longleftrightarrow> ss = []"
proof -
  have "map fst (map (\<lambda>(i, s). (s, outs i)) (enumerate n ss)) = ss" for n
    by (induction ss arbitrary: n) auto
  then show "map fst (with_outside outs ss) = ss" by (simp add: with_outside_def)
  then show "with_outside outs ss = [] \<longleftrightarrow> ss = []" by auto
qed

lemma all_ok_iff: "all_ok check fs = Inr () \<longleftrightarrow> (\<forall>f \<in> set fs. check f = Inr ())"
  by (induction fs) (auto split: sum.splits)

section \<open>Properties\<close>

text \<open>
  C34. The exit code of a conformance run is exact. Once the arguments are resolved and the suite is
  loaded, it is 2 when no scenario was selected, 0 when every selected scenario was skipped or
  passed and 1 otherwise; the report names every selected scenario once, in order, and the harness
  asks the server for a reset after exactly the scenarios that failed. Without a control URL, tokens,
  a directory or a readable suite it is 2.
\<close>
theorem conformance_exit_exact:
  "exit_code (fst (run_conformance P fs env outs args)) =
    (case cf_control_url args of None \<Rightarrow> 2
     | Some url \<Rightarrow> (case load_tokens P fs (cf_tokens args) of Inl _ \<Rightarrow> 2
     | Inr tokens \<Rightarrow> (case resolve_scenarios_dir fs env (cf_scenarios args) of Inl _ \<Rightarrow> 2
     | Inr dir \<Rightarrow>
        (let config = conformance_config args url tokens dir in
         case load_scenarios fs (SrcDirectory dir) of Inl _ \<Rightarrow> 2
         | Inr loaded \<Rightarrow>
            (let selected = with_outside outs (filter_scenarios config loaded) in
             if selected = [] then 2 else if list_all (skipped_or_ok P config) selected then 0 else 1)))))
   \<and> map ho_name (rp_outcomes (fst (play_all P config ss))) = map (sn_name \<circ> fst) ss
   \<and> snd (play_all P config ss) =
      map (\<lambda>_. ht_control_url (hc_target config) @ ''/test/reset'') (filter (\<lambda>s. \<not> skipped_or_ok P config s) ss)"
proof -
  have "exit_code (conformance_result r) = (if ss = [] then 2 else if list_all (skipped_or_ok P config) ss then 0 else 1)"
    if "play_all P config ss = (r, posts)" for config ss r posts
  proof -
    have "r = fst (play_all P config ss)" by (simp add: that)
    then show ?thesis by (simp add: exit_code_def conformance_result_def play_all_counts play_all_passed)
  qed
  then show ?thesis
    by (auto simp: run_conformance_def run_harness_def conformance_config_def play_all_counts Let_def
        exit_code_def [of "Inl _"] split: option.splits sum.splits prod.splits)
qed

text \<open>
  A suite in which every selected scenario targets a runtime reports success although the
  harness has run none of them: the guard against vacuous success counts selected scenarios, not
  executed ones.
\<close>
theorem all_skipped_exits_zero:
  assumes "ss \<noteq> []" "list_all (\<lambda>s. sn_target (fst s) = TargetRuntime) ss"
  shows "exit_code (conformance_result (fst (play_all P config ss))) = 0 \<and> rp_passed (fst (play_all P config ss)) = 0"
proof -
  have "list_all (skipped_or_ok P config) ss"
    using assms(2) by (auto simp: list_all_iff skipped_or_ok_def)
  then show ?thesis
    using assms by (auto simp: exit_code_def conformance_result_def play_all_counts play_all_passed list_all_iff)
qed

text \<open>
  The shipped fixtures pass their own test: with any printer and parser that give legal values
  back, every fixture frame survives encoding and decoding.
\<close>
theorem fixtures_round_trip:
  assumes "json_text_ok P"
  shows "round_trips_ok show_err P = Inr ()"
proof -
  have paths: "valid_path ''count''" "valid_path ''__inputs.title''"
  proof -
    have "is_ok (validate_path ''count'')" "is_ok (validate_path ''__inputs.title'')" by code_simp+
    then show "valid_path ''count''" "valid_path ''__inputs.title''" by (simp_all only: validate_path_ok)
  qed
  have wf: "bt_wf [(''count'', JNumber (PosInt 0)), (''title'', JString ''Hello'')]" by code_simp
  have "list_all (\<lambda>f. decode_server P (server_text P f) = Inr f) server_fixtures"
    unfolding server_fixtures_def
    by (simp only: list.pred_inject, intro conjI decode_server_text [OF assms])
      (simp_all add: patch_new_def patch_wf_def patch_safe_def payload_safe_def is_value_legal_def paths jnat_def wf)
  moreover have "list_all (\<lambda>f. decode_client P (client_text P f) = Inr f) client_fixtures"
    unfolding client_fixtures_def
    by (simp only: list.pred_inject, intro conjI decode_client_text [OF assms])
      (simp_all add: patch_new_def patch_wf_def patch_safe_def payload_safe_def is_value_legal_def paths)
  ultimately have "all_ok (round_trip show_err (encode_server P) (decode_server P) server_type_str ''server'') server_fixtures = Inr ()"
    "all_ok (round_trip show_err (encode_client P) (decode_client P) client_type_str ''client'') client_fixtures = Inr ()"
    by (simp_all add: all_ok_iff round_trip_def encode_server_text encode_client_text list_all_iff)
  then show ?thesis by (simp add: round_trips_ok_def)
qed

theorem fixtures_round_trip_witness: "round_trips_ok (\<lambda>_. []) sample_platform = Inr ()"
  by (rule fixtures_round_trip) (rule sample_json_text_ok)

lemma set_push_new: "set (push_new x xs) = insert x (set xs)" "distinct xs \<Longrightarrow> distinct (push_new x xs)"
  by (auto simp: push_new_def)

lemma fold_push_new:
  "set (fold (\<lambda>base out. push_new (g base) (push_new (f base) out)) bases out) =
    set out \<union> (\<Union>base \<in> set bases. {f base, g base})"
  "distinct out \<Longrightarrow> distinct (fold (\<lambda>base out. push_new (g base) (push_new (f base) out)) bases out)"
  by (induction bases arbitrary: out) (auto simp: set_push_new)

text \<open>
  The search for the scenario suite tries no directory twice, and tries it below and beside
  every one of the nearest ancestors of the working directory (four) and of the program (six).
\<close>
theorem scenario_candidates_exact:
  "distinct (scenario_dir_candidates cwd exe_dir) \<and> set (scenario_dir_candidates cwd exe_dir) =
    (\<Union>base \<in> set (case cwd of Some c \<Rightarrow> take 4 (ancestors c) | None \<Rightarrow> []) \<union>
        set (case exe_dir of Some e \<Rightarrow> take 6 (ancestors e) | None \<Rightarrow> []).
      {base @ SCENARIOS_REL, base @ [''lumencast-protocol''] @ SCENARIOS_REL})"
  by (simp add: scenario_dir_candidates_def Let_def fold_push_new Un_commute)

end
