(* ===== verification/Spec2Isabelle.thy ===== *)
theory Spec2Isabelle
  imports Bundle Sequence Joining Event_Stream Live_Updates Registry Serving Harness
begin

text \<open>
  \<^bold>\<open>Lumencast for Rust: the protocol, the server, the client and the conformance tools.\<close>

  Lumencast streams the leaves of \<^emph>\<open>scenes\<close> (a map from dotted paths to JSON values) from a server to
  its subscribers over a WebSocket. The repository holds five crates under \<open>src/crates/\<close>:
  \<open>lumencast-protocol\<close> (frames, codec, paths, bundles, sequence numbers), \<open>lumencast-server\<close> (scenes,
  the registry, the connection handler, adapters, the test control plane), \<open>lumencast-client\<close> (the
  reconnecting subscriber), \<open>lumencast-conformance\<close> (the scenario player) and \<open>lumencast-cli\<close>.

  \<^bold>\<open>How the parts interact.\<close> A program registers scenes with the server (directly or from a bundle) and
  emits updates. A scene applies a batch to its store, takes the next number, records it in the
  replay buffer and broadcasts it. A connection handler reads a \<open>subscribe\<close> frame, authenticates it,
  sends a snapshot (or the replayed deltas when the client resumes), then forwards the broadcast,
  handles the client's \<open>input\<close> and \<open>ping\<close> frames and follows changes of the active scene. The client's
  manager opens a connection, tracks the numbers, passes events on, and reconnects with a backoff
  when it sees a gap or loses the connection.

  \<^bold>\<open>Theories and sources.\<close>
  \<^item> \<open>Prelude\<close>: machine integer types, result type, sorted and hash maps behind the locale
    \<open>string_map\<close>, string splitting and replacement; the collections of simplification rules.
  \<^item> \<open>Json\<close>: the values of \<open>serde_json\<close> and the record \<open>platform\<close> of everything outside the
    repository that the code calls: the JSON printer and parser, the shapes \<open>serde\<close> accepts beyond maps,
    error texts, the display of doubles and SHA-256. Theorems that need something of them assume
    \<open>json_text_ok\<close> (printing a value and parsing it gives it back, for values without floats and below
    the parser's depth limit) or \<open>sha256_ok\<close> (32 bytes). \<open>Sample_Platform\<close> is a concrete platform with a
    verified printer and parser pair on which the witnesses are evaluated.
  \<^item> \<open>Errors\<close>, \<open>Leaf_Path\<close>, \<open>Wire_Types\<close>, \<open>Frames\<close>, \<open>Codec\<close>, \<open>Sequence\<close>, \<open>Bundle\<close>: the files of the same
    names in \<open>lumencast-protocol\<close> (\<open>types.rs\<close> is \<open>Wire_Types\<close>; \<open>envelope.rs\<close> is in \<open>Codec\<close>). The derived
    serde readers and writers are written out field by field.
  \<^item> \<open>Store\<close>, \<open>Replay_Buffer\<close>, \<open>Input_Spec\<close>, \<open>Role_Auth\<close>, \<open>Scene\<close>, \<open>Server\<close>, \<open>Ws_Handler\<close>, \<open>Adapters\<close>,
    \<open>Test_Control\<close>: \<open>store.rs\<close>, \<open>replay_buffer.rs\<close>, \<open>input.rs\<close>, \<open>role.rs\<close> with \<open>auth.rs\<close>, \<open>scene.rs\<close>,
    \<open>server.rs\<close> with \<open>config.rs\<close> and \<open>bundle_route.rs\<close>, \<open>ws_handler.rs\<close>, \<open>adapters/\<close>, \<open>test_control.rs\<close>.
    Scenes are shared, so the server holds references into a heap of scenes.
  \<^item> \<open>Client\<close>: the files of \<open>lumencast-client\<close>; the manager task is a state machine over what its awaits
    yield.
  \<^item> \<open>Delivery\<close>: the two ends put together, from the messages a handler writes to the state a
    consumer of the client's events holds.
  \<^item> \<open>Live_Updates\<close>: everything that writes to a scene (an operator's input, the adapters, the example
    programs) put together with a subscriber, and a subscriber that has fallen behind.
  \<^item> \<open>Tasks\<close>: tasks that share a state and take their steps in any order.
  \<^item> \<open>Interleaving\<close>: emissions that overlap in time, each as its four separately locked steps.
  \<^item> \<open>Registry\<close>: the operations of \<open>ServerHandle\<close> called at the same time, each as the accesses it makes.
  \<^item> \<open>Serving\<close>: the bound \<open>Server\<close> of \<open>server.rs\<close> with its listener, and \<open>tls.rs\<close>.
  \<^item> \<open>Joining\<close>: a subscriber that joins a scene while a writer emits, each look the handler takes at
    the scene a step of its own, in the order of the handshake and in the order of a swap.
  \<^item> \<open>Event_Stream\<close>: \<open>EventStream\<close> and the handle of the client, down to a consumer that falls behind.
  \<^item> \<open>Conformance\<close>, \<open>Scenario_Reader\<close>, \<open>Player\<close>, \<open>Harness\<close>: \<open>placeholders.rs\<close>, \<open>scenario.rs\<close>, \<open>player.rs\<close>,
    \<open>control.rs\<close>, \<open>harness.rs\<close>, \<open>local.rs\<close> and the decisions of \<open>main.rs\<close> and \<open>serve.rs\<close> of the command line.
    The derived readers of a scenario are visitors over what a deserializer presents.
  \<^item> \<open>Control_Wire\<close>: the routers of both listeners, and the control client of the conformance crate
    talking to the control plane of the server through them.
  \<^item> \<open>Example_Servers\<close>: the programs under \<open>src/examples/\<close>.
  \<^item> This theory: the properties that span components.

  \<^bold>\<open>How effects are modelled.\<close> Fallible code returns a sum with the error on the left. A task is a
  function or step relation over explicit state; what its awaits yield (messages, timeouts, other
  tasks' changes of the server) is an argument, so the theorems hold for every behaviour of the
  outside and every interleaving at the await points. A socket has a budget of writes, so that every
  send can fail. \<open>u64\<close> and \<open>u32\<close> values are words; a theorem about a run of numbered frames assumes that
  the counter does not pass \<open>2 ^ 64\<close>, where it would wrap. Strings are lists of bytes, instants and
  durations natural numbers.

  \<^bold>\<open>Interfaces.\<close> \<open>string_map\<close> (both maps), \<open>token_registry\<close> (the token table), \<open>layout_walk\<close> (the two
  worklist validations of bundles), \<open>frame_codec\<close> (both directions of the wire),
  \<open>connection_invariant\<close> (what every write of a connection keeps), \<open>scene_writer\<close> (whatever changes a scene by
  its steps; the adapters, the example programs and the input handler are its instances) and
  \<open>document_reader\<close> (what the scenario readers need of a deserializer) are locales interpreted on the
  model's definitions.

  \<^bold>\<open>What is shown.\<close>
  \<^item> Delivery: a subscriber converges to the scene (\<open>client_converges\<close>), a resumed one gets exactly what
    it missed (\<open>resume_exact\<close>), one that fell behind is closed and comes back
    (\<open>lagged_subscriber_recovers\<close>), a swap carries it over (\<open>scene_swap_followed\<close>), an operator's input and
    the documents of a feed reach it whole (\<open>input_reaches_subscribers\<close>, \<open>feed_reaches_subscribers\<close>), the client never delivers
    around a gap (\<open>client_delivers_contiguously\<close>, \<open>tracker_no_silent_loss\<close>), and a consumer that lost
    events is right again at the next snapshot (\<open>snapshot_recovers_consumer\<close>).
  \<^item> Writes: batches are atomic (\<open>emit_all_or_nothing\<close>, \<open>control_emit_all_or_nothing\<close>,
    \<open>payload_all_or_nothing\<close>), input frames pass every check or change nothing
    (\<open>input_frame_all_or_nothing\<close>), and reach no further than the role (\<open>text_frame_confined\<close>).
  \<^item> Connections: nothing leaves before authentication (\<open>open_gate\<close>), everything written is well typed
    (\<open>connection_output_typed\<close>), every exit closes (\<open>connection_closes_cleanly\<close>), the rate limit is exact.
  \<^item> Data: the grammar of paths, frame, bundle and control-plane round trips, exact validation of
    layouts and input constraints, content addressing.
  \<^item> Client liveness and termination: \<open>client_recovers\<close> and \<open>retries_exhausted\<close>.
  \<^item> Conformance tools: matching is the declarative relation, scenarios read back (\<open>scenario_roundtrip\<close>),
    a passing run met every assertion, a session over the control plane reads back what it set up and
    emitted (\<open>control_session\<close>), the exit code is exact.
  \<^item> Concurrency: overlapping emissions lose, repeat and tear nothing (\<open>overlapping_emits_lose_nothing\<close>)
    and commute when they write different leaves (\<open>disjoint_emits_converge\<close>), but writers of one leaf can
    leave subscribers with a value the scene no longer has (\<open>overlapping_emits_diverge\<close>), and any writers
    can broadcast in the order opposite to their numbers (\<open>overlapping_emits_reorder\<close>). A subscriber
    can join or resume in the middle of anything a writer does (\<open>late_join_converges\<close>; the race always
    ends, \<open>race_finishes\<close>); on a scene swap, where the handler subscribes last, it can lose a delta
    (\<open>swap_join_loses_delta\<close>). Concurrent callers of the registry keep handles and the bundle route right
    (\<open>registry_race_invariant\<close>), but can both register one id (\<open>racing_registrations_orphan\<close>) or leave an
    active scene that is not registered (\<open>clear_race_dangling_active\<close>).
  \<^item> Examples: the feed rotates over its metrics and the scoreboard keeps score (\<open>feed_round_robin\<close>,
    \<open>scoreboard_exact\<close>).
  \<^item> Four theorems below are about what goes wrong: \<open>second_subscriber_gap\<close>, \<open>current_error_dropped\<close>,
    \<open>error_hides_delta\<close> and \<open>object_default_unservable\<close>; \<open>feed_spins_when_channel_closed\<close>, \<open>set_token_during_delay_lost\<close> and
    \<open>all_skipped_exits_zero\<close> are others, in their components.

  \<^bold>\<open>Bounds and loops.\<close> No definition that models code takes fuel. The worklist walks over layouts recurse on the size
  of what is left, the matcher on the expected value, task loops on the list of what they are fed;
  a loop that has run out of input is still waiting, which is a value of its own.

  \<^bold>\<open>Not modelled.\<close> The HTTP stack and the upgrades of axum, rustls (an argument in \<open>Serving\<close>), tokio's
  channels beyond what a receiver yields, logging, clap's argument parsing and the text level of YAML are
  calls of libraries outside the repository. Conversions of the newtypes over strings (\<open>new\<close>, \<open>as_str\<close>,
  \<open>From\<close>, \<open>Display\<close>) are the identity here. Outside \<open>Interleaving\<close>, \<open>Joining\<close> and \<open>Registry\<close>, each operation
  of a scene and of the registry is one atomic step, although
  the code updates the store, the counter, the replay buffer and the broadcast one after the other
  without a common lock, and the handling of a swap is one step although it awaits between its looks
  at the scenes (\<open>Joining\<close> takes these apart); the other end-to-end theorems are about scenes whose emissions do not overlap.
  The jitter of the client's backoff is an argument. Floating point values are carried as bit patterns
  and compared as the numbers they stand for (\<open>f64_key_value\<close>), but their text is left to the platform. The tests of the
  repository are not modelled.
\<close>

section \<open>From a scene to a client\<close>

text \<open>
  C1. End to end convergence. A client subscribes with a token the server accepts to a scene that
  is not rejected; the scene then goes through any \<open>n\<close> steps, and the connection's broadcast
  receiver yields what the scene sent in them. Then the connection is still up, and the client that
  reads the texts it wrote is in its drive loop with the scene's number as its baseline, and the
  consumer of its events holds exactly the scene's current state.
\<close>
theorem client_converges:
  assumes "json_text_ok P"
    and client: "sub = \<lparr>subscribe_token = ms_token st, subscribe_scene = ms_scene st,
      subscribe_session = ms_session st, subscribe_since_sequence = None\<rparr>"
      "first = Some (Some (Inr (MText (client_text P (subscribe_frame (ms_token st) (ms_scene st) (ms_session st))))))"
    and server: "auth (ms_token st) = Inr identity" "resolve_scene srv sub = Some r"
      "sc_rejection (scene_at srv r) = None" "cn_budget conn = None" "cn_out conn = []"
    and scene: "scene_wf (scene_at srv r)" "state_servable (scene_at srv r)" "sc_seq (scene_at srv r) \<noteq> 0"
      "state_transportable (scene_at srv r)"
    and steps: "(scene_step ^^ n) (scene_at srv r) t" "unat (sc_seq (scene_at srv r)) + n < 2 ^ 64"
      "list_all delta_transportable (sc_sent t)"
    and inputs: "map (\<lambda>(_, _, _, ev). ev) evs =
      map (\<lambda>d. FromDeltas (RxOk d)) (drop (length (sc_sent (scene_at srv r))) (sc_sent t))"
  shows "\<exists>w'. handle_connection P auth env first evs (srv, conn) = (None, w') \<and>
    (let mg = manager_run P scale (client_inputs P (message_texts (cn_out (snd w')))) (manager_start st) in
      mg_phase mg = Driving \<lparr>tracker_last = sc_seq t\<rparr> \<and> client_view (mg_events mg) = scene_state t)"
  using assms by (intro connection_serves_client) (simp_all add: manager_start_def start_attempt_def)

definition plain_server :: Server where
  "plain_server = snd (new_scene_with_version ''main'' ''v'' (server_init sample_config))"

definition plain_connection :: Connection where
  "plain_connection = connection_new plain_server sample_env None []"

lemma plain_scene: "scene_at plain_server 0 = scene_new ''main'' ''v''" "server_scene ''main'' plain_server = Some 0"
    "srv_active plain_server = Some ''main''"
  by (simp_all add: plain_server_def new_scene_with_version_def add_scene_def server_init_def Let_def
      server_scene_def scene_new_def)

lemma plain_conn: "cn_budget plain_connection = None" "cn_out plain_connection = []"
  by (simp_all add: plain_connection_def connection_new_def)

lemma new_scene_fields: "sc_seq (scene_new i v) = 1" "sc_sent (scene_new i v) = []" "sc_rejection (scene_new i v) = None"
  by (simp_all add: scene_new_def)

lemma plain_state: "scene_state (scene_new i v) = []"
  by (simp add: scene_state_def scene_new_def store_snapshot_def store_new_def)

theorem client_converges_witness:
  "let t = snd (scene_set ''score'' (jnat 3) (scene_new ''main'' ''v'')) in
   \<exists>w'. handle_connection sample_platform (\<lambda>_. Inr sample_operator) sample_env
     (Some (Some (Inr (MText (client_text sample_platform (subscribe_frame ''tok'' None None))))))
     [(sample_env, sample_env, \<lambda>s. s, FromDeltas (RxOk (hd (sc_sent t))))] (plain_server, plain_connection) = (None, w')
     \<and> client_view (mg_events (manager_run sample_platform (\<lambda>b. b)
         (client_inputs sample_platform (message_texts (cn_out (snd w')))) (manager_start sample_manager_state))) = scene_state t"
proof -
  let ?s = "scene_new ''main'' ''v''"
  let ?t = "snd (scene_set ''score'' (jnat 3) ?s)"
  have path: "leaf_path_parse ''score'' = Inr ''score''" by code_simp
  have sent: "sc_sent ?t = [\<lparr>dp_seq = 2, dp_patches = [patch_new ''score'' (jnat 3)], dp_cause = None\<rparr>]"
    by (simp add: scene_set_def path check_leaf_value_def jnat_def Let_def advance_seq_def scene_new_def)
  have steps: "(scene_step ^^ 1) (scene_at plain_server 0) ?t"
    by (auto simp: relcompp_apply plain_scene intro: step_set)
  let ?first = "Some (Some (Inr (MText (client_text sample_platform (subscribe_frame ''tok'' None None)))))"
  have "scene_wf ?s" by (rule scene_wf_new)
  moreover have "payload_safe (jnat 3)" by (simp add: payload_safe_def jnat_def)
  then have "delta_transportable (hd (sc_sent ?t))" by (simp add: sent patch_new_def)
  ultimately show ?thesis
    using client_converges [OF sample_json_text_ok, where st = sample_manager_state and n = 1 and r = 0
        and sub = sample_subscribe and first = ?first and auth = "\<lambda>_. Inr sample_operator" and srv = plain_server
        and conn = plain_connection and t = ?t and scale = "\<lambda>b. b" and env = sample_env
        and evs = "[(sample_env, sample_env, \<lambda>s. s, FromDeltas (RxOk (hd (sc_sent ?t))))]"] steps
    by (auto simp: plain_scene plain_conn plain_state sent sample_manager_state_def sample_subscribe_def
        resolve_scene_def new_scene_fields Let_def)
qed

text \<open>
  C4. A subscriber that falls behind recovers. When the broadcast receiver of a connection has lost deltas
  or server events, the handler writes exactly two messages, a recoverable \<open>INTERNAL\<close> error frame that
  says which stream lagged, and a normal close; whatever number the client had reached, and whether
  it takes the error, drops it or sees a gap in it, it opens again. The new connection then carries it
  to the scene's state like the first one.
\<close>
theorem lagged_subscriber_recovers:
  assumes "json_text_ok P"
    and lag: "cn_budget conn = None" "ev = FromDeltas (RxLagged k) \<or> ev = FromEvents (RxLagged k)"
      "mg_phase mg = Driving tracker" "mg_state mg = st"
    and client: "sub = \<lparr>subscribe_token = ms_token st, subscribe_scene = ms_scene st,
      subscribe_session = ms_session st, subscribe_since_sequence = None\<rparr>"
      "first = Some (Some (Inr (MText (client_text P (subscribe_frame (ms_token st) (ms_scene st) (ms_session st))))))"
    and server: "auth (ms_token st) = Inr identity" "resolve_scene srv' sub = Some r"
      "sc_rejection (scene_at srv' r) = None" "cn_budget conn' = None" "cn_out conn' = []"
    and scene: "scene_wf (scene_at srv' r)" "state_servable (scene_at srv' r)" "sc_seq (scene_at srv' r) \<noteq> 0"
      "state_transportable (scene_at srv' r)"
    and steps: "(scene_step ^^ n) (scene_at srv' r) t" "unat (sc_seq (scene_at srv' r)) + n < 2 ^ 64"
      "list_all delta_transportable (sc_sent t)"
    and inputs: "map (\<lambda>(_, _, _, ev). ev) evs' =
      map (\<lambda>d. FromDeltas (RxOk d)) (drop (length (sc_sent (scene_at srv' r))) (sc_sent t))"
  shows "\<exists>w w' text e. run_loop P ((env, env1, others, ev) # evs) rs (srv, conn) = (Some (Inr ()), w)
    \<and> cn_out (snd w) = cn_out conn @ [MText text, MClose (Some (1000, []))]
    \<and> decode_server P text = Inr (FError e) \<and> error_code e = Internal \<and> error_recoverable e
    \<and> error_message e = (if ev = FromDeltas (RxLagged k) then ''delta stream lagged'' else ''server event stream lagged'')
    \<and> handle_connection P auth env' first evs' (srv', conn') = (None, w')
    \<and> (let mg' = manager_run P scale (map yielded (drop (length (cn_out conn)) (cn_out (snd w)))
          @ client_inputs P (message_texts (cn_out (snd w')))) mg in
      mg_phase mg' = Driving \<lparr>tracker_last = sc_seq t\<rparr> \<and> client_view (mg_events mg') = scene_state t)"
proof -
  obtain w e where w: "run_loop P ((env, env1, others, ev) # evs) rs (srv, conn) = (Some (Inr ()), w)"
    "cn_out (snd w) = cn_out conn @ [MText (server_text P (FError e)), MClose (Some (1000, []))]"
    and e: "error_code e = Internal" "error_recoverable e"
      "error_message e = (if ev = FromDeltas (RxLagged k) then ''delta stream lagged'' else ''server event stream lagged'')"
    using lagged_loop [OF lag(1,2)] by metis
  have told: "decode_server P (server_text P (FError e)) = Inr (FError e)"
    using assms(1) by (intro decode_server_text) simp_all
  let ?mg = "manager_run P scale (map yielded (drop (length (cn_out conn)) (cn_out (snd w)))) mg"
  have "mg_phase ?mg = Opening 1" using closed_client_reopens [OF lag(3)] by (simp add: w(2))
  from connection_serves_client [where P = P and auth = auth, OF assms(1) client server scene steps inputs this]
  obtain w' where "handle_connection P auth env' first evs' (srv', conn') = (None, w')"
    "let mg' = manager_run P scale (client_inputs P (message_texts (cn_out (snd w')))) ?mg in
      mg_phase mg' = Driving \<lparr>tracker_last = sc_seq t\<rparr> \<and> client_view (mg_events mg') = scene_state t"
    by blast
  with w e told show ?thesis
    by (intro exI [of _ w] exI [of _ w'] exI [of _ "server_text P (FError e)"] exI [of _ e]) (simp add: manager_run_def)
qed

theorem lagged_subscriber_recovers_witness:
  "\<exists>w w' text e. run_loop sample_platform [(sample_env, sample_env, \<lambda>s. s, FromDeltas (RxLagged 3))]
      \<lparr>run_current = 0, run_identity = sample_operator, run_rx = 0\<rparr> (plain_server, plain_connection) = (Some (Inr ()), w)
    \<and> cn_out (snd w) = [MText text, MClose (Some (1000, []))]
    \<and> decode_server sample_platform text = Inr (FError e) \<and> error_message e = ''delta stream lagged''
    \<and> handle_connection sample_platform (\<lambda>_. Inr sample_operator) sample_env
        (Some (Some (Inr (MText (client_text sample_platform (subscribe_frame ''tok'' None None)))))) []
        (plain_server, plain_connection) = (None, w')
    \<and> client_view (mg_events (manager_run sample_platform (\<lambda>b. b)
        (map yielded (cn_out (snd w)) @ client_inputs sample_platform (message_texts (cn_out (snd w'))))
        (viewer_of (scene_new ''old'' ''v'')))) = []"
proof -
  let ?first = "Some (Some (Inr (MText (client_text sample_platform (subscribe_frame ''tok'' None None)))))"
  have "(scene_step ^^ 0) (scene_at plain_server 0) (scene_new ''main'' ''v'')" by (simp add: plain_scene)
  then show ?thesis
    using lagged_subscriber_recovers [OF sample_json_text_ok plain_conn(1) _ viewer_in_step(1) [of "scene_new ''old'' ''v''"],
        where k = 3 and ev = "FromDeltas (RxLagged 3)" and st = sample_manager_state and n = 0 and r = 0
        and sub = sample_subscribe and first = ?first and auth = "\<lambda>_. Inr sample_operator" and srv' = plain_server
        and conn' = plain_connection and t = "scene_new ''main'' ''v''" and scale = "\<lambda>b. b" and env' = sample_env
        and evs' = "[]" and srv = plain_server and env = sample_env and ?env1.0 = sample_env and others = "\<lambda>s. s" and evs = "[]"
        and rs = "\<lparr>run_current = 0, run_identity = sample_operator, run_rx = 0\<rparr>"]
      scene_wf_new [of "''main''" "''v''"]
    by (auto simp: plain_scene plain_conn plain_state sample_manager_state_def sample_subscribe_def
        resolve_scene_def new_scene_fields viewer_of_def Let_def simp del: run_loop.simps)
qed

section \<open>Scene swaps\<close>

text \<open>
  C12. A scene swap carries the client over. When the active scene changes and a connection handles
  the event, a client that was up to date with the old scene takes the scene change and the snapshot
  behind it: it ends up with the new scene's number as its baseline (not with 1, which the frames
  document for the first snapshot after a change) and the new scene's state.
\<close>
theorem scene_swap_followed:
  assumes "json_text_ok P" "server_scene i srv = Some new" "new \<noteq> run_current rs" "cn_budget conn = None"
    "sc_seq (scene_at srv (run_current rs)) \<noteq> 0" "Suc (unat (sc_seq (scene_at srv (run_current rs)))) < 2 ^ 64"
    "state_servable (scene_at srv new)" "state_transportable (scene_at srv new)" "sc_seq (scene_at srv new) \<noteq> 0"
    "mg_phase mg = Driving \<lparr>tracker_last = sc_seq (scene_at srv (run_current rs))\<rparr>"
  shows "\<exists>w' texts. on_scene_swap P env env' i rs (srv, conn) =
      (Running (rs\<lparr>run_current := new, run_rx := new\<rparr>), w')
    \<and> message_texts (cn_out (snd w')) = message_texts (cn_out conn) @ texts
    \<and> (let mg' = manager_run P scale (map (\<lambda>t. SocketYielded (Some (Inr (CmText t)))) texts) mg in
        mg_phase mg' = Driving \<lparr>tracker_last = sc_seq (scene_at srv new)\<rparr>
        \<and> client_view (mg_events mg') = scene_state (scene_at srv new))"
proof -
  let ?seq = "sc_seq (scene_at srv (run_current rs)) + 1"
  have "scene_at (advanced (run_current rs) srv) new = scene_at srv new"
    using assms(3) by (simp add: update_scene_def)
  moreover have "unat ?seq = Suc (unat (sc_seq (scene_at srv (run_current rs))))"
    using assms(6) by (rule unat_add_one)
  ultimately show ?thesis
    using scene_swap_writes [OF assms(2,4) refl, of P env env']
      client_follows_swap [OF assms(1,10,5) _ assms(7-9), of ?seq scale env env']
    by (intro exI conjI) auto
qed

definition two_scene_server :: Server where
  "two_scene_server = snd (new_scene_with_version ''next'' ''v'' plain_server)"

lemma two_scenes: "scene_at two_scene_server 0 = scene_new ''main'' ''v''"
    "scene_at two_scene_server (Suc 0) = scene_new ''next'' ''v''" "server_scene ''next'' two_scene_server = Some (Suc 0)"
  by (simp_all add: two_scene_server_def plain_server_def new_scene_with_version_def add_scene_def
      server_init_def Let_def server_scene_def scene_new_def)

definition driving_at :: "u64 \<Rightarrow> Manager" where
  "driving_at n = \<lparr>mg_state = sample_manager_state, mg_phase = Driving \<lparr>tracker_last = n\<rparr>,
     mg_events = [EvStatus Live], mg_replies = []\<rparr>"

definition sample_run :: RunState where
  "sample_run = \<lparr>run_current = 0, run_identity = sample_operator, run_rx = 0\<rparr>"

theorem scene_swap_followed_witness:
  "\<exists>w'. on_scene_swap sample_platform sample_env sample_env ''next'' sample_run
     (two_scene_server, plain_connection) = (Running (sample_run\<lparr>run_current := Suc 0, run_rx := Suc 0\<rparr>), w')"
  using scene_swap_followed [OF sample_json_text_ok two_scenes(3), of sample_run plain_connection "driving_at 1"
      sample_env sample_env "\<lambda>b. b"]
  by (auto simp: sample_run_def two_scenes plain_conn new_scene_fields driving_at_def plain_state)

text \<open>
  C40. With two subscribers a swap costs the second one its connection. Each connection advances the
  old scene's counter itself, so the second connection's scene change is numbered two past what its
  client holds: the client sees a gap, drops the frame and reconnects.
\<close>
theorem second_subscriber_gap:
  assumes "json_text_ok P" "server_scene i srv = Some new" "cn_budget conn1 = None" "cn_budget conn2 = None"
    "run_current rs1 = old" "run_current rs2 = old" "old < length (srv_heap srv)"
    "sc_seq (scene_at srv old) \<noteq> 0" "Suc (Suc (unat (sc_seq (scene_at srv old)))) < 2 ^ 64"
    "mg_phase mg = Driving \<lparr>tracker_last = sc_seq (scene_at srv old)\<rparr>"
  shows "let srv1 = fst (snd (on_scene_swap P env1 env1' i rs1 (srv, conn1)));
      w2 = snd (on_scene_swap P env2 env2' i rs2 (srv1, conn2)) in
    \<exists>text rest. message_texts (cn_out (snd w2)) = message_texts (cn_out conn2) @ text # rest
      \<and> manager_step P scale (SocketYielded (Some (Inr (CmText text)))) mg = start_attempt 1 mg"
proof -
  let ?srv1 = "advanced old srv"
  have seq: "sc_seq (scene_at ?srv1 old) = sc_seq (scene_at srv old) + 1"
    and found: "server_scene i ?srv1 = Some new"
    using assms(2,7) by (simp_all add: update_scene_def server_scene_def)
  have "unat (sc_seq (scene_at srv old) + 1 + 1) = Suc (Suc (unat (sc_seq (scene_at srv old))))"
    using unat_add_one [of "sc_seq (scene_at srv old)"] unat_add_one [of "sc_seq (scene_at srv old) + 1"] assms(9)
    by linarith
  then have gap: "handle_frame (changed_frame env2 (scene_at (advanced old ?srv1) new) (sc_seq (scene_at srv old) + 1 + 1))
      \<lparr>tracker_last = sc_seq (scene_at srv old)\<rparr> evs =
      (Inl Gap, \<lparr>tracker_last = sc_seq (scene_at srv old)\<rparr>, evs)" for evs
    using assms(8) by (simp add: handle_frame_def observe_seq_cases)
  have "manager_step P scale (SocketYielded (Some (Inr (CmText (server_text P (changed_frame env2
      (scene_at (advanced old ?srv1) new) (sc_seq (scene_at srv old) + 1 + 1))))))) mg = start_attempt 1 mg"
    using assms(10) changed_decodes [OF assms(1)] gap by (simp add: manager_step_def on_drive_socket_def)
  then show ?thesis
    using scene_swap_writes [OF assms(2,3,5), of P env1 env1'] scene_swap_writes [OF found assms(4,6), of P env2 env2'] seq
    by (auto simp: Let_def)
qed

theorem second_subscriber_gap_witness:
  "mg_phase (start_attempt 1 (driving_at 1)) = Opening 1 \<and>
   (let srv1 = fst (snd (on_scene_swap sample_platform sample_env sample_env ''next'' sample_run
        (two_scene_server, plain_connection)));
      w2 = snd (on_scene_swap sample_platform sample_env sample_env ''next'' sample_run (srv1, plain_connection)) in
    \<exists>text rest. message_texts (cn_out (snd w2)) = text # rest
      \<and> manager_step sample_platform (\<lambda>b. b) (SocketYielded (Some (Inr (CmText text)))) (driving_at 1)
        = start_attempt 1 (driving_at 1))"
proof -
  have "0 < length (srv_heap two_scene_server)"
    by (simp add: two_scene_server_def new_scene_with_version_def plain_server_def server_init_def add_scene_def Let_def)
  then show ?thesis
    using second_subscriber_gap [OF sample_json_text_ok two_scenes(3) plain_conn(1) plain_conn(1),
        of sample_run 0 sample_run "driving_at 1" sample_env sample_env sample_env sample_env "\<lambda>b. b"]
    by (simp add: sample_run_def two_scenes new_scene_fields driving_at_def plain_conn start_attempt_def Let_def)
qed

section \<open>Error frames\<close>

text \<open>
  An error frame never reaches the consumer of a client that is up to date. The server sends it
  with the scene's current number, which such a client has already seen, so the client's tracker
  drops it as a duplicate and nothing of the client changes.
\<close>
theorem current_error_dropped:
  assumes "json_text_ok P" "cn_budget conn = None" "cn_scene conn = Some r"
    "sc_seq (scene_at srv r) \<noteq> 0" "mg_phase mg = Driving \<lparr>tracker_last = sc_seq (scene_at srv r)\<rparr>"
  shows "\<exists>text. message_texts (cn_out (snd (snd
        (send_error_with_path P env code message recoverable path (srv, conn)))))
      = message_texts (cn_out conn) @ [text]
    \<and> manager_step P scale (SocketYielded (Some (Inr (CmText text)))) mg = mg"
proof -
  let ?f = "error_frame env code message recoverable path (srv, conn)"
  have "decode_server P (server_text P ?f) = Inr ?f"
    using assms(1) by (intro decode_server_text) (simp_all add: error_frame_def)
  then have "manager_step P scale (SocketYielded (Some (Inr (CmText (server_text P ?f))))) mg = mg"
    using assms(3-5) by (cases mg) (simp add: manager_step_def on_drive_socket_def handle_frame_def
        observe_seq_cases error_frame_def current_seq_def)
  then show ?thesis
    using assms(2) by (intro exI conjI) (auto simp: send_error_with_path_eq ws_send_unbounded)
qed

theorem current_error_dropped_witness:
  "\<exists>text. manager_step sample_platform (\<lambda>b. b) (SocketYielded (Some (Inr (CmText text)))) (driving_at 1) = driving_at 1"
  using current_error_dropped [OF sample_json_text_ok, of "plain_connection\<lparr>cn_scene := Some 0\<rparr>" 0 plain_server
      "driving_at 1" sample_env Internal "[]" True None "\<lambda>b. b"]
  by (auto simp: plain_conn plain_scene new_scene_fields driving_at_def)

section \<open>From the control plane to a client\<close>

lemma prepared_scene:
  "scene_wf (prepare_scene P req bd (scene_new i v))"
  "sc_seq (prepare_scene P req bd (scene_new i v)) = 1" "sc_sent (prepare_scene P req bd (scene_new i v)) = []"
  using scene_wf_new [of i v]
  by (simp_all add: scene_wf_def prepare_scene_def Let_def scene_reject_def with_operator_inputs_def
      scene_seed_def scene_new_def split: option.splits sum.splits)

lemma prepared_rejection:
  "sc_rejection (prepare_scene P req bd (scene_new i v)) = None \<longleftrightarrow>
    (case Option.bind (stb_inline bd) (\<lambda>v. jget v ''layout'') of
       None \<Rightarrow> True | Some layout \<Rightarrow> is_ok (check_zab_capture_nodes layout))"
  by (simp add: prepare_scene_def Let_def scene_reject_def with_operator_inputs_def scene_seed_def scene_new_def
      split: option.splits sum.splits)

text \<open>
  C38. An error frame can make a client lose a delta for good. The main loop looks at the socket before the
  broadcast, so a refused input can be answered while a delta of the scene is still waiting to be
  forwarded. The error then carries the delta's number: a client that tracks numbers takes the error
  as the next frame and the delta behind it as a duplicate. It stays in its drive loop at the scene's
  number, without a gap, and never holds what the delta wrote.
\<close>
theorem error_hides_delta:
  assumes "json_text_ok P"
    and input: "decode_client P text = Inr (CInput input)" "\<not> input_accepted P env input (run_current rs) (run_identity rs) (srv, conn)"
    and conn: "cn_budget conn = None" "cn_scene conn = Some (run_current rs)"
    and scene: "scene_wf s" "sc_seq s \<noteq> 0" "Suc (unat (sc_seq s)) < 2 ^ 64" "emit_with_cause ps cause s = (Inr (), t)"
      "scene_at srv (run_current rs) = t" "scene_state t \<noteq> scene_state s" "list_all (\<lambda>(_, v). payload_safe v) ps"
    and client: "mg_phase mg = Driving \<lparr>tracker_last = sc_seq s\<rparr>" "client_view (mg_events mg) = scene_state s"
  shows "\<exists>w' texts. run_loop P [(env, env', \<lambda>s. s, FromSocket (Some (Inr (MText text)))),
        (env1, env2, \<lambda>s. s, FromDeltas (RxOk (last (sc_sent t))))] rs (srv, conn) = (None, w')
    \<and> message_texts (cn_out (snd w')) = message_texts (cn_out conn) @ texts
    \<and> (let mg' = manager_run P scale (map (\<lambda>x. SocketYielded (Some (Inr (CmText x)))) texts) mg in
        mg_phase mg' = Driving \<lparr>tracker_last = sc_seq t\<rparr> \<and> client_view (mg_events mg') = scene_state s
        \<and> client_view (mg_events mg') \<noteq> scene_state t)"
proof -
  obtain conn1 code msg path where refused: "handle_text_frame P env text (run_current rs) (run_identity rs) (srv, conn) =
      (Inr Continue, (srv, conn1))" "cn_budget conn1 = None"
      "cn_out conn1 = cn_out conn @ [MText (server_text P (error_frame env code msg True path (srv, conn)))]"
    using input_refused_frame [OF input, simplified, OF conn(1)] by blast
  have ps: "legal_updates ps" "ps \<noteq> []"
    using scene(4,6) parse_patches_cases [of ps] by (auto simp: emit_eq split: if_splits)
  define rc where "rc = next_record (map (\<lambda>(path, v). patch_new path v) ps) cause s"
  have t: "t = commit rc s" using emit_commits [OF ps, of cause s] scene(4) by (simp add: rc_def)
  have hist: "history s [rc] t" unfolding t rc_def by (rule emit_history [OF scene(1) ps(1) scene(3)])
  have d: "last (sc_sent t) = payload rc" "dp_seq (payload rc) = sc_seq t" "unat (sc_seq t) = Suc (unat (sc_seq s))"
    using hist by (simp_all add: history_def) (simp add: t commit_def payload_def)
  have "list_all delta_transportable (map payload [rc])"
    using scene(7) by (auto simp: rc_def payload_def next_record_def patch_new_def list_all_iff case_prod_beta)
  then have delta: "decode_server P (server_text P (payload_frame (payload rc))) = Inr (payload_frame (payload rc))"
    using records_decode [OF assms(1), of "[rc]"] hist by (simp add: history_def)
  obtain e where e: "error_frame env code msg True path (srv, conn) = FError e" "error_seq e = sc_seq t"
    using conn(2) scene(5) by (simp add: error_frame_def current_seq_def)
  have "decode_server P (server_text P (FError e)) = Inr (FError e)"
    using assms(1) by (intro decode_server_text) simp_all
  then have run: "manager_run P scale (map (\<lambda>x. SocketYielded (Some (Inr (CmText x))))
      [server_text P (FError e), server_text P (payload_frame (payload rc))]) mg =
      mg\<lparr>mg_events := mg_events mg @ [EvError e], mg_phase := Driving \<lparr>tracker_last = sc_seq t\<rparr>\<rparr>"
    using error_then_delta [OF assms(1) client(1) scene(2) _ _ _ delta, of e scale] d e(2) by simp
  obtain w' where w': "run_loop P [(env1, env2, \<lambda>s. s, FromDeltas (RxOk (payload rc)))] rs (srv, conn1) = (None, w')"
    "cn_out (snd w') = cn_out conn1 @ [MText (server_text P (payload_frame (payload rc)))]"
    using loop_one_delta [OF refused(2)] by metis
  have "run_loop P [(env, env', \<lambda>s. s, FromSocket (Some (Inr (MText text)))),
      (env1, env2, \<lambda>s. s, FromDeltas (RxOk (last (sc_sent t))))] rs (srv, conn) = (None, w')"
    unfolding d(1) using w'(1) refused(1)
    by (subst run_loop.simps(2)) (simp add: run_step_def [of _ _ _ "FromSocket _"] on_socket_def del: run_loop.simps)
  then show ?thesis
    using run client(2) scene(6) w'(2) refused(3) e(1)
    by (intro exI [of _ w'] exI [of _ "[server_text P (FError e), server_text P (payload_frame (payload rc))]"])
      (simp add: Let_def client_view_def del: run_loop.simps)
qed

theorem error_hides_delta_witness:
  "let t = snd (emit_with_cause [(''a'', jnat 0)] None (scene_new ''main'' ''v''));
      rs = \<lparr>run_current = 0, run_identity = \<lparr>id_subject = [], id_role = Viewer, id_paths = None\<rparr>, run_rx = 0\<rparr> in
    \<exists>w' texts. run_loop sample_platform
        [(sample_env, sample_env, \<lambda>s. s, FromSocket (Some (Inr (MText (client_text sample_platform (CInput sample_input)))))),
         (sample_env, sample_env, \<lambda>s. s, FromDeltas (RxOk (last (sc_sent t))))] rs
        (update_scene 0 t plain_server, plain_connection\<lparr>cn_scene := Some 0\<rparr>) = (None, w')
      \<and> message_texts (cn_out (snd w')) = texts
      \<and> client_view (mg_events (manager_run sample_platform (\<lambda>b. b) (map (\<lambda>x. SocketYielded (Some (Inr (CmText x)))) texts)
          (viewer_of (scene_new ''main'' ''v'')))) \<noteq> scene_state t"
proof -
  let ?s = "scene_new ''main'' ''v''"
  let ?t = "snd (emit_with_cause [(''a'', jnat 0)] None ?s)"
  let ?rs = "\<lparr>run_current = 0, run_identity = \<lparr>id_subject = [], id_role = Viewer, id_paths = None\<rparr>, run_rx = 0\<rparr>"
  let ?w = "(update_scene 0 ?t plain_server, plain_connection\<lparr>cn_scene := Some 0\<rparr>)"
  have "is_ok (validate_path ''a'')" by code_simp
  then have legal: "legal_updates [(''a'', jnat 0)]" by (simp add: validate_path_ok jnat_def)
  have refused: "\<not> input_accepted sample_platform sample_env sample_input (run_current ?rs) (run_identity ?rs) ?w"
    by (simp add: input_accepted_def can_input_def)
  have emit: "emit_with_cause [(''a'', jnat 0)] None ?s = (Inr (), ?t)"
    using emit_ok [OF legal, of None ?s] by auto
  have changed: "scene_state ?t \<noteq> scene_state ?s"
    using emit_state [OF scene_wf_new legal, of None "''main''" "''v''"] by (simp add: plain_state bt_insert_all_def)
  have "0 < length (srv_heap plain_server)"
    by (simp add: plain_server_def new_scene_with_version_def server_init_def add_scene_def Let_def)
  then have at: "scene_at (fst ?w) (run_current ?rs) = ?t" by (simp add: update_scene_def)
  have scene: "sc_seq ?s \<noteq> 0" "Suc (unat (sc_seq ?s)) < 2 ^ 64" by (simp_all add: new_scene_fields)
  have safe: "list_all (\<lambda>(_, v). payload_safe v) [(''a'', jnat 0)]" by (simp add: payload_safe_def jnat_def)
  have conn: "cn_budget (snd ?w) = None" "cn_scene (snd ?w) = Some (run_current ?rs)" "message_texts (cn_out (snd ?w)) = []"
    by (simp_all add: plain_conn)
  show ?thesis
    using error_hides_delta [OF sample_json_text_ok sample_input_decodes refused conn(1,2) [simplified snd_conv] scene_wf_new scene emit
        at [simplified fst_conv] changed safe viewer_in_step, of sample_env sample_env sample_env "\<lambda>b. b"]
    unfolding Let_def conn(3) [simplified snd_conv] append_Nil by blast
qed

text \<open>
  C30. Setup, subscribe, state. After the control plane accepted a setup request, a client that
  connects with any token the request installs, naming no scene, is let in on the scene that was set
  up, and what its consumer holds is exactly the request's initial state, whatever ran on the server
  before.
\<close>
theorem setup_then_subscribe:
  fixes before :: TestControlState
  assumes "json_text_ok P" "setup_accepted req"
    and state: "bt_wf (str_initial_state req)" "str_initial_state req \<noteq> []"
      "list_all (\<lambda>kv. \<not> is_object (snd kv) \<and> payload_safe (snd kv)) (str_initial_state req)"
    and capture: "case Option.bind (stb_inline (hd (str_bundles req))) (\<lambda>v. jget v ''layout'') of
      None \<Rightarrow> True | Some layout \<Rightarrow> is_ok (check_zab_capture_nodes layout)"
    and client: "(placeholder, ms_token st) \<in> set (str_tokens req)" "role_for_placeholder placeholder \<noteq> None"
      "ms_scene st = None" "cn_budget conn = None" "cn_out conn = []"
  defines "ctl \<equiv> snd (handle_setup P req before)"
  shows "\<exists>w'. handle_connection P (authenticate (tc_auth ctl)) env
      (Some (Some (Inr (MText (client_text P (subscribe_frame (ms_token st) (ms_scene st) (ms_session st)))))))
      [] (tc_server ctl, conn) = (None, w')
    \<and> (let mg = manager_run P scale (client_inputs P (message_texts (cn_out (snd w')))) (manager_start st) in
        mg_phase mg = Driving \<lparr>tracker_last = 1\<rparr> \<and> client_view (mg_events mg) = str_initial_state req)"
proof -
  obtain bd rest where b: "str_bundles req = bd # rest"
    using assms(2) by (auto simp: setup_accepted_def split: list.splits)
  obtain r where auth: "tc_auth ctl = install_tokens (str_tokens req) []"
    and r: "srv_active (tc_server ctl) = Some (effective_id bd)" "server_scene (effective_id bd) (tc_server ctl) = Some r"
      "scene_at (tc_server ctl) r = prepare_scene P req bd (scene_new (effective_id bd) (stb_hash bd))"
    using handle_setup_accepted [OF assms(2) b, of P before] unfolding ctl_def by fastforce
  let ?s = "scene_at (tc_server ctl) r"
  have "ms_token st \<in> snd ` {kv \<in> set (str_tokens req). role_for_placeholder (fst kv) \<noteq> None}"
    using client(1,2) by force
  then obtain identity where identity: "authenticate (tc_auth ctl) (ms_token st) = Inr identity"
    using install_tokens_admits [where kvs = "str_tokens req" and token = "ms_token st"] auth
    by (auto split: sum.splits)
  let ?sub = "\<lparr>subscribe_token = ms_token st, subscribe_scene = None, subscribe_session = ms_session st,
    subscribe_since_sequence = None\<rparr>"
  let ?first = "Some (Some (Inr (MText (client_text P (subscribe_frame (ms_token st) (ms_scene st) (ms_session st))))))"
  have recv: "recv_subscribe P ?first = Inr ?sub"
    using assms(1) client(3) by (simp add: recv_subscribe_def subscribe_frame_def decode_client_text)
  have "sc_rejection ?s = None" using capture b by (simp add: r(3) prepared_rejection)
  then obtain w' where "handle_connection P (authenticate (tc_auth ctl)) env ?first [] (tc_server ctl, conn) = (None, w')"
    "message_texts (cn_out (snd w')) = [server_text P (snapshot_frame env ?s)]"
    using connection_writes [OF recv, of "authenticate (tc_auth ctl)" identity "tc_server ctl" r conn "[]" "[]" env]
      identity r client(4,5) by (auto simp: resolve_scene_def)
  moreover have "scene_state ?s = str_initial_state req"
    using prepared_state [OF state(1,2)] by (simp add: r(3))
  ultimately show ?thesis
    using client_follows_history [OF assms(1) _ _ _ history_refl [of ?s], of scale env st] state(3)
    by (auto simp: r(3) prepared_scene list_all_iff Let_def)
qed

definition sample_control :: TestControlState where
  "sample_control = \<lparr>tc_server = plain_server, tc_auth = [], tc_ws_url = ''ws://h/lsdp.v1''\<rparr>"

theorem setup_then_subscribe_witness:
  "\<exists>w'. handle_connection sample_platform (authenticate (tc_auth (snd (handle_setup sample_platform sample_setup sample_control))))
     sample_env (Some (Some (Inr (MText (client_text sample_platform (subscribe_frame ''op'' None None)))))) []
     (tc_server (snd (handle_setup sample_platform sample_setup sample_control)), plain_connection) = (None, w')
     \<and> client_view (mg_events (manager_run sample_platform (\<lambda>b. b) (client_inputs sample_platform (message_texts (cn_out (snd w'))))
         (manager_start (sample_manager_state\<lparr>ms_token := ''op''\<rparr>)))) = str_initial_state sample_setup"
proof -
  have "starts_with ''sha256:'' ''sha256:0''" by (simp add: starts_with_def)
  then show ?thesis
    using setup_then_subscribe [OF sample_json_text_ok, where req = sample_setup
        and st = "sample_manager_state\<lparr>ms_token := ''op''\<rparr>" and placeholder = "''$TOKEN_OPERATOR''"
        and conn = plain_connection and before = sample_control and env = sample_env and scale = "\<lambda>b. b"]
    by (auto simp: sample_setup_def setup_accepted_def role_for_placeholder_def sample_manager_state_def plain_conn
        bt_wf_def payload_safe_def jnat_def Let_def)
qed

section \<open>Defaults that cannot be served\<close>

text \<open>
  The checks on leaf values do not cover a bundle's defaults. A bundle that passes validation and
  has an object among its defaults registers, but then every snapshot of its scene is refused by the
  protocol's own decoder, so no client ever gets past opening a connection.
\<close>
theorem object_default_unservable:
  assumes "json_text_ok P" "bundle_validate b = Inr ()" "(k, JObject m) \<in> set (bundle_defaults b)"
    "bt_wf (bundle_defaults b)" "list_all (\<lambda>kv. payload_safe (snd kv)) (bundle_defaults b)"
    "hm_get (srv_scenes srv) (bundle_scene_id b) = None"
  shows "\<exists>r srv'. register_bundle P b srv = (Inr r, srv')
    \<and> (\<forall>env. \<exists>e. await_snapshot P [(Inr (CmText (server_text P (snapshot_frame env (scene_at srv' r)))), Inr ())]
        = Inl (CEEncode e))"
proof -
  obtain r srv' where reg: "register_bundle P b srv = (Inr r, srv')"
    and store: "sc_store (scene_at srv' r) = store_seed (bundle_defaults b) store_new"
    using assms(6) by (auto simp: register_bundle_def with_computed_version_def Let_def add_scene_def
        attach_bundle_bytes_def scene_seed_def scene_new_def)
  have "scene_state (scene_at srv' r) = bundle_defaults b"
    using assms(4) by (simp add: scene_state_def store store_snapshot_seed)
  then have "\<not> state_servable (scene_at srv' r)" "state_transportable (scene_at srv' r)"
    using assms(3,5) by (force simp: list_all_iff)+
  then have "\<exists>e. decode_server P (server_text P (snapshot_frame env (scene_at srv' r))) = Inl e" for env
    by (rule snapshot_refused [OF assms(1)])
  then show ?thesis
    using reg by (intro exI [of _ r] exI [of _ srv'] conjI allI) (auto, metis sum.case(1))
qed

theorem object_default_unservable_witness:
  "\<exists>r srv'. register_bundle sample_platform (sample_bundle\<lparr>bundle_defaults := [(''score'', JObject [])]\<rparr>)
     (server_init sample_config) = (Inr r, srv')"
proof -
  let ?b = "sample_bundle\<lparr>bundle_defaults := [(''score'', JObject [])]\<rparr>"
  have "bundle_validate ?b = Inr ()"
    using sample_bundle_valid unfolding unit_result_cases bundle_validate_ok by simp
  then show ?thesis
    using object_default_unservable [OF sample_json_text_ok, of ?b "''score''" "[]" "server_init sample_config"]
    by (auto simp: bt_wf_def payload_safe_def safe_at_def server_init_def)
qed

end
